(* ===== verification/Prelude.thy ===== *)
theory Prelude
  imports
    Main
    "HOL-Library.Word"
    "HOL-Library.Monad_Syntax"
begin

section \<open>Shared types, automation and lemmas\<close>

text \<open>
  The scalar types of \<open>mytilus-sys/src/ctypes.rs\<close> (aarch64, LP64) as words of their
  width, the reading of C truth values, and the generic facts on words and lists that the
  components share. A signed C type is the word of its width, read with \<^const>\<open>sint\<close>;
  every Rust \<open>as\<close> cast between them is \<open>ucast\<close> (zero extension or truncation) or
  \<open>scast\<close> (sign extension).
\<close>

unbundle bit_operations_syntax

type_synonym u8 = "8 word"
type_synonym u16 = "16 word"
type_synonym u32 = "32 word"
type_synonym u64 = "64 word"
type_synonym i32 = "32 word"
type_synonym i64 = "64 word"

type_synonym c_char = u8
type_synonym c_ushort = u16
type_synonym c_int = i32
type_synonym c_uint = u32
type_synonym c_long = i64
type_synonym c_ulong = u64
type_synonym c_longlong = i64
type_synonym size_t = u64
type_synonym ssize_t = i64
type_synonym off_t = i64
type_synonym time_t = i64
type_synonym suseconds_t = i64
type_synonym clockid_t = i32
type_synonym pid_t = i32
type_synonym uid_t = u32
type_synonym gid_t = u32
type_synonym mode_t = u32
type_synonym ptr = u64

text \<open>A Rust \<open>bool\<close> cast to \<open>c_int\<close>.\<close>

definition bool_c_int :: "bool \<Rightarrow> c_int" where
  "bool_c_int b = (if b then 1 else 0)"

lemma bool_c_int_eq_0 [simp]: "bool_c_int b = 0 \<longleftrightarrow> \<not> b"
  by (simp add: bool_c_int_def)

lemma bool_c_int_eq_1 [simp]: "bool_c_int b = 1 \<longleftrightarrow> b"
  by (simp add: bool_c_int_def)

lemma bool_c_int_inject [simp]: "bool_c_int a = bool_c_int b \<longleftrightarrow> a = b"
  by (auto simp: bool_c_int_def)

text \<open>The null pointer.\<close>

abbreviation (input) null_ptr :: ptr where
  "null_ptr \<equiv> 0"

text \<open>
  Collections: \<open>mem_simps\<close> rewrites reads of updated memories, \<open>loop_specs\<close> holds
  the closed forms of the loops.
\<close>

named_theorems mem_simps
named_theorems loop_specs


subsection \<open>64-bit words and natural numbers\<close>

lemma unat_of_nat_64: "n < 2 ^ 64 \<Longrightarrow> unat (of_nat n :: u64) = n"
  by (simp add: unat_of_nat)

lemma unat_lt_64: "unat (x :: u64) < 2 ^ 64"
  using unsigned_less [of x] by simp

lemma of_nat_less_64:
  "m < 2 ^ 64 \<Longrightarrow> n < 2 ^ 64 \<Longrightarrow> (of_nat m :: u64) < of_nat n \<longleftrightarrow> m < n"
  by (simp add: word_less_nat_alt unat_of_nat)

lemma of_nat_eq_64:
  "m < 2 ^ 64 \<Longrightarrow> n < 2 ^ 64 \<Longrightarrow> (of_nat m :: u64) = of_nat n \<longleftrightarrow> m = n"
  by (metis unat_of_nat_64)

lemma of_nat_eq_0_64: "n < 2 ^ 64 \<Longrightarrow> (of_nat n :: u64) = 0 \<longleftrightarrow> n = 0"
  using of_nat_eq_64 [of n 0] by simp

lemma unat_add_of_nat: "unat p + i < 2 ^ 64 \<Longrightarrow> unat (p + of_nat i :: u64) = unat p + i"
  by (simp add: unat_word_ariths unat_of_nat)

lemma of_nat_unat_eq: "unat (x :: u64) = k \<Longrightarrow> x = of_nat k"
  by auto

lemma offset_of_nat: "i < 2 ^ 64 \<Longrightarrow> unat (p + of_nat i - p :: u64) = i"
  by (simp add: unat_of_nat_64)

lemma offset_cases:
  obtains i where "i < 2 ^ 64" and "a = (p :: u64) + of_nat i" and "unat (a - p) = i"
proof -
  have "a = p + of_nat (unat (a - p))" by simp
  then show ?thesis using that unat_lt_64 by blast
qed


subsection \<open>Flags\<close>

lemma and_bit: "x AND push_bit n 1 \<noteq> 0 \<longleftrightarrow> bit (x :: 'a::len word) n"
  by (simp add: and_exp_eq_0_iff_not_bit push_bit_of_1)

lemma and_two_bits:
  assumes "i < LENGTH('a)" "j < LENGTH('a)"
  shows "x AND (push_bit i 1 OR push_bit j 1) = (push_bit i 1 OR push_bit j 1) \<longleftrightarrow>
      bit (x :: 'a::len word) i \<and> bit x j"
proof
  assume *: "x AND (push_bit i 1 OR push_bit j 1) = (push_bit i 1 OR push_bit j 1)"
  from arg_cong [OF *, of "\<lambda>y. bit y i"] arg_cong [OF *, of "\<lambda>y. bit y j"] assms
  show "bit x i \<and> bit x j" by (simp add: bit_simps)
next
  assume "bit x i \<and> bit x j"
  then show "x AND (push_bit i 1 OR push_bit j 1) = (push_bit i 1 OR push_bit j 1)"
    by (intro bit_word_eqI) (auto simp: bit_simps)
qed


subsection \<open>Signed readings\<close>

lemma signed_take_bit_cases:
  fixes k :: int
  assumes "0 \<le> k" "k < 2 ^ Suc n"
  shows "signed_take_bit n k = (if k < 2 ^ n then k else k - 2 ^ Suc n)"
proof (cases "k < 2 ^ n")
  case True
  have "- (2 ^ n) \<le> k" using assms(1) by (rule order.trans [rotated]) simp
  with True show ?thesis by (simp add: signed_take_bit_int_eq_self)
next
  case False
  then have "(k + 2 ^ n) mod 2 ^ Suc n = k + 2 ^ n - 2 ^ Suc n"
    using assms by (subst mod_pos_geq) (auto intro: mod_pos_pos_trivial)
  with False show ?thesis
    by (simp add: signed_take_bit_eq_take_bit_shift take_bit_eq_mod)
qed

lemma sint_32: "sint (x :: 32 word) = (if uint x < 2 ^ 31 then uint x else uint x - 2 ^ 32)"
  using signed_take_bit_cases [of "uint x" 31] uint_lt2p [of x] by (simp add: sint_uint)

lemma sint_64: "sint (x :: 64 word) = (if uint x < 2 ^ 63 then uint x else uint x - 2 ^ 64)"
  using signed_take_bit_cases [of "uint x" 63] uint_lt2p [of x] by (simp add: sint_uint)

lemma sint_32_bounds: "- (2 ^ 31) \<le> sint (x :: 32 word)" "sint x < 2 ^ 31"
  using sint_ge [of x] sint_lt [of x] by simp_all

lemma sint_64_bounds: "- (2 ^ 63) \<le> sint (x :: 64 word)" "sint x < 2 ^ 63"
  using sint_ge [of x] sint_lt [of x] by simp_all

lemma sint_scast_64: "sint (scast (x :: i32) :: i64) = sint x"
proof -
  have "- (2 ^ 63) \<le> sint x"
    by (rule order.trans [OF _ sint_32_bounds(1)]) simp
  moreover have "sint x < 2 ^ 63"
    by (rule less_le_trans [OF sint_32_bounds(2)]) simp
  ultimately have "signed_take_bit 63 (sint x) = sint x"
    by (rule signed_take_bit_int_eq_self)
  then show ?thesis by (simp add: signed_scast_eq)
qed

lemma sint_nonneg_32: "0 \<le> sint (x :: 32 word) \<longleftrightarrow> uint x < 2 ^ 31"
  using uint_lt2p [of x] by (auto simp: sint_32 not_less split: if_splits)

lemma sint_nonneg_64: "0 \<le> sint (x :: 64 word) \<longleftrightarrow> uint x < 2 ^ 63"
  using uint_lt2p [of x] by (auto simp: sint_64 not_less split: if_splits)

lemma sint_eq_uint_32: "0 \<le> sint (x :: 32 word) \<Longrightarrow> sint x = uint x"
  by (subst sint_32) (simp add: sint_nonneg_32)

lemma sint_eq_uint_64: "0 \<le> sint (x :: 64 word) \<Longrightarrow> sint x = uint x"
  by (subst sint_64) (simp add: sint_nonneg_64)

lemma unat_scast_nonneg: "0 \<le> sint (x :: i32) \<Longrightarrow> unat (scast x :: u64) = unat x"
proof -
  assume x: "0 \<le> sint x"
  then have "uint (scast x :: u64) = uint x"
    using sint_eq_uint_64 [of "scast x"] sint_eq_uint_32 [of x] sint_scast_64 [of x] by argo
  then show ?thesis by (metis unat_eq_nat_uint)
qed


subsection \<open>Bytes as \<open>c_int\<close>\<close>

lemma uint_u8_bound: "uint (a :: u8) < 256"
  using uint_lt2p [of a] by simp

lemma signed_take_bit_31: "- (2 ^ 31) \<le> k \<Longrightarrow> k < 2 ^ 31 \<Longrightarrow> signed_take_bit 31 k = (k :: int)"
  by (rule signed_take_bit_int_eq_self)

lemma sint_byte [simp]: "sint (ucast (a :: u8) :: c_int) = uint a"
  using uint_u8_bound [of a]
  by (simp add: signed_ucast_eq signed_take_bit_31 order.trans [OF _ uint_ge_0])

lemma signed_take_bit_31_diff:
  fixes x y :: int
  assumes "0 \<le> x" "x < 256" "0 \<le> y" "y < 256"
  shows "signed_take_bit 31 (x - y) = x - y"
  using assms by (intro signed_take_bit_31) simp_all

lemma sint_byte_diff [simp]:
  "sint (ucast (a :: u8) - ucast (b :: u8) :: c_int) = uint a - uint b"
  by (simp add: sint_word_diff signed_take_bit_31_diff uint_u8_bound)

lemma byte_cast_inj [simp]: "(ucast (a :: u8) :: c_int) = ucast b \<longleftrightarrow> a = b"
  by (metis sint_byte word_uint_eq_iff)

lemma uint_byte_cast [simp]: "uint (ucast (a :: u8) :: c_int) = uint a"
proof -
  have "take_bit 32 (uint a) = uint a"
    using uint_u8_bound [of a] by (intro take_bit_int_eq_self) simp_all
  then show ?thesis by (simp add: unsigned_ucast_eq)
qed

lemma byte_cast_back [simp]: "(ucast (ucast (a :: u8) :: c_int) :: u8) = a"
proof -
  have "take_bit 8 (uint a) = uint a"
    using uint_u8_bound [of a] by (intro take_bit_int_eq_self) simp_all
  then have "uint (ucast (ucast a :: c_int) :: u8) = uint a"
    by (subst unsigned_ucast_eq) simp
  then show ?thesis by (simp only: word_uint_eq_iff)
qed

lemma byte_cast_eq_0 [simp]: "(ucast (a :: u8) :: c_int) = 0 \<longleftrightarrow> a = 0"
  using byte_cast_inj [of a 0] by simp

lemma sint_byte_minus [simp]: "sint (- ucast (b :: u8) :: c_int) = - uint b"
  using sint_byte_diff [of 0 b] by simp


subsection \<open>Evaluation on numerals\<close>

lemma replicate_numeral_Cons: "replicate (numeral k) x = x # replicate (pred_numeral k) x"
  by (simp add: numeral_eq_Suc)


subsection \<open>Simulation of sequences of operations\<close>

text \<open>
  A component whose operations refine abstract ones: a sequence of operations, run one after the
  other, never fails and stays related to the abstract sequence.
\<close>

fun run_all :: "('op \<Rightarrow> 's \<Rightarrow> 's option) \<Rightarrow> 'op list \<Rightarrow> 's \<Rightarrow> 's option" where
  "run_all step [] s = Some s"
| "run_all step (x # xs) s = step x s \<bind> run_all step xs"

locale simulation =
  fixes rel :: "'s \<Rightarrow> 'a \<Rightarrow> bool"
    and step :: "'op \<Rightarrow> 's \<Rightarrow> 's option"
    and astep :: "'op \<Rightarrow> 'a \<Rightarrow> 'a"
  assumes simulates: "rel s a \<Longrightarrow> \<exists>s'. step x s = Some s' \<and> rel s' (astep x a)"
begin

lemma run_all_simulates: "rel s a \<Longrightarrow> \<exists>s'. run_all step xs s = Some s' \<and> rel s' (fold astep xs a)"
proof (induction xs arbitrary: s a)
  case (Cons x xs)
  obtain s1 where "step x s = Some s1" "rel s1 (astep x a)" using simulates [OF Cons.prems] by blast
  with Cons.IH show ?case by auto
qed simp

lemma run_all_invariant:
  assumes "rel s a" "P a" "\<And>x b. P b \<Longrightarrow> P (astep x b)"
  shows "\<exists>s' a'. run_all step xs s = Some s' \<and> rel s' a' \<and> P a'"
proof -
  have "P (fold astep xs b)" if "P b" for b
    using that by (induction xs arbitrary: b) (simp_all add: assms(3))
  then show ?thesis using run_all_simulates [OF assms(1)] assms(2) by blast
qed

end

end
