(* ===== verification/Memory.thy ===== *)
theory Memory
  imports Prelude
begin

section \<open>Byte-addressed memory\<close>

text \<open>
  The raw pointers of the Rust code are 64-bit addresses, and the bytes behind them are a
  partial function from addresses: an unmapped address is outside \<open>dom\<close>. A read or write
  through an invalid pointer is \<open>None\<close>, so a function that returns \<open>Some\<close> has touched
  mapped bytes only. \<open>p.add(i)\<close> is \<open>p + i\<close> on words.
\<close>

type_synonym mem = "ptr \<rightharpoonup> u8"

definition load :: "mem \<Rightarrow> ptr \<Rightarrow> u8 option" where
  "load m p = m p"

definition store :: "mem \<Rightarrow> ptr \<Rightarrow> u8 \<Rightarrow> mem option" where
  "store m p b = (case m p of None \<Rightarrow> None | Some _ \<Rightarrow> Some (m(p \<mapsto> b)))"


subsection \<open>Regions and their contents\<close>

definition bytes_at :: "mem \<Rightarrow> ptr \<Rightarrow> u8 list \<Rightarrow> bool" where
  "bytes_at m p bs \<longleftrightarrow> (\<forall>i<length bs. m (p + of_nat i) = Some (bs ! i))"

definition mapped :: "mem \<Rightarrow> ptr \<Rightarrow> nat \<Rightarrow> bool" where
  "mapped m p n \<longleftrightarrow> (\<forall>i<n. m (p + of_nat i) \<noteq> None)"

definition cstr :: "mem \<Rightarrow> ptr \<Rightarrow> u8 list \<Rightarrow> bool" where
  "cstr m p bs \<longleftrightarrow> bytes_at m p (bs @ [0]) \<and> 0 \<notin> set bs"

text \<open>
  \<open>until t m p n bs\<close>: what a scan for the byte \<open>t\<close> bounded by \<open>n\<close> sees at \<open>p\<close>,
  namely the bytes before the first \<open>t\<close> or, when none of the first \<open>n\<close> is \<open>t\<close>,
  those \<open>n\<close> bytes. Nothing after the \<open>t\<close> or after \<open>n\<close> bytes has to be mapped.
  With the NUL it is the argument of an \<open>n\<close>-bounded string function.
\<close>

definition until :: "u8 \<Rightarrow> mem \<Rightarrow> ptr \<Rightarrow> nat \<Rightarrow> u8 list \<Rightarrow> bool" where
  "until t m p n bs \<longleftrightarrow> t \<notin> set bs \<and> length bs \<le> n
     \<and> bytes_at m p (if length bs < n then bs @ [t] else bs)"

abbreviation nstr :: "mem \<Rightarrow> ptr \<Rightarrow> nat \<Rightarrow> u8 list \<Rightarrow> bool" where
  "nstr \<equiv> until 0"

text \<open>The addresses of the \<open>n\<close> bytes from \<open>p\<close>, and the memory after writing \<open>bs\<close> there.\<close>

definition span :: "ptr \<Rightarrow> nat \<Rightarrow> ptr set" where
  "span p n = {a. unat (a - p) < n}"

definition put :: "mem \<Rightarrow> ptr \<Rightarrow> u8 list \<Rightarrow> mem" where
  "put m p bs = (\<lambda>a. if unat (a - p) < length bs then Some (bs ! unat (a - p)) else m a)"

abbreviation disjoint_spans :: "ptr \<Rightarrow> nat \<Rightarrow> ptr \<Rightarrow> nat \<Rightarrow> bool" where
  "disjoint_spans p n q k \<equiv> span p n \<inter> span q k = {}"


subsection \<open>Contents\<close>

lemma load_bytes_at:
  "bytes_at m p bs \<Longrightarrow> i < length bs \<Longrightarrow> load m (p + of_nat i) = Some (bs ! i)"
  by (simp add: bytes_at_def load_def)

lemma bytes_at_Nil [simp]: "bytes_at m p []"
  by (simp add: bytes_at_def)

lemma bytes_at_Cons: "bytes_at m p (b # bs) \<longleftrightarrow> m p = Some b \<and> bytes_at m (p + 1) bs"
  by (auto simp: bytes_at_def nth_Cons less_Suc_eq_0_disj add.assoc split: nat.splits)

lemma bytes_at_append:
  "bytes_at m p (xs @ ys) \<longleftrightarrow> bytes_at m p xs \<and> bytes_at m (p + of_nat (length xs)) ys"
  by (induction xs arbitrary: p) (auto simp: bytes_at_Cons add.assoc)

lemma bytes_at_unique:
  "bytes_at m p xs \<Longrightarrow> bytes_at m p ys \<Longrightarrow> length xs = length ys \<Longrightarrow> xs = ys"
  by (rule nth_equalityI) (auto simp: bytes_at_def)

lemma bytes_at_mapped: "bytes_at m p bs \<Longrightarrow> mapped m p (length bs)"
  by (simp add: bytes_at_def mapped_def)

lemma mapped_bytes_at: "mapped m p n \<Longrightarrow> \<exists>bs. length bs = n \<and> bytes_at m p bs"
  by (rule exI [of _ "map (\<lambda>i. the (m (p + of_nat i))) [0..<n]"])
     (auto simp: mapped_def bytes_at_def)

lemma mapped_0 [simp]: "mapped m p 0"
  by (simp add: mapped_def)

lemma mapped_Suc: "mapped m p (Suc n) \<longleftrightarrow> m p \<noteq> None \<and> mapped m (p + 1) n"
  by (auto simp: mapped_def less_Suc_eq_0_disj add.assoc)

lemma mapped_numeral:
  "mapped m p (numeral v) \<longleftrightarrow> m p \<noteq> None \<and> mapped m (p + 1) (pred_numeral v)"
  by (simp add: numeral_eq_Suc mapped_Suc)

lemma mapped_mono: "mapped m p n \<Longrightarrow> k \<le> n \<Longrightarrow> mapped m p k"
  by (auto simp: mapped_def)


lemma bytes_at_take: "bytes_at m p bs \<Longrightarrow> bytes_at m p (take k bs)"
  by (simp add: bytes_at_def)


subsection \<open>Strings\<close>

lemma cstr_Nil [simp]: "cstr m p [] \<longleftrightarrow> m p = Some 0"
  by (simp add: cstr_def bytes_at_Cons)

lemma cstr_Cons: "cstr m p (b # bs) \<longleftrightarrow> m p = Some b \<and> b \<noteq> 0 \<and> cstr m (p + 1) bs"
  by (auto simp: cstr_def bytes_at_Cons)

lemma cstr_append:
  "cstr m p (xs @ ys) \<longleftrightarrow> bytes_at m p xs \<and> 0 \<notin> set xs \<and> cstr m (p + of_nat (length xs)) ys"
  by (auto simp: cstr_def bytes_at_append)

lemma cstr_bytes_at: "cstr m p bs \<Longrightarrow> bytes_at m p bs"
  by (simp add: cstr_def bytes_at_append)

text \<open>A C string is shorter than the address space: going round it would need a NUL and none.\<close>

lemma cstr_length:
  assumes "cstr m p bs"
  shows "length bs < 2 ^ 64"
proof (rule ccontr)
  assume "\<not> length bs < 2 ^ 64"
  then obtain k where k: "length bs = k + 2 ^ 64"
    by (metis add.commute le_Suc_ex not_less)
  then have "(of_nat (length bs) :: u64) = of_nat k"
    by (simp add: word_of_nat_eq_iff take_bit_eq_mod)
  moreover have "m (p + of_nat k) = Some (bs ! k)"
    using cstr_bytes_at [OF assms] k by (simp add: bytes_at_def)
  moreover have "m (p + of_nat (length bs)) = Some 0"
    using assms by (simp add: cstr_def bytes_at_append bytes_at_Cons)
  moreover have "bs ! k \<in> set bs" using k by simp
  ultimately show False using assms by (simp add: cstr_def)
qed

lemma cstr_unique: "cstr m p xs \<Longrightarrow> cstr m p ys \<Longrightarrow> xs = ys"
proof (induction xs arbitrary: p ys)
  case Nil
  then show ?case by (cases ys) (auto simp: cstr_Cons)
next
  case (Cons x xs)
  then show ?case by (cases ys) (auto simp: cstr_Cons)
qed

lemma cstr_nstr: "cstr m p bs \<Longrightarrow> nstr m p n (take n bs)"
  by (auto simp: cstr_def until_def bytes_at_append bytes_at_take dest: in_set_takeD)

lemma until_0 [simp]: "until t m p 0 bs \<longleftrightarrow> bs = []"
  by (auto simp: until_def)

lemma until_Suc_Nil: "until t m p (Suc n) [] \<longleftrightarrow> m p = Some t"
  by (simp add: until_def bytes_at_Cons)

lemma until_Suc_Cons:
  "until t m p (Suc n) (b # bs) \<longleftrightarrow> m p = Some b \<and> b \<noteq> t \<and> until t m (p + 1) n bs"
  by (auto simp: until_def bytes_at_Cons)

lemma until_length: "until t m p n bs \<Longrightarrow> length bs \<le> n"
  by (simp add: until_def)

lemma nstr_nul_free: "nstr m p n bs \<Longrightarrow> 0 \<notin> set bs"
  by (simp add: until_def)

lemma cstr_nul_free: "cstr m p bs \<Longrightarrow> 0 \<notin> set bs"
  by (simp add: cstr_def)


subsection \<open>Spans\<close>

lemma in_span_iff: "n \<le> 2 ^ 64 \<Longrightarrow> a \<in> span p n \<longleftrightarrow> (\<exists>i<n. a = p + of_nat i)"
proof -
  assume n: "n \<le> 2 ^ 64"
  obtain i where i: "i < 2 ^ 64" "a = p + of_nat i" "unat (a - p) = i"
    by (rule offset_cases)
  have "\<exists>j<n. a = p + of_nat j \<Longrightarrow> i < n"
    using i n by (auto simp: of_nat_eq_64)
  with i show ?thesis by (auto simp: span_def)
qed

lemma add_in_span: "i < n \<Longrightarrow> p + of_nat i \<in> span p n"
proof -
  have "unat (of_nat i :: u64) \<le> i" by (simp add: unat_of_nat)
  then show "i < n \<Longrightarrow> p + of_nat i \<in> span p n" by (simp add: span_def)
qed

lemma span_shift: "span (p + 1) n \<subseteq> span p (Suc n)"
proof
  fix a
  assume "a \<in> span (p + 1) n"
  moreover obtain i where "a = p + 1 + of_nat i" "unat (a - (p + 1)) = i"
    by (rule offset_cases)
  ultimately have "a = p + of_nat (Suc i)" "Suc i < Suc n"
    by (simp_all add: span_def)
  then show "a \<in> span p (Suc n)" by (simp only: add_in_span)
qed

lemma base_in_span: "p \<in> span p (Suc n)"
  by (simp add: span_def)

lemma disjoint_spans_Suc:
  assumes "disjoint_spans p (Suc n) q (Suc k)"
  shows "disjoint_spans (p + 1) n (q + 1) k" and "p \<notin> span (q + 1) k" and "p \<noteq> q"
  using assms span_shift [of p n] span_shift [of q k] base_in_span [of p n] base_in_span [of q k]
  by auto

lemma disjoint_spans_neq:
  assumes "disjoint_spans p n q k" "i < n" "j < k" "n \<le> 2 ^ 64" "k \<le> 2 ^ 64"
  shows "p + of_nat i \<noteq> q + of_nat j"
proof -
  have "p + of_nat i \<in> span p n" "q + of_nat j \<in> span q k"
    using assms by (simp_all add: add_in_span)
  with assms(1) show ?thesis by (auto simp: disjoint_iff)
qed

lemma disjoint_spans_le:
  assumes "unat p + n \<le> unat q" "unat q + k \<le> 2 ^ 64"
  shows "disjoint_spans p n q k" and "disjoint_spans q k p n"
proof -
  have "p + of_nat i \<noteq> q + of_nat j" if "i < n" "j < k" for i j
  proof
    assume "p + of_nat i = q + of_nat j"
    then have "unat (p + of_nat i) = unat (q + of_nat j)" by simp
    with assms that show False by (simp add: unat_add_of_nat)
  qed
  moreover have "n \<le> 2 ^ 64" "k \<le> 2 ^ 64"
    using assms unat_lt_64 [of q] by simp_all
  ultimately show "disjoint_spans p n q k" by (fastforce simp: in_span_iff)
  then show "disjoint_spans q k p n" by (simp add: Int_commute)
qed

lemma disjoint_spans_commute: "disjoint_spans p n q k \<longleftrightarrow> disjoint_spans q k p n"
  by (simp add: Int_commute)

lemma span_mono: "k \<le> n \<Longrightarrow> span p k \<subseteq> span p n"
  by (auto simp: span_def)

lemma in_span_nowrap:
  "unat p + n \<le> 2 ^ 64 \<Longrightarrow> a \<in> span p n \<longleftrightarrow> unat p \<le> unat a \<and> unat a < unat p + n"
proof -
  assume n: "unat p + n \<le> 2 ^ 64"
  obtain i where i: "i < 2 ^ 64" "a = p + of_nat i" "unat (a - p) = i"
    by (rule offset_cases)
  show ?thesis
  proof (cases "unat p + i < 2 ^ 64")
    case True
    with i show ?thesis by (simp add: span_def unat_add_of_nat)
  next
    case False
    then have "unat a = unat p + i - 2 ^ 64"
      using i unat_lt_64 [of p] by (simp add: unat_word_ariths unat_of_nat_64 mod_if)
    with False i n show ?thesis by (simp add: span_def)
  qed
qed


subsection \<open>Writing\<close>

lemma put_in [mem_simps]:
  "i < length bs \<Longrightarrow> length bs \<le> 2 ^ 64 \<Longrightarrow> put m p bs (p + of_nat i) = Some (bs ! i)"
  by (simp add: put_def unat_of_nat_64)

lemma put_out [mem_simps]: "a \<notin> span p (length bs) \<Longrightarrow> put m p bs a = m a"
  by (simp add: put_def span_def)

lemma put_Nil [simp]: "put m p [] = m"
  by (simp add: put_def)

lemma put_snoc:
  "length bs < 2 ^ 64 \<Longrightarrow>
   (put m p bs)(p + of_nat (length bs) \<mapsto> b) = put m p (bs @ [b])"
  by (rule ext) (auto simp: put_def nth_append unat_of_nat_64 less_Suc_eq dest: sym)

lemma put_Cons_eq:
  assumes "length bs < 2 ^ 64"
  shows "put m p (b # bs) = (put m (p + 1) bs)(p \<mapsto> b)"
proof (rule ext)
  fix a
  obtain i where i: "i < 2 ^ 64" "a = p + of_nat i" "unat (a - p) = i"
    by (rule offset_cases)
  show "put m p (b # bs) a = ((put m (p + 1) bs)(p \<mapsto> b)) a"
  proof (cases i)
    case 0
    with i show ?thesis by (simp add: put_def)
  next
    case (Suc j)
    with i have "unat (a - (p + 1)) = j" "a \<noteq> p" by (auto simp: unat_of_nat_64 of_nat_eq_0_64)
    with Suc i show ?thesis by (simp add: put_def)
  qed
qed

lemma put_same: "bytes_at m p bs \<Longrightarrow> put m p bs = m"
proof (rule ext)
  fix a
  assume "bytes_at m p bs"
  moreover obtain i where "a = p + of_nat i" "unat (a - p) = i"
    by (rule offset_cases)
  ultimately show "put m p bs a = m a" by (simp add: put_def bytes_at_def)
qed

lemma bytes_at_put: "length bs \<le> 2 ^ 64 \<Longrightarrow> bytes_at (put m p bs) p bs"
  by (simp add: bytes_at_def put_in)

lemma bytes_at_put_disjoint:
  assumes "disjoint_spans p (length bs) q (length cs)"
    "length bs \<le> 2 ^ 64" "length cs \<le> 2 ^ 64"
  shows "bytes_at (put m p bs) q cs \<longleftrightarrow> bytes_at m q cs"
proof -
  have "put m p bs (q + of_nat i) = m (q + of_nat i)" if "i < length cs" for i
    using assms that by (intro put_out) (auto simp: add_in_span disjoint_iff)
  then show ?thesis by (simp add: bytes_at_def)
qed

lemma mapped_put: "mapped m q n \<Longrightarrow> mapped (put m p bs) q n"
  by (auto simp: mapped_def put_def)

lemma dom_put:
  assumes "mapped m p (length bs)"
  shows "dom (put m p bs) = dom m"
proof -
  have "m a \<noteq> None" if "unat (a - p) < length bs" for a
    using assms that by (auto simp: mapped_def dest!: spec [of _ "unat (a - p)"])
  then show ?thesis by (auto simp: put_def dom_def)
qed

text \<open>One byte written outside or in front of a region.\<close>

lemma bytes_at_upd: "a \<notin> span p (length bs) \<Longrightarrow> bytes_at (m(a \<mapsto> b)) p bs \<longleftrightarrow> bytes_at m p bs"
  using add_in_span [of _ "length bs" p] by (auto simp: bytes_at_def)

lemma cstr_upd: "a \<notin> span p (Suc (length bs)) \<Longrightarrow> cstr (m(a \<mapsto> b)) p bs \<longleftrightarrow> cstr m p bs"
  by (simp add: cstr_def bytes_at_upd)

lemma until_upd: "a \<notin> span p n \<Longrightarrow> until t (m(a \<mapsto> b)) p n bs \<longleftrightarrow> until t m p n bs"
  using span_mono [of "length bs" n p] span_mono [of "Suc (length bs)" n p]
    bytes_at_upd [of a p "bs @ [t]" m b] bytes_at_upd [of a p bs m b]
  by (cases "length bs < n") (auto simp: until_def)

lemma mapped_upd: "mapped m p n \<Longrightarrow> mapped (m(a \<mapsto> b)) p n"
  by (auto simp: mapped_def)

lemma put_Cons:
  assumes "length bs < 2 ^ 64"
  shows "put m p (b # bs) = put (m(p \<mapsto> b)) (p + 1) bs"
proof -
  have "unat (p - (p + 1)) = 2 ^ 64 - 1"
    by (simp add: unsigned_minus_1_eq_mask mask_eq_exp_minus_1)
  then have "put (m(p \<mapsto> b)) (p + 1) bs = (put m (p + 1) bs)(p \<mapsto> b)"
    using assms by (intro ext) (auto simp: put_def)
  then show ?thesis using put_Cons_eq [OF assms] by simp
qed

text \<open>Writing after writing: a prefix extended, and a middle part replaced.\<close>

lemma put_append:
  assumes "length xs + length ys \<le> 2 ^ 64"
  shows "put (put m p xs) (p + of_nat (length xs)) ys = put m p (xs @ ys)"
proof (rule ext)
  fix a
  obtain i where i: "i < 2 ^ 64" "a = p + of_nat i" "unat (a - p) = i"
    by (rule offset_cases)
  show "put (put m p xs) (p + of_nat (length xs)) ys a = put m p (xs @ ys) a"
  proof (cases "i < length xs")
    case True
    then have "a \<notin> span (p + of_nat (length xs)) (length ys)"
      using i assms by (auto simp: in_span_iff add.assoc of_nat_eq_64 simp flip: of_nat_add)
    with True i show ?thesis by (simp add: put_out) (simp add: put_def nth_append)
  next
    case False
    then have "a - (p + of_nat (length xs)) = of_nat (i - length xs)"
      using i by (simp add: of_nat_diff)
    then have "unat (a - (p + of_nat (length xs))) = i - length xs"
      using i by (simp add: unat_of_nat_64)
    with False i show ?thesis by (auto simp: put_def nth_append)
  qed
qed

lemma put_over:
  assumes "length ys = length zs" "length xs + length ys + length us \<le> 2 ^ 64"
  shows "put (put m p (xs @ ys @ us)) (p + of_nat (length xs)) zs = put m p (xs @ zs @ us)"
proof (rule ext)
  fix a
  obtain i where i: "i < 2 ^ 64" "a = p + of_nat (length xs) + of_nat i"
      "unat (a - (p + of_nat (length xs))) = i"
    by (rule offset_cases)
  obtain j where j: "j < 2 ^ 64" "a = p + of_nat j" "unat (a - p) = j"
    by (rule offset_cases)
  show "put (put m p (xs @ ys @ us)) (p + of_nat (length xs)) zs a = put m p (xs @ zs @ us) a"
  proof (cases "i < length zs")
    case True
    then have "p + of_nat j = p + of_nat (length xs + i)" "length xs + i < 2 ^ 64"
      using i j(2) assms by (simp_all add: add.assoc)
    then have "j = length xs + i"
      using of_nat_eq_64 [of j "length xs + i"] j(1) by (simp only: add_left_cancel)
    with True i j assms show ?thesis by (simp add: put_def nth_append)
  next
    case False
    have "j < length xs \<or> length xs + length ys \<le> j"
    proof (rule ccontr)
      assume "\<not> ?thesis"
      then obtain k where k: "j = length xs + k" "k < length ys"
        by (auto simp: not_le not_less dest: le_Suc_ex)
      then have "of_nat k = (of_nat i :: ptr)" using i(2) j(2) by (simp add: add.assoc)
      moreover have "k < 2 ^ 64" using k(2) assms by simp
      ultimately have "k = i" using of_nat_eq_64 i(1) by blast
      with False k assms(1) show False by simp
    qed
    with False i j assms show ?thesis by (auto simp: put_def nth_append)
  qed
qed

lemma put_put_same: "length xs = length ys \<Longrightarrow> put (put m p xs) p ys = put m p ys"
  by (auto simp: put_def fun_eq_iff)

lemma put_upd_commute:
  "a \<notin> span p (length bs) \<Longrightarrow> (put m p bs)(a \<mapsto> b) = put (m(a \<mapsto> b)) p bs"
  by (rule ext) (auto simp: put_def span_def)

lemma store_mapped: "m p \<noteq> None \<Longrightarrow> store m p b = Some (m(p \<mapsto> b))"
  by (auto simp: store_def)


subsection \<open>Concrete memories\<close>

text \<open>The bytes \<open>bs\<close> at \<open>p\<close> and nothing else: the memories of the witnesses.\<close>

definition mem_of :: "ptr \<Rightarrow> u8 list \<Rightarrow> mem" where
  "mem_of p bs = put Map.empty p bs"

lemma bytes_at_mem_of: "length bs \<le> 2 ^ 64 \<Longrightarrow> bytes_at (mem_of p bs) p bs"
  by (simp add: mem_of_def bytes_at_put)

text \<open>Evaluation of the memory predicates on concrete memories.\<close>

lemmas mem_eval =
  cstr_Cons mem_of_def put_def bytes_at_Cons mapped_Suc mapped_numeral load_def store_def

end
