(* ===== verification/Mem_Ops.thy ===== *)
theory Mem_Ops
  imports Memory "HOL-Library.List_Lexorder"
begin

section \<open>Memory operations\<close>

text \<open>
  \<open>mytilus-string/src/mem.rs\<close>: \<open>memcpy\<close>, \<open>memmove\<close>, \<open>memset\<close> and
  \<open>memcmp\<close>, the byte loops over the memory of theory \<open>Memory\<close>. Each returns the
  pointer or value the Rust function returns, with the new memory where it writes; \<open>None\<close>
  is an access outside mapped memory. The loop counters are \<open>size_t\<close> words.
\<close>

subsection \<open>Definitions\<close>

partial_function (option) copy_forward ::
  "mem \<Rightarrow> ptr \<Rightarrow> ptr \<Rightarrow> size_t \<Rightarrow> size_t \<Rightarrow> mem option" where
  "copy_forward m d s n i =
     (if i < n then do {
        b \<leftarrow> load m (s + i);
        m' \<leftarrow> store m (d + i) b;
        copy_forward m' d s n (i + 1)
      } else Some m)"

partial_function (option) copy_backward ::
  "mem \<Rightarrow> ptr \<Rightarrow> ptr \<Rightarrow> size_t \<Rightarrow> mem option" where
  "copy_backward m d s i =
     (if i > 0 then do {
        b \<leftarrow> load m (s + (i - 1));
        m' \<leftarrow> store m (d + (i - 1)) b;
        copy_backward m' d s (i - 1)
      } else Some m)"

definition memcpy :: "mem \<Rightarrow> ptr \<Rightarrow> ptr \<Rightarrow> size_t \<Rightarrow> (ptr \<times> mem) option" where
  "memcpy m dest src n = do {
     m' \<leftarrow> copy_forward m dest src n 0;
     Some (dest, m')
   }"

definition memmove :: "mem \<Rightarrow> ptr \<Rightarrow> ptr \<Rightarrow> size_t \<Rightarrow> (ptr \<times> mem) option" where
  "memmove m dest src n = do {
     m' \<leftarrow> (if dest < src then copy_forward m dest src n 0
            else if dest > src then copy_backward m dest src n
            else Some m);
     Some (dest, m')
   }"

partial_function (option) memset_loop ::
  "mem \<Rightarrow> ptr \<Rightarrow> u8 \<Rightarrow> size_t \<Rightarrow> size_t \<Rightarrow> mem option" where
  "memset_loop m d byte n i =
     (if i < n then do {
        m' \<leftarrow> store m (d + i) byte;
        memset_loop m' d byte n (i + 1)
      } else Some m)"

definition memset :: "mem \<Rightarrow> ptr \<Rightarrow> c_int \<Rightarrow> size_t \<Rightarrow> (ptr \<times> mem) option" where
  "memset m dest c n = do {
     m' \<leftarrow> memset_loop m dest (ucast c) n 0;
     Some (dest, m')
   }"

partial_function (option) memcmp_loop ::
  "mem \<Rightarrow> ptr \<Rightarrow> ptr \<Rightarrow> size_t \<Rightarrow> size_t \<Rightarrow> c_int option" where
  "memcmp_loop m l r n i =
     (if i < n then do {
        a \<leftarrow> load m (l + i);
        b \<leftarrow> load m (r + i);
        if a \<noteq> b then Some (ucast a - ucast b) else memcmp_loop m l r n (i + 1)
      } else Some 0)"

definition memcmp :: "mem \<Rightarrow> ptr \<Rightarrow> ptr \<Rightarrow> size_t \<Rightarrow> c_int option" where
  "memcmp m vl vr n = memcmp_loop m vl vr n 0"


subsection \<open>The copy loops\<close>

lemma copy_forward_take:
  assumes "bytes_at m s bs" "mapped m d (length bs)" "length bs < 2 ^ 64"
    and fresh: "\<And>i j. i < length bs \<Longrightarrow> j < i \<Longrightarrow> s + of_nat i \<noteq> d + of_nat j"
    and "k \<le> length bs"
  shows "copy_forward (put m d (take k bs)) d s (of_nat (length bs)) (of_nat k)
    = Some (put m d bs)"
  using \<open>k \<le> length bs\<close>
proof (induction "length bs - k" arbitrary: k)
  case 0
  then show ?case by (subst copy_forward.simps) simp
next
  case (Suc l)
  then have k: "k < length bs" by simp
  let ?m = "put m d (take k bs)"
  have "s + of_nat k \<notin> span d (length (take k bs))"
    using fresh [OF k] k assms(3) by (auto simp: in_span_iff)
  then have ld: "load ?m (s + of_nat k) = Some (bs ! k)"
    using assms(1) k by (simp add: load_def put_out bytes_at_def)
  have "?m (d + of_nat k) \<noteq> None"
    using mapped_put [OF assms(2)] k by (auto simp: mapped_def)
  then have st: "store ?m (d + of_nat k) (bs ! k) = Some (put m d (take (Suc k) bs))"
    using k assms(3) put_snoc [of "take k bs" m d "bs ! k"]
    by (simp add: store_mapped take_Suc_conv_app_nth)
  have "(of_nat k :: u64) < of_nat (length bs)"
    using k assms(3) by (simp add: of_nat_less_64)
  then show ?case
    using Suc.hyps(1) [of "Suc k"] Suc.hyps(2) k ld st
    by (subst copy_forward.simps) (simp add: add.commute)
qed

lemma copy_forward_put [loop_specs]:
  assumes "bytes_at m s bs" "mapped m d (length bs)" "length bs < 2 ^ 64"
    and "\<And>i j. i < length bs \<Longrightarrow> j < i \<Longrightarrow> s + of_nat i \<noteq> d + of_nat j"
  shows "copy_forward m d s (of_nat (length bs)) 0 = Some (put m d bs)"
  using copy_forward_take [OF assms, of 0] by simp

lemma copy_backward_drop:
  assumes "bytes_at m s bs" "mapped m d (length bs)" "length bs < 2 ^ 64"
    and fresh: "\<And>i j. j < length bs \<Longrightarrow> i < j \<Longrightarrow> s + of_nat i \<noteq> d + of_nat j"
    and "k \<le> length bs"
  shows "copy_backward (put m (d + of_nat k) (drop k bs)) d s (of_nat k) = Some (put m d bs)"
  using \<open>k \<le> length bs\<close>
proof (induction k)
  case 0
  then show ?case by (subst copy_backward.simps) simp
next
  case (Suc k)
  then have k: "k < length bs" by simp
  let ?m = "put m (d + of_nat (Suc k)) (drop (Suc k) bs)"
  have "s + of_nat k \<noteq> d + of_nat (Suc k + i)" if "i < length bs - Suc k" for i
    using fresh [of "Suc k + i" k] that by simp
  then have "s + of_nat k \<notin> span (d + of_nat (Suc k)) (length (drop (Suc k) bs))"
    using assms(3) by (auto simp: in_span_iff add.assoc)
  then have ld: "load ?m (s + of_nat k) = Some (bs ! k)"
    using assms(1) k by (simp add: load_def put_out bytes_at_def del: of_nat_Suc)
  have "?m (d + of_nat k) \<noteq> None"
    using mapped_put [OF assms(2)] k by (auto simp: mapped_def)
  moreover have "put m (d + of_nat k) (drop k bs)
      = (put m (d + of_nat k + 1) (drop (Suc k) bs))(d + of_nat k \<mapsto> bs ! k)"
    using k assms(3) put_Cons_eq [of "drop (Suc k) bs" m "d + of_nat k" "bs ! k"]
    by (simp add: Cons_nth_drop_Suc)
  ultimately have st: "store ?m (d + of_nat k) (bs ! k) = Some (put m (d + of_nat k) (drop k bs))"
    by (simp add: store_mapped ac_simps)
  have "(of_nat (Suc k) :: u64) > 0"
    using k assms(3) of_nat_eq_0_64 [of "Suc k"] by (simp add: word_greater_zero_iff)
  moreover have "(of_nat (Suc k) :: u64) - 1 = of_nat k" by simp
  ultimately show ?case
    using Suc k ld st by (subst copy_backward.simps) (simp del: of_nat_Suc)
qed

lemma copy_backward_put [loop_specs]:
  assumes "bytes_at m s bs" "mapped m d (length bs)" "length bs < 2 ^ 64"
    and "\<And>i j. j < length bs \<Longrightarrow> i < j \<Longrightarrow> s + of_nat i \<noteq> d + of_nat j"
  shows "copy_backward m d s (of_nat (length bs)) = Some (put m d bs)"
  using copy_backward_drop [OF assms, of "length bs"] by simp


subsection \<open>The fill and compare loops\<close>

lemma memset_loop_take:
  assumes "mapped m d n" "n < 2 ^ 64" "k \<le> n"
  shows "memset_loop (put m d (replicate k c)) d c (of_nat n) (of_nat k)
    = Some (put m d (replicate n c))"
  using \<open>k \<le> n\<close>
proof (induction "n - k" arbitrary: k)
  case 0
  then show ?case by (subst memset_loop.simps) simp
next
  case (Suc l)
  then have k: "k < n" by simp
  let ?m = "put m d (replicate k c)"
  have "?m (d + of_nat k) \<noteq> None"
    using mapped_put [OF assms(1)] k by (auto simp: mapped_def)
  then have "store ?m (d + of_nat k) c = Some (put m d (replicate (Suc k) c))"
    using k assms(2) put_snoc [of "replicate k c" m d c]
    by (simp add: store_mapped replicate_append_same)
  moreover have "(of_nat k :: u64) < of_nat n"
    using k assms(2) by (simp add: of_nat_less_64)
  ultimately show ?case
    using Suc.hyps(1) [of "Suc k"] Suc.hyps(2) k
    by (subst memset_loop.simps) (simp add: add.commute)
qed

lemma memset_loop_put [loop_specs]:
  "mapped m d n \<Longrightarrow> n < 2 ^ 64 \<Longrightarrow> memset_loop m d c (of_nat n) 0 = Some (put m d (replicate n c))"
  using memset_loop_take [of m d n 0 c] by simp

text \<open>The reference for comparison: the difference of the first two bytes that differ.\<close>

fun byte_diff :: "u8 list \<Rightarrow> u8 list \<Rightarrow> c_int" where
  "byte_diff (a # as) (b # bs) = (if a \<noteq> b then ucast a - ucast b else byte_diff as bs)"
| "byte_diff _ _ = 0"

lemma byte_diff_sign:
  "length xs = length ys \<Longrightarrow>
   (sint (byte_diff xs ys) < 0 \<longleftrightarrow> xs < ys) \<and> (byte_diff xs ys = 0 \<longleftrightarrow> xs = ys)
   \<and> (sint (byte_diff xs ys) > 0 \<longleftrightarrow> ys < xs)"
  by (induction xs ys rule: byte_diff.induct) (auto simp: word_less_def word_uint_eq_iff [where 'a = 8])

lemma byte_diff_same [simp]: "byte_diff xs xs = 0"
  using byte_diff_sign [of xs xs] by simp

lemma memcmp_loop_drop:
  assumes "bytes_at m l xs" "bytes_at m r ys" "length xs = n" "length ys = n" "n < 2 ^ 64"
    and "k \<le> n"
  shows "memcmp_loop m l r (of_nat n) (of_nat k) = Some (byte_diff (drop k xs) (drop k ys))"
  using \<open>k \<le> n\<close>
proof (induction "n - k" arbitrary: k)
  case 0
  then show ?case using assms by (subst memcmp_loop.simps) simp
next
  case (Suc j)
  then have k: "k < n" by simp
  have "load m (l + of_nat k) = Some (xs ! k)" "load m (r + of_nat k) = Some (ys ! k)"
    using assms k by (simp_all add: load_bytes_at)
  moreover have "drop k xs = xs ! k # drop (Suc k) xs" "drop k ys = ys ! k # drop (Suc k) ys"
    using assms k by (simp_all add: Cons_nth_drop_Suc)
  moreover have "(of_nat k :: u64) < of_nat n"
    using k assms(5) by (simp add: of_nat_less_64)
  ultimately show ?case
    using Suc.hyps(1) [of "Suc k"] Suc.hyps(2) k
    by (subst memcmp_loop.simps) (simp add: add.commute)
qed

lemma memcmp_byte_diff [loop_specs]:
  "bytes_at m l xs \<Longrightarrow> bytes_at m r ys \<Longrightarrow> length xs = unat n \<Longrightarrow> length ys = unat n \<Longrightarrow>
   memcmp m l r n = Some (byte_diff xs ys)"
  using memcmp_loop_drop [of m l xs r ys "unat n" 0] unat_lt_64 [of n]
  by (simp add: memcmp_def)


subsection \<open>Properties\<close>

text \<open>
  C9. \<open>memmove\<close> is correct for any two regions, overlapping or not: if \<open>n\<close> bytes are
  readable at \<open>src\<close> and writable at \<open>dest\<close> and neither region wraps around the address
  space, it returns \<open>dest\<close> and the memory in which \<open>dest\<close> holds the bytes that
  \<open>src\<close> held before the call, every other address unchanged.
\<close>

theorem memmove_correct:
  assumes "bytes_at m src bs" "mapped m dest (unat n)" "length bs = unat n"
    and "unat src + unat n \<le> 2 ^ 64" "unat dest + unat n \<le> 2 ^ 64"
  shows "memmove m dest src n = Some (dest, put m dest bs)"
proof -
  have n: "length bs < 2 ^ 64"
    using assms(3) unat_lt_64 [of n] by simp
  have eqD: "unat src + i = unat dest + j"
    if "src + of_nat i = dest + of_nat j" "i < length bs" "j < length bs" for i j
    using arg_cong [OF that(1), of unat] that(2,3) assms(3-5) by (simp add: unat_add_of_nat)
  consider "dest < src" | "dest > src" | "dest = src" by (rule linorder_cases)
  then show ?thesis
  proof cases
    case 1
    have "src + of_nat i \<noteq> dest + of_nat j" if "i < length bs" "j < i" for i j
      using eqD [of i j] that 1 by (auto simp: word_less_nat_alt)
    then have "copy_forward m dest src n 0 = Some (put m dest bs)"
      using copy_forward_put [of m src bs dest] assms n by simp
    with 1 show ?thesis by (simp add: memmove_def)
  next
    case 2
    have "src + of_nat i \<noteq> dest + of_nat j" if "j < length bs" "i < j" for i j
      using eqD [of i j] that 2 by (auto simp: word_less_nat_alt)
    then have "copy_backward m dest src n = Some (put m dest bs)"
      using copy_backward_put [of m src bs dest] assms n by simp
    moreover have "\<not> dest < src" using 2 by (rule order_less_not_sym)
    ultimately show ?thesis using 2 by (simp add: memmove_def)
  next
    case 3
    then show ?thesis using assms(1) by (simp add: memmove_def put_same)
  qed
qed


text \<open>A region shifted by two over itself, the overlap of the test suite.\<close>

lemma memmove_correct_witness:
  "memmove (mem_of 4096 [1, 2, 3, 4, 5, 0, 0]) 4098 4096 5
   = Some (4098, put (mem_of 4096 [1, 2, 3, 4, 5, 0, 0]) 4098 [1, 2, 3, 4, 5])"
proof (rule memmove_correct)
  show "bytes_at (mem_of 4096 [1, 2, 3, 4, 5, 0, 0]) 4096 [1, 2, 3, 4, 5]"
    by (simp add: mem_eval)
  show "mapped (mem_of 4096 [1, 2, 3, 4, 5, 0, 0]) 4098 (unat (5 :: size_t))"
    by (simp add: mem_eval)
qed simp_all

text \<open>
  \<open>memcpy\<close> on two regions that do not overlap returns \<open>dest\<close> and the memory in
  which \<open>dest\<close> holds the bytes of \<open>src\<close>: the result \<open>memmove\<close> would give.
\<close>

theorem memcpy_correct:
  assumes "bytes_at m src bs" "mapped m dest (unat n)" "length bs = unat n"
    and "disjoint_spans dest (unat n) src (unat n)"
  shows "memcpy m dest src n = Some (dest, put m dest bs)"
proof -
  have n: "length bs < 2 ^ 64"
    using assms(3) unat_lt_64 [of n] by simp
  have "src + of_nat i \<noteq> dest + of_nat j" if "i < length bs" "j < i" for i j
    using disjoint_spans_neq [OF assms(4), of j i] that assms(3) n by auto
  then have "copy_forward m dest src n 0 = Some (put m dest bs)"
    using copy_forward_put [of m src bs dest] assms n by simp
  then show ?thesis by (simp add: memcpy_def)
qed


lemma memcpy_correct_witness:
  "memcpy (mem_of 4096 [7, 8, 9, 0, 0, 0]) 4099 4096 3
   = Some (4099, put (mem_of 4096 [7, 8, 9, 0, 0, 0]) 4099 [7, 8, 9])"
proof (rule memcpy_correct)
  show "bytes_at (mem_of 4096 [7, 8, 9, 0, 0, 0]) 4096 [7, 8, 9]"
    by (simp add: mem_eval)
  show "mapped (mem_of 4096 [7, 8, 9, 0, 0, 0]) 4099 (unat (3 :: size_t))"
    by (simp add: mem_eval)
  show "disjoint_spans 4099 (unat (3 :: size_t)) 4096 (unat (3 :: size_t))"
    by (rule disjoint_spans_le) simp_all
qed simp

text \<open>
  \<open>memset\<close> writes the low byte of \<open>c\<close>, whatever the upper bits of the
  \<open>int\<close> are, to each of the \<open>n\<close> bytes at \<open>dest\<close>, changes no other address and
  returns \<open>dest\<close>.
\<close>

theorem memset_correct:
  assumes "mapped m dest (unat n)"
  shows "memset m dest c n = Some (dest, put m dest (replicate (unat n) (ucast c)))"
  using memset_loop_put [OF assms] unat_lt_64 [of n] by (simp add: memset_def)

lemma memset_correct_witness:
  "memset (mem_of 4096 [9, 9, 9]) 4096 0x1234 2
   = Some (4096, put (mem_of 4096 [9, 9, 9]) 4096 [0x34, 0x34])"
proof -
  have "mapped (mem_of 4096 [9, 9, 9]) 4096 (unat (2 :: size_t))"
    by (simp add: mem_eval)
  note * = memset_correct [OF this, of "0x1234"]
  have low: "(0x34 :: u8) = 0x1234" by simp
  show ?thesis unfolding low using * by (simp add: replicate_numeral_Cons)
qed

text \<open>
  \<open>memcmp\<close> compares lexicographically as unsigned bytes: on two readable regions of
  \<open>n\<close> bytes it returns an \<open>int\<close> that is negative, zero or positive exactly when the
  first byte sequence is smaller than, equal to or greater than the second.
\<close>

theorem memcmp_lexicographic:
  assumes "bytes_at m vl xs" "bytes_at m vr ys" "length xs = unat n" "length ys = unat n"
  shows "\<exists>c. memcmp m vl vr n = Some c \<and> (sint c < 0 \<longleftrightarrow> xs < ys) \<and> (c = 0 \<longleftrightarrow> xs = ys)
    \<and> (sint c > 0 \<longleftrightarrow> ys < xs)"
  using memcmp_byte_diff [OF assms] byte_diff_sign [of xs ys] assms by auto

lemma memcmp_lexicographic_witness:
  "\<exists>c. memcmp (mem_of 4096 [1, 0xff, 1, 2]) 4096 4098 2 = Some c \<and> sint c > 0"
proof -
  have "[1, 2] < [1, 0xff :: u8]" by (simp add: word_less_def)
  then show ?thesis
    using memcmp_lexicographic
      [of "mem_of 4096 [1, 0xff, 1, 2]" 4096 "[1, 0xff]" 4098 "[1, 2]" 2]
    by (auto simp: mem_eval)
qed

end
