(* ===== verification/Errno.thy ===== *)
theory Errno
  imports Prelude "HOL-Library.Char_ord"
begin

section \<open>Error numbers and messages\<close>

text \<open>
  The error numbers of \<open>mytilus-sys/src/errno_raw.rs\<close> and the message table of
  \<open>mytilus-errno/src/lib.rs\<close> with \<open>strerror_str\<close>. A message is the bytes of its C
  string without the NUL. The TLS slot behind \<open>__errno_location\<close> is the field
  \<open>errno\<close> of the state in theory \<open>Syscall\<close>.
\<close>

subsection \<open>Error numbers\<close>

named_theorems errno_defs

definition EPERM :: c_int where [errno_defs]: "EPERM = 1"
definition ENOENT :: c_int where [errno_defs]: "ENOENT = 2"
definition ESRCH :: c_int where [errno_defs]: "ESRCH = 3"
definition EINTR :: c_int where [errno_defs]: "EINTR = 4"
definition EIO :: c_int where [errno_defs]: "EIO = 5"
definition ENXIO :: c_int where [errno_defs]: "ENXIO = 6"
definition E2BIG :: c_int where [errno_defs]: "E2BIG = 7"
definition ENOEXEC :: c_int where [errno_defs]: "ENOEXEC = 8"
definition EBADF :: c_int where [errno_defs]: "EBADF = 9"
definition ECHILD :: c_int where [errno_defs]: "ECHILD = 10"
definition EAGAIN :: c_int where [errno_defs]: "EAGAIN = 11"
definition ENOMEM :: c_int where [errno_defs]: "ENOMEM = 12"
definition EACCES :: c_int where [errno_defs]: "EACCES = 13"
definition EFAULT :: c_int where [errno_defs]: "EFAULT = 14"
definition ENOTBLK :: c_int where [errno_defs]: "ENOTBLK = 15"
definition EBUSY :: c_int where [errno_defs]: "EBUSY = 16"
definition EEXIST :: c_int where [errno_defs]: "EEXIST = 17"
definition EXDEV :: c_int where [errno_defs]: "EXDEV = 18"
definition ENODEV :: c_int where [errno_defs]: "ENODEV = 19"
definition ENOTDIR :: c_int where [errno_defs]: "ENOTDIR = 20"
definition EISDIR :: c_int where [errno_defs]: "EISDIR = 21"
definition EINVAL :: c_int where [errno_defs]: "EINVAL = 22"
definition ENFILE :: c_int where [errno_defs]: "ENFILE = 23"
definition EMFILE :: c_int where [errno_defs]: "EMFILE = 24"
definition ENOTTY :: c_int where [errno_defs]: "ENOTTY = 25"
definition ETXTBSY :: c_int where [errno_defs]: "ETXTBSY = 26"
definition EFBIG :: c_int where [errno_defs]: "EFBIG = 27"
definition ENOSPC :: c_int where [errno_defs]: "ENOSPC = 28"
definition ESPIPE :: c_int where [errno_defs]: "ESPIPE = 29"
definition EROFS :: c_int where [errno_defs]: "EROFS = 30"
definition EMLINK :: c_int where [errno_defs]: "EMLINK = 31"
definition EPIPE :: c_int where [errno_defs]: "EPIPE = 32"
definition EDOM :: c_int where [errno_defs]: "EDOM = 33"
definition ERANGE :: c_int where [errno_defs]: "ERANGE = 34"
definition EDEADLK :: c_int where [errno_defs]: "EDEADLK = 35"
definition ENAMETOOLONG :: c_int where [errno_defs]: "ENAMETOOLONG = 36"
definition ENOLCK :: c_int where [errno_defs]: "ENOLCK = 37"
definition ENOSYS :: c_int where [errno_defs]: "ENOSYS = 38"
definition ENOTEMPTY :: c_int where [errno_defs]: "ENOTEMPTY = 39"
definition ELOOP :: c_int where [errno_defs]: "ELOOP = 40"
definition EWOULDBLOCK :: c_int where [errno_defs]: "EWOULDBLOCK = EAGAIN"
definition ENOMSG :: c_int where [errno_defs]: "ENOMSG = 42"
definition EIDRM :: c_int where [errno_defs]: "EIDRM = 43"
definition ECHRNG :: c_int where [errno_defs]: "ECHRNG = 44"
definition EL2NSYNC :: c_int where [errno_defs]: "EL2NSYNC = 45"
definition EL3HLT :: c_int where [errno_defs]: "EL3HLT = 46"
definition EL3RST :: c_int where [errno_defs]: "EL3RST = 47"
definition ELNRNG :: c_int where [errno_defs]: "ELNRNG = 48"
definition EUNATCH :: c_int where [errno_defs]: "EUNATCH = 49"
definition ENOCSI :: c_int where [errno_defs]: "ENOCSI = 50"
definition EL2HLT :: c_int where [errno_defs]: "EL2HLT = 51"
definition EBADE :: c_int where [errno_defs]: "EBADE = 52"
definition EBADR :: c_int where [errno_defs]: "EBADR = 53"
definition EXFULL :: c_int where [errno_defs]: "EXFULL = 54"
definition ENOANO :: c_int where [errno_defs]: "ENOANO = 55"
definition EBADRQC :: c_int where [errno_defs]: "EBADRQC = 56"
definition EBADSLT :: c_int where [errno_defs]: "EBADSLT = 57"
definition EDEADLOCK :: c_int where [errno_defs]: "EDEADLOCK = EDEADLK"
definition EBFONT :: c_int where [errno_defs]: "EBFONT = 59"
definition ENOSTR :: c_int where [errno_defs]: "ENOSTR = 60"
definition ENODATA :: c_int where [errno_defs]: "ENODATA = 61"
definition ETIME :: c_int where [errno_defs]: "ETIME = 62"
definition ENOSR :: c_int where [errno_defs]: "ENOSR = 63"
definition ENONET :: c_int where [errno_defs]: "ENONET = 64"
definition ENOPKG :: c_int where [errno_defs]: "ENOPKG = 65"
definition EREMOTE :: c_int where [errno_defs]: "EREMOTE = 66"
definition ENOLINK :: c_int where [errno_defs]: "ENOLINK = 67"
definition EADV :: c_int where [errno_defs]: "EADV = 68"
definition ESRMNT :: c_int where [errno_defs]: "ESRMNT = 69"
definition ECOMM :: c_int where [errno_defs]: "ECOMM = 70"
definition EPROTO :: c_int where [errno_defs]: "EPROTO = 71"
definition EMULTIHOP :: c_int where [errno_defs]: "EMULTIHOP = 72"
definition EDOTDOT :: c_int where [errno_defs]: "EDOTDOT = 73"
definition EBADMSG :: c_int where [errno_defs]: "EBADMSG = 74"
definition EOVERFLOW :: c_int where [errno_defs]: "EOVERFLOW = 75"
definition ENOTUNIQ :: c_int where [errno_defs]: "ENOTUNIQ = 76"
definition EBADFD :: c_int where [errno_defs]: "EBADFD = 77"
definition EREMCHG :: c_int where [errno_defs]: "EREMCHG = 78"
definition ELIBACC :: c_int where [errno_defs]: "ELIBACC = 79"
definition ELIBBAD :: c_int where [errno_defs]: "ELIBBAD = 80"
definition ELIBSCN :: c_int where [errno_defs]: "ELIBSCN = 81"
definition ELIBMAX :: c_int where [errno_defs]: "ELIBMAX = 82"
definition ELIBEXEC :: c_int where [errno_defs]: "ELIBEXEC = 83"
definition EILSEQ :: c_int where [errno_defs]: "EILSEQ = 84"
definition ERESTART :: c_int where [errno_defs]: "ERESTART = 85"
definition ESTRPIPE :: c_int where [errno_defs]: "ESTRPIPE = 86"
definition EUSERS :: c_int where [errno_defs]: "EUSERS = 87"
definition ENOTSOCK :: c_int where [errno_defs]: "ENOTSOCK = 88"
definition EDESTADDRREQ :: c_int where [errno_defs]: "EDESTADDRREQ = 89"
definition EMSGSIZE :: c_int where [errno_defs]: "EMSGSIZE = 90"
definition EPROTOTYPE :: c_int where [errno_defs]: "EPROTOTYPE = 91"
definition ENOPROTOOPT :: c_int where [errno_defs]: "ENOPROTOOPT = 92"
definition EPROTONOSUPPORT :: c_int where [errno_defs]: "EPROTONOSUPPORT = 93"
definition ESOCKTNOSUPPORT :: c_int where [errno_defs]: "ESOCKTNOSUPPORT = 94"
definition EOPNOTSUPP :: c_int where [errno_defs]: "EOPNOTSUPP = 95"
definition ENOTSUP :: c_int where [errno_defs]: "ENOTSUP = EOPNOTSUPP"
definition EPFNOSUPPORT :: c_int where [errno_defs]: "EPFNOSUPPORT = 96"
definition EAFNOSUPPORT :: c_int where [errno_defs]: "EAFNOSUPPORT = 97"
definition EADDRINUSE :: c_int where [errno_defs]: "EADDRINUSE = 98"
definition EADDRNOTAVAIL :: c_int where [errno_defs]: "EADDRNOTAVAIL = 99"
definition ENETDOWN :: c_int where [errno_defs]: "ENETDOWN = 100"
definition ENETUNREACH :: c_int where [errno_defs]: "ENETUNREACH = 101"
definition ENETRESET :: c_int where [errno_defs]: "ENETRESET = 102"
definition ECONNABORTED :: c_int where [errno_defs]: "ECONNABORTED = 103"
definition ECONNRESET :: c_int where [errno_defs]: "ECONNRESET = 104"
definition ENOBUFS :: c_int where [errno_defs]: "ENOBUFS = 105"
definition EISCONN :: c_int where [errno_defs]: "EISCONN = 106"
definition ENOTCONN :: c_int where [errno_defs]: "ENOTCONN = 107"
definition ESHUTDOWN :: c_int where [errno_defs]: "ESHUTDOWN = 108"
definition ETOOMANYREFS :: c_int where [errno_defs]: "ETOOMANYREFS = 109"
definition ETIMEDOUT :: c_int where [errno_defs]: "ETIMEDOUT = 110"
definition ECONNREFUSED :: c_int where [errno_defs]: "ECONNREFUSED = 111"
definition EHOSTDOWN :: c_int where [errno_defs]: "EHOSTDOWN = 112"
definition EHOSTUNREACH :: c_int where [errno_defs]: "EHOSTUNREACH = 113"
definition EALREADY :: c_int where [errno_defs]: "EALREADY = 114"
definition EINPROGRESS :: c_int where [errno_defs]: "EINPROGRESS = 115"
definition ESTALE :: c_int where [errno_defs]: "ESTALE = 116"
definition EUCLEAN :: c_int where [errno_defs]: "EUCLEAN = 117"
definition ENOTNAM :: c_int where [errno_defs]: "ENOTNAM = 118"
definition ENAVAIL :: c_int where [errno_defs]: "ENAVAIL = 119"
definition EISNAM :: c_int where [errno_defs]: "EISNAM = 120"
definition EREMOTEIO :: c_int where [errno_defs]: "EREMOTEIO = 121"
definition EDQUOT :: c_int where [errno_defs]: "EDQUOT = 122"
definition ENOMEDIUM :: c_int where [errno_defs]: "ENOMEDIUM = 123"
definition EMEDIUMTYPE :: c_int where [errno_defs]: "EMEDIUMTYPE = 124"
definition ECANCELED :: c_int where [errno_defs]: "ECANCELED = 125"
definition ENOKEY :: c_int where [errno_defs]: "ENOKEY = 126"
definition EKEYEXPIRED :: c_int where [errno_defs]: "EKEYEXPIRED = 127"
definition EKEYREVOKED :: c_int where [errno_defs]: "EKEYREVOKED = 128"
definition EKEYREJECTED :: c_int where [errno_defs]: "EKEYREJECTED = 129"
definition EOWNERDEAD :: c_int where [errno_defs]: "EOWNERDEAD = 130"
definition ENOTRECOVERABLE :: c_int where [errno_defs]: "ENOTRECOVERABLE = 131"
definition ERFKILL :: c_int where [errno_defs]: "ERFKILL = 132"
definition EHWPOISON :: c_int where [errno_defs]: "EHWPOISON = 133"


subsection \<open>Messages\<close>

definition bytes_of :: "string \<Rightarrow> u8 list" where
  "bytes_of s = map of_char s"

definition UNK :: "u8 list" where
  "UNK = bytes_of ''No error information''"

text \<open>The assignments \<open>m[e::E as usize] = c"..."\<close> of the table's initialiser, in order.\<close>

definition message_assignments :: "(c_int \<times> string) list" where
  "message_assignments = [
     (EILSEQ, ''Illegal byte sequence''),
     (EDOM, ''Domain error''),
     (ERANGE, ''Result not representable''),
     (ENOTTY, ''Not a tty''),
     (EACCES, ''Permission denied''),
     (EPERM, ''Operation not permitted''),
     (ENOENT, ''No such file or directory''),
     (ESRCH, ''No such process''),
     (EEXIST, ''File exists''),
     (EOVERFLOW, ''Value too large for data type''),
     (ENOSPC, ''No space left on device''),
     (ENOMEM, ''Out of memory''),
     (EBUSY, ''Resource busy''),
     (EINTR, ''Interrupted system call''),
     (EAGAIN, ''Resource temporarily unavailable''),
     (ESPIPE, ''Invalid seek''),
     (EXDEV, ''Cross-device link''),
     (EROFS, ''Read-only file system''),
     (ENOTEMPTY, ''Directory not empty''),
     (ECONNRESET, ''Connection reset by peer''),
     (ETIMEDOUT, ''Operation timed out''),
     (ECONNREFUSED, ''Connection refused''),
     (EHOSTDOWN, ''Host is down''),
     (EHOSTUNREACH, ''Host is unreachable''),
     (EADDRINUSE, ''Address in use''),
     (EPIPE, ''Broken pipe''),
     (EIO, ''I/O error''),
     (ENXIO, ''No such device or address''),
     (ENOTBLK, ''Block device required''),
     (ENODEV, ''No such device''),
     (ENOTDIR, ''Not a directory''),
     (EISDIR, ''Is a directory''),
     (ETXTBSY, ''Text file busy''),
     (ENOEXEC, ''Exec format error''),
     (EINVAL, ''Invalid argument''),
     (E2BIG, ''Argument list too long''),
     (ELOOP, ''Symbolic link loop''),
     (ENAMETOOLONG, ''Filename too long''),
     (ENFILE, ''Too many open files in system''),
     (EMFILE, ''No file descriptors available''),
     (EBADF, ''Bad file descriptor''),
     (ECHILD, ''No child process''),
     (EFAULT, ''Bad address''),
     (EFBIG, ''File too large''),
     (EMLINK, ''Too many links''),
     (ENOLCK, ''No locks available''),
     (EDEADLK, ''Resource deadlock would occur''),
     (ENOTRECOVERABLE, ''State not recoverable''),
     (EOWNERDEAD, ''Previous owner died''),
     (ECANCELED, ''Operation canceled''),
     (ENOSYS, ''Function not implemented''),
     (ENOMSG, ''No message of desired type''),
     (EIDRM, ''Identifier removed''),
     (ENOSTR, ''Device not a stream''),
     (ENODATA, ''No data available''),
     (ETIME, ''Device timeout''),
     (ENOSR, ''Out of streams resources''),
     (ENOLINK, ''Link has been severed''),
     (EPROTO, ''Protocol error''),
     (EBADMSG, ''Bad message''),
     (EBADFD, ''File descriptor in bad state''),
     (ENOTSOCK, ''Not a socket''),
     (EDESTADDRREQ, ''Destination address required''),
     (EMSGSIZE, ''Message too large''),
     (EPROTOTYPE, ''Protocol wrong type for socket''),
     (ENOPROTOOPT, ''Protocol not available''),
     (EPROTONOSUPPORT, ''Protocol not supported''),
     (ESOCKTNOSUPPORT, ''Socket type not supported''),
     (ENOTSUP, ''Not supported''),
     (EPFNOSUPPORT, ''Protocol family not supported''),
     (EAFNOSUPPORT, ''Address family not supported by protocol''),
     (EADDRNOTAVAIL, ''Address not available''),
     (ENETDOWN, ''Network is down''),
     (ENETUNREACH, ''Network unreachable''),
     (ENETRESET, ''Connection reset by network''),
     (ECONNABORTED, ''Connection aborted''),
     (ENOBUFS, ''No buffer space available''),
     (EISCONN, ''Socket is connected''),
     (ENOTCONN, ''Socket not connected''),
     (ESHUTDOWN, ''Cannot send after socket shutdown''),
     (EALREADY, ''Operation already in progress''),
     (EINPROGRESS, ''Operation in progress''),
     (ESTALE, ''Stale file handle''),
     (EUCLEAN, ''Data consistency error''),
     (ENAVAIL, ''Resource not available''),
     (EREMOTEIO, ''Remote I/O error''),
     (EDQUOT, ''Quota exceeded''),
     (ENOMEDIUM, ''No medium found''),
     (EMEDIUMTYPE, ''Wrong medium type''),
     (EMULTIHOP, ''Multihop attempted''),
     (ENOKEY, ''Required key not available''),
     (EKEYEXPIRED, ''Key has expired''),
     (EKEYREVOKED, ''Key has been revoked''),
     (EKEYREJECTED, ''Key was rejected by service'')
   ]"

definition MESSAGES :: "u8 list list" where
  "MESSAGES = fold (\<lambda>(e, s) m. m[unat e := bytes_of s]) message_assignments (replicate 132 UNK)"

definition strerror_str :: "c_int \<Rightarrow> u8 list" where
  "strerror_str err =
     (let idx = if err <s 0 \<or> unat (scast err :: u64) \<ge> length MESSAGES then 0
                else unat (scast err :: u64)
      in MESSAGES ! idx)"

text \<open>
  The C entry points return the address of the static message: here its bytes. None of them
  uses the locale.
\<close>

definition strerror_l_internal :: "c_int \<Rightarrow> ptr \<Rightarrow> u8 list" where
  "strerror_l_internal err loc = strerror_str err"

definition strerror_l :: "c_int \<Rightarrow> ptr \<Rightarrow> u8 list" where
  "strerror_l err loc = strerror_l_internal err loc"

definition strerror :: "c_int \<Rightarrow> u8 list" where
  "strerror err = strerror_l_internal err null_ptr"


subsection \<open>The table as a lookup\<close>

text \<open>
  A table filled by assignments to distinct slots is a lookup in the list of assignments.
\<close>

lemma nth_fold_update:
  assumes "distinct (map fst xs)" "\<forall>i\<in>set (map fst xs). i < length ys" "j < length ys"
  shows "fold (\<lambda>(i, v) m. m[i := v]) xs ys ! j = (case map_of xs j of Some v \<Rightarrow> v | None \<Rightarrow> ys ! j)"
  using assms
proof (induction xs arbitrary: ys)
  case Nil
  then show ?case by simp
next
  case (Cons x xs)
  obtain i v where x: "x = (i, v)" by (cases x)
  have "map_of xs i = None"
    using Cons.prems(1) x by (simp add: map_of_eq_None_iff)
  then show ?case
    using Cons.prems x Cons.IH [of "ys[i := v]"] by (auto split: option.splits)
qed

lemma length_fold_update: "length (fold (\<lambda>(i, v) m. m[f i := g v]) xs ys) = length ys"
  by (induction xs arbitrary: ys) (auto split: prod.splits)

definition error_slots :: "nat list" where
  "error_slots = map (\<lambda>(e, _). unat e) message_assignments"

lemma error_slots_distinct: "distinct error_slots"
  by (simp add: error_slots_def message_assignments_def errno_defs)

lemma error_slots_bound: "\<forall>i\<in>set error_slots. 0 < i \<and> i < 132"
  by (simp add: error_slots_def message_assignments_def errno_defs)

lemma MESSAGES_fold:
  "MESSAGES = fold (\<lambda>(i, v) m. m[i := v])
     (map (\<lambda>(e, s). (unat e, bytes_of s)) message_assignments) (replicate 132 UNK)"
  by (simp add: MESSAGES_def fold_map comp_def case_prod_unfold)

lemma length_MESSAGES: "length MESSAGES = 132"
  by (simp add: MESSAGES_def length_fold_update)

lemma map_of_map_key:
  assumes "inj f"
  shows "map_of (map (\<lambda>(k, v). (f k, g v)) xs) (f k) = map_option g (map_of xs k)"
  using assms by (induction xs) (auto simp: inj_eq)

lemma inj_unat: "inj (unat :: i32 \<Rightarrow> nat)"
  by (rule injI) (simp add: word_unat_eq_iff)

lemma MESSAGES_nth:
  assumes "unat e < 132"
  shows "MESSAGES ! unat e
    = (case map_of message_assignments e of Some s \<Rightarrow> bytes_of s | None \<Rightarrow> UNK)"
proof -
  have fst: "map fst (map (\<lambda>(e, s). (unat e, bytes_of s)) message_assignments) = error_slots"
    by (simp add: error_slots_def case_prod_unfold comp_def)
  show ?thesis
    unfolding MESSAGES_fold
    using assms error_slots_distinct error_slots_bound
    by (subst nth_fold_update) (simp_all only: fst length_replicate nth_replicate map_of_map_key [OF inj_unat],
        auto simp: less_trans split: option.splits)
qed

lemma map_of_out:
  "unat e \<notin> set error_slots \<Longrightarrow> map_of message_assignments e = None"
  by (auto simp: error_slots_def map_of_eq_None_iff)

lemma strerror_str_lookup_raw:
  "strerror_str err = (case map_of message_assignments err of Some s \<Rightarrow> bytes_of s | None \<Rightarrow> UNK)"
proof (cases "0 \<le> sint err \<and> unat err < 132")
  case True
  then show ?thesis
    by (simp add: strerror_str_def length_MESSAGES unat_scast_nonneg word_sless_alt MESSAGES_nth)
next
  case False
  have "map_of message_assignments err = None"
  proof (rule map_of_out)
    have "132 \<le> unat err"
    proof (cases "0 \<le> sint err")
      case True
      with False show ?thesis by simp
    next
      case False
      then have "132 \<le> uint err" by (simp add: sint_nonneg_32)
      then show ?thesis unfolding unat_eq_nat_uint by linarith
    qed
    then show "unat err \<notin> set error_slots"
      using error_slots_bound by auto
  qed
  moreover have "map_of message_assignments 0 = None"
    using error_slots_bound by (intro map_of_out) auto
  moreover have "err <s 0 \<or> 132 \<le> unat (scast err :: u64)"
    using False by (cases "0 \<le> sint err") (simp_all add: word_sless_alt unat_scast_nonneg)
  moreover from this have "strerror_str err = MESSAGES ! unat (0 :: c_int)"
    unfolding strerror_str_def length_MESSAGES Let_def by (simp only: unsigned_0 if_P)
  moreover have "MESSAGES ! unat (0 :: c_int) = UNK"
    using calculation(2) by (subst MESSAGES_nth) simp_all
  ultimately show ?thesis by (simp only: option.case)
qed


lemma strerror_str_0: "strerror_str 0 = UNK"
  using map_of_out [of 0] error_slots_bound by (auto simp: strerror_str_lookup_raw)


subsection \<open>Messages as C strings\<close>

lemma of_char_eq_0: "(of_char c :: u8) = 0 \<longleftrightarrow> c = CHR 0x00"
proof
  assume c: "(of_char c :: u8) = 0"
  have "(of_nat (of_char c) :: u8) = 0" using c by (simp add: of_nat_of_char)
  then have "256 dvd (of_char c :: nat)" by (simp add: word_of_nat_eq_0_iff)
  then have "(of_char c :: nat) mod 256 = 0" by (simp only: dvd_eq_mod_eq_0)
  then have "(of_char c :: nat) = of_char (CHR 0x00)" by simp
  then show "c = CHR 0x00" by (rule of_char_eqI)
qed simp

lemma bytes_of_nul_free: "0 \<notin> set (bytes_of s) \<longleftrightarrow> CHR 0x00 \<notin> set s"
  by (auto simp: bytes_of_def of_char_eq_0 image_iff eq_commute [of 0])


lemma nul_free: "list_all (\<lambda>(e, s). list_all (\<lambda>c. c \<noteq> CHR 0x00) s \<and> length s < 64) message_assignments"
  by code_simp

text \<open>Every entry of the table is a C string that fits in 64 bytes with its NUL.\<close>

lemma strerror_str_bytes:
  obtains s where "strerror_str err = bytes_of s" and "CHR 0x00 \<notin> set s" and "length s < 64"
proof (cases "map_of message_assignments err")
  case None
  then show ?thesis using that [of "''No error information''"]
    by (simp add: strerror_str_lookup_raw UNK_def)
next
  case (Some s)
  then have "(err, s) \<in> set message_assignments" by (rule map_of_SomeD)
  then show ?thesis using that [of s] Some nul_free
    by (auto simp: strerror_str_lookup_raw list_all_iff)
qed

lemma strerror_str_nul_free: "0 \<notin> set (strerror_str err)"
  by (rule strerror_str_bytes [of err]) (simp add: bytes_of_nul_free)

lemma length_strerror_str: "length (strerror_str err) < 64"
  by (rule strerror_str_bytes [of err]) (simp add: bytes_of_def)


subsection \<open>Properties\<close>

lemma strerror_lookup_laws:
  "strerror err = (case map_of message_assignments err of Some s \<Rightarrow> bytes_of s | None \<Rightarrow> UNK)"
  "strerror_l err loc = strerror err"
  "0 \<notin> set (strerror err) \<and> length (strerror err) < 64"
  using strerror_str_nul_free [of err] length_strerror_str [of err]
  by (simp_all add: strerror_def strerror_l_def strerror_l_internal_def strerror_str_lookup_raw)

text \<open>
  \<open>strerror\<close> is a lookup in the table of messages for every \<open>int\<close>: the message
  assigned to the error number when there is one, and \<open>No error information\<close> for 0, for
  an unassigned slot, and for a negative or too large number. The message is a C string that
  fits in 64 bytes, and the locale variants return the same one.
\<close>

theorem strerror_lookup:
  "(strerror err = (case map_of message_assignments err of Some s \<Rightarrow> bytes_of s | None \<Rightarrow> UNK))
   \<and> (strerror_l err loc = strerror err)
   \<and> (0 \<notin> set (strerror err) \<and> length (strerror err) < 64)"
  by (intro conjI allI impI strerror_lookup_laws)

end
