(* ===== verification/Str_Fns.thy ===== *)
theory Str_Fns
  imports Mem_Ops Errno
begin

section \<open>String functions\<close>

text \<open>
  \<open>mytilus-string/src/str_fns.rs\<close>: length, search, comparison, copy and concatenation,
  and \<open>strerror_r\<close>. The loops are those of the source over the byte memory; a pointer
  result is the address, NULL is \<open>0\<close>.
\<close>

subsection \<open>Length\<close>

partial_function (option) strlen_loop :: "mem \<Rightarrow> ptr \<Rightarrow> size_t \<Rightarrow> size_t option" where
  "strlen_loop m s n = do {
     b \<leftarrow> load m (s + n);
     if b \<noteq> 0 then strlen_loop m s (n + 1) else Some n
   }"

definition strlen :: "mem \<Rightarrow> ptr \<Rightarrow> size_t option" where
  "strlen m s = strlen_loop m s 0"

partial_function (option) strnlen_loop ::
  "mem \<Rightarrow> ptr \<Rightarrow> size_t \<Rightarrow> size_t \<Rightarrow> size_t option" where
  "strnlen_loop m s n i =
     (if i < n then do {
        b \<leftarrow> load m (s + i);
        if b \<noteq> 0 then strnlen_loop m s n (i + 1) else Some i
      } else Some i)"

definition strnlen :: "mem \<Rightarrow> ptr \<Rightarrow> size_t \<Rightarrow> size_t option" where
  "strnlen m s n = strnlen_loop m s n 0"


subsection \<open>Search in memory\<close>

partial_function (option) memchr_loop ::
  "mem \<Rightarrow> ptr \<Rightarrow> u8 \<Rightarrow> size_t \<Rightarrow> size_t \<Rightarrow> ptr option" where
  "memchr_loop m s target n i =
     (if i < n then do {
        b \<leftarrow> load m (s + i);
        if b = target then Some (s + i) else memchr_loop m s target n (i + 1)
      } else Some null_ptr)"

definition memchr :: "mem \<Rightarrow> ptr \<Rightarrow> c_int \<Rightarrow> size_t \<Rightarrow> ptr option" where
  "memchr m src c n = memchr_loop m src (ucast c) n 0"

partial_function (option) memrchr_loop :: "mem \<Rightarrow> ptr \<Rightarrow> u8 \<Rightarrow> size_t \<Rightarrow> ptr option" where
  "memrchr_loop m s target i =
     (if i > 0 then do {
        b \<leftarrow> load m (s + (i - 1));
        if b = target then Some (s + (i - 1)) else memrchr_loop m s target (i - 1)
      } else Some null_ptr)"

definition memrchr_internal :: "mem \<Rightarrow> ptr \<Rightarrow> c_int \<Rightarrow> size_t \<Rightarrow> ptr option" where
  "memrchr_internal m src c n = memrchr_loop m src (ucast c) n"

definition memrchr :: "mem \<Rightarrow> ptr \<Rightarrow> c_int \<Rightarrow> size_t \<Rightarrow> ptr option" where
  "memrchr m src c n = memrchr_internal m src c n"


subsection \<open>Search in strings\<close>

partial_function (option) strchrnul_loop :: "mem \<Rightarrow> u8 \<Rightarrow> ptr \<Rightarrow> ptr option" where
  "strchrnul_loop m target p = do {
     b \<leftarrow> load m p;
     if b \<noteq> 0 \<and> b \<noteq> target then strchrnul_loop m target (p + 1) else Some p
   }"

definition strchrnul_internal :: "mem \<Rightarrow> ptr \<Rightarrow> c_int \<Rightarrow> ptr option" where
  "strchrnul_internal m s c =
     (let target = ucast c in
      if target = 0 then do { n \<leftarrow> strlen m s; Some (s + n) }
      else strchrnul_loop m target s)"

definition strchrnul :: "mem \<Rightarrow> ptr \<Rightarrow> c_int \<Rightarrow> ptr option" where
  "strchrnul m s c = strchrnul_internal m s c"

definition strchr :: "mem \<Rightarrow> ptr \<Rightarrow> c_int \<Rightarrow> ptr option" where
  "strchr m s c = do {
     r \<leftarrow> strchrnul_internal m s c;
     b \<leftarrow> load m r;
     Some (if b = ucast c then r else null_ptr)
   }"

definition strrchr :: "mem \<Rightarrow> ptr \<Rightarrow> c_int \<Rightarrow> ptr option" where
  "strrchr m s c = do {
     len \<leftarrow> strlen m s;
     memrchr_internal m s c (len + 1)
   }"


subsection \<open>Comparison\<close>

partial_function (option) strcmp_loop :: "mem \<Rightarrow> ptr \<Rightarrow> ptr \<Rightarrow> size_t \<Rightarrow> c_int option" where
  "strcmp_loop m l r i = do {
     a \<leftarrow> load m (l + i);
     b \<leftarrow> load m (r + i);
     if a \<noteq> b \<or> a = 0 then Some (ucast a - ucast b) else strcmp_loop m l r (i + 1)
   }"

definition strcmp :: "mem \<Rightarrow> ptr \<Rightarrow> ptr \<Rightarrow> c_int option" where
  "strcmp m l r = strcmp_loop m l r 0"

text \<open>
  The guard of the loop reads \<open>*l\<close>, then \<open>*r\<close>, as its conjuncts need them.
\<close>

partial_function (option) strncmp_loop :: "mem \<Rightarrow> ptr \<Rightarrow> ptr \<Rightarrow> size_t \<Rightarrow> c_int option" where
  "strncmp_loop m l r n = do {
     a \<leftarrow> load m l;
     b \<leftarrow> load m r;
     if a \<noteq> 0 \<and> b \<noteq> 0 \<and> n \<noteq> 0 \<and> a = b then strncmp_loop m (l + 1) (r + 1) (n - 1)
     else Some (ucast a - ucast b)
   }"

definition strncmp :: "mem \<Rightarrow> ptr \<Rightarrow> ptr \<Rightarrow> size_t \<Rightarrow> c_int option" where
  "strncmp m l r n = (if n = 0 then Some 0 else strncmp_loop m l r (n - 1))"


subsection \<open>Copy and concatenation\<close>

partial_function (option) stpcpy_internal :: "mem \<Rightarrow> ptr \<Rightarrow> ptr \<Rightarrow> (ptr \<times> mem) option" where
  "stpcpy_internal m d s = do {
     b \<leftarrow> load m s;
     m' \<leftarrow> store m d b;
     b' \<leftarrow> load m' s;
     if b' = 0 then Some (d, m') else stpcpy_internal m' (d + 1) (s + 1)
   }"

definition stpcpy :: "mem \<Rightarrow> ptr \<Rightarrow> ptr \<Rightarrow> (ptr \<times> mem) option" where
  "stpcpy m d s = stpcpy_internal m d s"

definition strcpy :: "mem \<Rightarrow> ptr \<Rightarrow> ptr \<Rightarrow> (ptr \<times> mem) option" where
  "strcpy m d s = do {
     (_, m') \<leftarrow> stpcpy_internal m d s;
     Some (d, m')
   }"

partial_function (option) stpncpy_loop ::
  "mem \<Rightarrow> ptr \<Rightarrow> ptr \<Rightarrow> size_t \<Rightarrow> (ptr \<times> size_t \<times> mem) option" where
  "stpncpy_loop m d s n =
     (if n > 0 then do {
        b \<leftarrow> load m s;
        m' \<leftarrow> store m d b;
        b' \<leftarrow> load m' s;
        if b' = 0 then Some (d, n, m') else stpncpy_loop m' (d + 1) (s + 1) (n - 1)
      } else Some (d, n, m))"

text \<open>The zero fill is the loop of \<open>memset\<close> with byte 0, inlined in the source.\<close>

definition stpncpy_internal :: "mem \<Rightarrow> ptr \<Rightarrow> ptr \<Rightarrow> size_t \<Rightarrow> (ptr \<times> mem) option" where
  "stpncpy_internal m d s n = do {
     (d', n', m') \<leftarrow> stpncpy_loop m d s n;
     m'' \<leftarrow> memset_loop m' d' 0 n' 0;
     Some (d', m'')
   }"

definition stpncpy :: "mem \<Rightarrow> ptr \<Rightarrow> ptr \<Rightarrow> size_t \<Rightarrow> (ptr \<times> mem) option" where
  "stpncpy m d s n = stpncpy_internal m d s n"

definition strncpy :: "mem \<Rightarrow> ptr \<Rightarrow> ptr \<Rightarrow> size_t \<Rightarrow> (ptr \<times> mem) option" where
  "strncpy m d s n = do {
     (_, m') \<leftarrow> stpncpy_internal m d s n;
     Some (d, m')
   }"

definition strcat :: "mem \<Rightarrow> ptr \<Rightarrow> ptr \<Rightarrow> (ptr \<times> mem) option" where
  "strcat m dest src = do {
     len \<leftarrow> strlen m dest;
     (_, m') \<leftarrow> strcpy m (dest + len) src;
     Some (dest, m')
   }"


subsection \<open>strerror_r\<close>

text \<open>
  The copy loop reads the message as a slice: \<open>bytes[i]\<close> panics out of range, here
  \<open>None\<close>.
\<close>

partial_function (option) copy_slice ::
  "mem \<Rightarrow> ptr \<Rightarrow> u8 list \<Rightarrow> size_t \<Rightarrow> size_t \<Rightarrow> mem option" where
  "copy_slice m buf bytes n i =
     (if i < n then do {
        b \<leftarrow> (if unat i < length bytes then Some (bytes ! unat i) else None);
        m' \<leftarrow> store m (buf + i) b;
        copy_slice m' buf bytes n (i + 1)
      } else Some m)"

definition strerror_r :: "mem \<Rightarrow> c_int \<Rightarrow> ptr \<Rightarrow> size_t \<Rightarrow> (c_int \<times> mem) option" where
  "strerror_r m err buf buflen =
     (let bytes = strerror_str err; l = of_nat (length bytes) in
      if l \<ge> buflen then
        (if buflen > 0 then do {
           m' \<leftarrow> copy_slice m buf bytes (buflen - 1) 0;
           m'' \<leftarrow> store m' (buf + (buflen - 1)) 0;
           Some (ERANGE, m'')
         } else Some (ERANGE, m))
      else do {
        m' \<leftarrow> copy_slice m buf bytes l 0;
        m'' \<leftarrow> store m' (buf + l) 0;
        Some (0, m'')
      })"

definition xpg_strerror_r :: "mem \<Rightarrow> c_int \<Rightarrow> ptr \<Rightarrow> size_t \<Rightarrow> (c_int \<times> mem) option" where
  "xpg_strerror_r m err buf buflen = strerror_r m err buf buflen"


subsection \<open>Closed forms of the loops\<close>

lemma strlen_loop_cstr:
  "cstr m (s + n) bs \<Longrightarrow> strlen_loop m s n = Some (n + of_nat (length bs))"
proof (induction bs arbitrary: n)
  case Nil
  then show ?case by (subst strlen_loop.simps) (simp add: load_def)
next
  case (Cons b bs)
  then show ?case using Cons.IH [of "n + 1"]
    by (subst strlen_loop.simps) (simp add: load_def cstr_Cons ac_simps)
qed

lemma strlen_cstr [loop_specs]: "cstr m s bs \<Longrightarrow> strlen m s = Some (of_nat (length bs))"
  using strlen_loop_cstr [of m s 0 bs] by (simp add: strlen_def)

text \<open>The counting loops run \<open>i\<close> up to \<open>n\<close>, which is \<open>k\<close> steps away.\<close>

lemma count_up:
  fixes i n :: size_t
  assumes "unat n = unat i + Suc k"
  shows "i < n" and "unat n = unat (i + 1) + k"
proof -
  show "i < n" using assms by (simp add: word_less_nat_alt)
  have "unat (i + 1) = unat i + 1"
    using assms unat_lt_64 [of n] unat_add_of_nat [of i 1] by simp
  with assms show "unat n = unat (i + 1) + k" by simp
qed

lemma count_done: "unat n = unat (i :: size_t) + 0 \<Longrightarrow> \<not> i < n"
  by (simp add: word_less_nat_alt)

lemma strnlen_loop_nstr:
  "nstr m (s + i) k bs \<Longrightarrow> unat n = unat i + k \<Longrightarrow>
   strnlen_loop m s n i = Some (i + of_nat (length bs))"
proof (induction k arbitrary: i bs)
  case 0
  then show ?case using count_done [of n i] by (subst strnlen_loop.simps) simp
next
  case (Suc k)
  note up = count_up [OF Suc.prems(2)]
  show ?case
  proof (cases bs)
    case Nil
    with Suc.prems up show ?thesis
      by (subst strnlen_loop.simps) (simp add: load_def until_Suc_Nil)
  next
    case (Cons b bs')
    with Suc.prems up Suc.IH [of "i + 1" bs'] show ?thesis
      by (subst strnlen_loop.simps) (simp add: load_def until_Suc_Cons ac_simps)
  qed
qed

lemma memchr_loop_until:
  "until t m (s + i) k bs \<Longrightarrow> unat n = unat i + k \<Longrightarrow>
   memchr_loop m s t n i = Some (if length bs < k then s + i + of_nat (length bs) else 0)"
proof (induction k arbitrary: i bs)
  case 0
  then show ?case using count_done [of n i] by (subst memchr_loop.simps) simp
next
  case (Suc k)
  note up = count_up [OF Suc.prems(2)]
  show ?case
  proof (cases bs)
    case Nil
    with Suc.prems up show ?thesis
      by (subst memchr_loop.simps) (simp add: load_def until_Suc_Nil)
  next
    case (Cons b bs')
    with Suc.prems up Suc.IH [of "i + 1" bs'] show ?thesis
      by (subst memchr_loop.simps) (simp add: load_def until_Suc_Cons ac_simps)
  qed
qed

text \<open>The last index at which a list holds \<open>t\<close>.\<close>

definition last_index :: "'a \<Rightarrow> 'a list \<Rightarrow> nat option" where
  "last_index t xs = find (\<lambda>i. xs ! i = t) (rev [0..<length xs])"

lemma last_index_snoc:
  "last_index t (xs @ [x]) = (if x = t then Some (length xs) else last_index t xs)"
proof -
  have "find (\<lambda>i. (xs @ [x]) ! i = t) (rev [0..<length xs])
      = find (\<lambda>i. xs ! i = t) (rev [0..<length xs])"
    by (rule find_cong) (simp_all add: nth_append)
  then show ?thesis by (simp add: last_index_def nth_append)
qed

lemma last_index_None: "last_index t xs = None \<longleftrightarrow> t \<notin> set xs"
proof (induction xs rule: rev_induct)
  case Nil
  then show ?case by (simp add: last_index_def)
next
  case (snoc x xs)
  then show ?case by (auto simp: last_index_snoc)
qed

lemma last_index_append:
  "t \<notin> set ys \<Longrightarrow> last_index t (xs @ t # ys) = Some (length xs)"
  by (induction ys rule: rev_induct)
     (auto simp: last_index_snoc simp flip: append_Cons append_assoc)

lemma memrchr_loop_rev:
  "bytes_at m s bs \<Longrightarrow> length bs < 2 ^ 64 \<Longrightarrow>
   memrchr_loop m s t (of_nat (length bs))
     = Some (case last_index t bs of Some i \<Rightarrow> s + of_nat i | None \<Rightarrow> 0)"
proof (induction bs rule: rev_induct)
  case Nil
  then show ?case by (subst memrchr_loop.simps) (simp add: last_index_def)
next
  case (snoc b bs)
  have pos: "(0 :: size_t) < of_nat (length (bs @ [b]))"
    using snoc.prems(2) of_nat_eq_0_64 [of "length (bs @ [b])"] by (simp add: word_greater_zero_iff)
  moreover have "(of_nat (length (bs @ [b])) :: size_t) - 1 = of_nat (length bs)" by simp
  moreover have "length bs < 2 ^ 64" using snoc.prems(2) by simp
  moreover note snoc.IH snoc.prems(1)
  ultimately show ?case
    by (subst memrchr_loop.simps)
      (simp only: bytes_at_append bytes_at_Cons load_def last_index_snoc bind_simps if_True
        option.case split: if_split, simp)
qed

lemma strchrnul_loop_cstr:
  "cstr m s bs \<Longrightarrow>
   strchrnul_loop m t s = Some (s + of_nat (length (takeWhile (\<lambda>b. b \<noteq> t) bs)))"
proof (induction bs arbitrary: s)
  case Nil
  then show ?case by (subst strchrnul_loop.simps) (simp add: load_def)
next
  case (Cons b bs)
  then show ?case using Cons.IH [of "s + 1"]
    by (subst strchrnul_loop.simps) (auto simp: load_def cstr_Cons ac_simps)
qed

lemma strchrnul_internal_cstr [loop_specs]:
  assumes "cstr m s bs"
  shows "strchrnul_internal m s c
    = Some (s + of_nat (length (takeWhile (\<lambda>b. b \<noteq> ucast c) bs)))"
proof (cases "(ucast c :: u8) = 0")
  case True
  then have "takeWhile (\<lambda>b. b \<noteq> ucast c) bs = bs"
    using cstr_nul_free [OF assms] by (auto simp: takeWhile_eq_all_conv)
  with strlen_cstr [OF assms] True show ?thesis
    by (simp only: strchrnul_internal_def Let_def if_True bind_simps) simp
next
  case False
  then show ?thesis using strchrnul_loop_cstr [OF assms] by (simp add: strchrnul_internal_def)
qed


subsection \<open>Closed forms of comparison\<close>

lemma strcmp_loop_cstr:
  "cstr m (l + i) xs \<Longrightarrow> cstr m (r + i) ys \<Longrightarrow>
   strcmp_loop m l r i = Some (byte_diff (xs @ [0]) (ys @ [0]))"
proof (induction xs arbitrary: i ys)
  case Nil
  then show ?case by (cases ys) (subst strcmp_loop.simps, auto simp: load_def cstr_Cons)+
next
  case (Cons x xs)
  then show ?case using Cons.IH [of "i + 1" "tl ys"]
    by (cases ys) (subst strcmp_loop.simps, auto simp: load_def cstr_Cons ac_simps)+
qed

lemma strcmp_cstr [loop_specs]:
  "cstr m l xs \<Longrightarrow> cstr m r ys \<Longrightarrow> strcmp m l r = Some (byte_diff (xs @ [0]) (ys @ [0]))"
  using strcmp_loop_cstr [of m l 0 xs r ys] by (simp add: strcmp_def)

text \<open>The counting-down loops: one step from \<open>Suc k\<close> to \<open>k\<close>.\<close>

lemma count_down:
  fixes n :: size_t
  assumes "unat n = Suc k"
  shows "n \<noteq> 0" and "0 < n" and "unat (n - 1) = k"
proof -
  show "n \<noteq> 0" using assms by auto
  then show "0 < n" by (simp add: word_greater_zero_iff)
  show "unat (n - 1) = k" using assms \<open>n \<noteq> 0\<close> by (simp add: unat_minus_one)
qed

lemma strncmp_loop_nstr:
  "nstr m l (Suc k) xs \<Longrightarrow> nstr m r (Suc k) ys \<Longrightarrow> unat n = k \<Longrightarrow>
   strncmp_loop m l r n = Some (byte_diff (xs @ [0]) (ys @ [0]))"
proof (induction k arbitrary: l r n xs ys)
  case 0
  then show ?case
    by (cases xs; cases ys; subst strncmp_loop.simps)
       (auto simp: load_def until_Suc_Nil until_Suc_Cons unat_eq_0)
next
  case (Suc k)
  note down = count_down [OF Suc.prems(3)]
  from Suc.prems(1,2) down Suc.IH [of "l + 1" "tl xs" "r + 1" "tl ys" "n - 1"] show ?case
    by (cases xs; cases ys; subst strncmp_loop.simps)
       (auto simp: load_def until_Suc_Nil until_Suc_Cons)
qed

lemma strncmp_nstr [loop_specs]:
  assumes "nstr m l (unat n) xs" "nstr m r (unat n) ys"
  shows "strncmp m l r n = Some (byte_diff (xs @ [0]) (ys @ [0]))"
proof (cases "unat n")
  case 0
  then show ?thesis using assms by (simp add: strncmp_def unat_eq_0)
next
  case (Suc k)
  then show ?thesis using assms strncmp_loop_nstr [of m l k xs r ys "n - 1"]
    by (simp add: strncmp_def count_down)
qed

text \<open>
  On NUL-free strings the difference at the first distinct byte, the NUL included, has the
  sign of the lexicographic order.
\<close>

lemma string_diff_sign:
  assumes "0 \<notin> set xs" "0 \<notin> set ys"
  shows "(sint (byte_diff (xs @ [0]) (ys @ [0])) < 0 \<longleftrightarrow> xs < ys)
    \<and> (byte_diff (xs @ [0]) (ys @ [0]) = 0 \<longleftrightarrow> xs = ys)
    \<and> (sint (byte_diff (xs @ [0]) (ys @ [0])) > 0 \<longleftrightarrow> ys < xs)"
  using assms
proof (induction xs ys rule: list_induct2')
  case (2 x xs)
  then have "uint x > 0" by (auto simp: less_le uint_0_iff)
  with 2 show ?case by auto
next
  case (3 y ys)
  then have "uint y > 0" by (auto simp: less_le uint_0_iff)
  with 3 show ?case by auto
next
  case (4 x xs y ys)
  then show ?case by (auto simp: word_less_def word_uint_eq_iff [where 'a = 8])
qed simp


subsection \<open>Closed forms of copying\<close>

lemma stpcpy_internal_cstr:
  assumes "cstr m s bs" "mapped m d (Suc (length bs))"
    and "disjoint_spans d (Suc (length bs)) s (Suc (length bs))"
  shows "stpcpy_internal m d s = Some (d + of_nat (length bs), put m d (bs @ [0]))"
  using assms
proof (induction bs arbitrary: m d s)
  case Nil
  note dis = disjoint_spans_Suc [OF Nil.prems(3)]
  from Nil dis show ?case
    by (subst stpcpy_internal.simps) (auto simp: load_def store_mapped mapped_Suc put_Cons)
next
  case (Cons b bs)
  have len: "length (bs @ [0 :: u8]) < 2 ^ 64"
    using cstr_length [OF Cons.prems(1)] by simp
  note dis = disjoint_spans_Suc [OF Cons.prems(3)]
  have "cstr (m(d \<mapsto> b)) (s + 1) bs"
    using Cons.prems(1) dis(2) by (subst cstr_upd) (simp_all add: cstr_Cons)
  moreover have "mapped (m(d \<mapsto> b)) (d + 1) (Suc (length bs))"
    using Cons.prems(2) mapped_Suc by (intro mapped_upd) (simp add: mapped_Suc)
  ultimately have "stpcpy_internal (m(d \<mapsto> b)) (d + 1) (s + 1)
      = Some (d + 1 + of_nat (length bs), put m d (b # bs @ [0]))"
    using Cons.IH dis(1) by (simp add: put_Cons [OF len])
  then show ?case
    using Cons.prems dis(3) by (subst stpcpy_internal.simps)
      (simp add: load_def store_mapped mapped_Suc cstr_Cons add.assoc)
qed

lemma stpncpy_loop_nstr:
  assumes "nstr m s k bs" "unat n = k" "mapped m d k" "disjoint_spans d k s k"
  shows "stpncpy_loop m d s n
    = Some (d + of_nat (length bs), n - of_nat (length bs),
        put m d (if length bs < k then bs @ [0] else bs))"
  using assms
proof (induction k arbitrary: m d s n bs)
  case 0
  then have "n = 0" by (simp add: unat_eq_0)
  with 0 show ?case by (subst stpncpy_loop.simps) simp
next
  case (Suc k)
  note dis = disjoint_spans_Suc [OF Suc.prems(4)]
  note down = count_down [OF Suc.prems(2)]
  show ?case
  proof (cases bs)
    case Nil
    with Suc.prems dis down show ?thesis
      by (subst stpncpy_loop.simps)
         (auto simp: load_def store_mapped mapped_Suc put_Cons until_Suc_Nil)
  next
    case (Cons b bs')
    let ?m = "m(d \<mapsto> b)" and ?ws = "if length bs' < k then bs' @ [0] else bs'"
    have len: "length ?ws < 2 ^ 64"
      using Suc.prems(2) until_length [OF Suc.prems(1)] Cons unat_lt_64 [of n] by auto
    have "nstr ?m (s + 1) k bs'"
      using Suc.prems(1) dis(2) Cons by (subst until_upd) (simp_all add: until_Suc_Cons)
    moreover have "mapped ?m (d + 1) k"
      using Suc.prems(3) by (intro mapped_upd) (simp add: mapped_Suc)
    ultimately have "stpncpy_loop ?m (d + 1) (s + 1) (n - 1)
        = Some (d + 1 + of_nat (length bs'), n - 1 - of_nat (length bs'), put m d (b # ?ws))"
      using Suc.IH down(3) dis(1) by (simp only: put_Cons [OF len])
    then show ?thesis
      using Suc.prems dis(3) down Cons by (subst stpncpy_loop.simps)
        (simp add: load_def store_mapped mapped_Suc until_Suc_Cons add.assoc diff_diff_eq)
  qed
qed

lemma stpncpy_internal_nstr:
  assumes "nstr m s (unat n) bs" "mapped m d (unat n)" "disjoint_spans d (unat n) s (unat n)"
  shows "stpncpy_internal m d s n
    = Some (d + of_nat (length bs), put m d (bs @ replicate (unat n - length bs) 0))"
proof -
  let ?ws = "if length bs < unat n then bs @ [0] else bs"
  let ?z = "unat n - length bs"
  note len = until_length [OF assms(1)]
  have z: "n - of_nat (length bs) = of_nat ?z"
    using len by (simp add: of_nat_diff)
  have "mapped m (d + of_nat (length bs)) ?z"
    using assms(2) len by (auto simp: mapped_def add.assoc simp flip: of_nat_add)
  then have "memset_loop (put m d ?ws) (d + of_nat (length bs)) 0 (n - of_nat (length bs)) 0
      = Some (put (put m d ?ws) (d + of_nat (length bs)) (replicate ?z 0))"
    using unat_lt_64 [of n] unfolding z by (intro memset_loop_put mapped_put) simp_all
  also have "put (put m d ?ws) (d + of_nat (length bs)) (replicate ?z 0)
      = put m d (bs @ replicate ?z 0)"
  proof (cases "length bs < unat n")
    case True
    then obtain k where k: "?z = Suc k" by (cases ?z) auto
    have "put m d (bs @ [0]) = put (put m d bs) (d + of_nat (length bs)) [0]"
      using True unat_lt_64 [of n] by (subst put_append) simp_all
    moreover have "put (put m' p [0]) p (0 # xs) = put m' p (0 # xs)" for m' p and xs :: "u8 list"
      by (rule ext) (auto simp: put_def)
    moreover have "put (put m d bs) (d + of_nat (length bs)) (replicate ?z 0)
        = put m d (bs @ replicate ?z 0)"
      using len unat_lt_64 [of n] by (intro put_append) simp
    ultimately show ?thesis using True k by simp
  next
    case False
    then show ?thesis by simp
  qed
  finally show ?thesis
    using stpncpy_loop_nstr [OF assms(1) refl assms(2,3)] by (simp add: stpncpy_internal_def)
qed

lemma copy_slice_take:
  assumes "mapped m buf n" "n < 2 ^ 64" "n \<le> length bs" "k \<le> n"
  shows "copy_slice (put m buf (take k bs)) buf bs (of_nat n) (of_nat k)
    = Some (put m buf (take n bs))"
  using \<open>k \<le> n\<close>
proof (induction "n - k" arbitrary: k)
  case 0
  then show ?case by (subst copy_slice.simps) simp
next
  case (Suc l)
  then have k: "k < n" by simp
  let ?m = "put m buf (take k bs)"
  have "?m (buf + of_nat k) \<noteq> None"
    using mapped_put [OF assms(1)] k by (auto simp: mapped_def)
  then have "store ?m (buf + of_nat k) (bs ! k) = Some (put m buf (take (Suc k) bs))"
    using k assms put_snoc [of "take k bs" m buf "bs ! k"]
    by (simp add: store_mapped take_Suc_conv_app_nth)
  moreover have "(of_nat k :: size_t) < of_nat n" "unat (of_nat k :: size_t) = k"
    using k assms(2) by (simp_all add: of_nat_less_64 unat_of_nat_64)
  ultimately show ?case
    using Suc.hyps(1) [of "Suc k"] Suc.hyps(2) k assms(3)
    by (subst copy_slice.simps) (simp add: add.commute)
qed

text \<open>The copy of a prefix and the NUL after it.\<close>

lemma copy_slice_terminated:
  assumes "mapped m buf (Suc n)" "Suc n < 2 ^ 64" "n \<le> length bs"
  shows "do { m' \<leftarrow> copy_slice m buf bs (of_nat n) 0; store m' (buf + of_nat n) 0 }
    = Some (put m buf (take n bs @ [0]))"
proof -
  have "put m buf (take n bs) (buf + of_nat n) \<noteq> None"
    using mapped_put [OF assms(1)] by (auto simp: mapped_def)
  then show ?thesis
    using copy_slice_take [of m buf n bs 0] assms mapped_mono [OF assms(1), of n]
      put_snoc [of "take n bs" m buf 0]
    by (simp add: store_mapped)
qed


subsection \<open>Properties\<close>

text \<open>
  \<open>strlen\<close> terminates on every C string and returns the number of bytes before its NUL.
\<close>

theorem strlen_correct:
  assumes "cstr m s bs"
  shows "strlen m s = Some (of_nat (length bs)) \<and> length bs < 2 ^ 64"
  using strlen_cstr [OF assms] cstr_length [OF assms] by simp

lemma strlen_correct_witness:
  "strlen (mem_of 4096 [104, 105, 0]) 4096 = Some 2"
  using strlen_correct [of "mem_of 4096 [104, 105, 0]" 4096 "[104, 105]"] by (simp add: mem_eval)

text \<open>
  \<open>strnlen\<close> returns the number of bytes before the NUL, or \<open>n\<close> when the first
  \<open>n\<close> bytes have none; it reads nothing after that NUL or those \<open>n\<close> bytes.
\<close>

theorem strnlen_correct:
  assumes "nstr m s (unat n) bs"
  shows "strnlen m s n = Some (of_nat (length bs))"
  using strnlen_loop_nstr [of m s 0 "unat n" bs n] assms by (simp add: strnlen_def)

lemma strnlen_correct_witness:
  "strnlen (mem_of 4096 [104, 105]) 4096 2 = Some 2"
  using strnlen_correct [of "mem_of 4096 [104, 105]" 4096 2 "[104, 105]"]
  by (simp add: mem_eval until_def)

text \<open>
  \<open>memchr\<close> finds the first of \<open>n\<close> bytes that equals the low byte of \<open>c\<close>: it
  returns the address after the bytes before it, reading nothing further, and NULL when there
  is none.
\<close>

theorem memchr_correct:
  assumes "until (ucast c) m src (unat n) bs"
  shows "memchr m src c n = Some (if length bs < unat n then src + of_nat (length bs) else 0)"
  using memchr_loop_until [of "ucast c" m src 0 "unat n" bs n] assms by (simp add: memchr_def)

lemma memchr_correct_witness:
  "memchr (mem_of 4096 [1, 2, 3]) 4096 0x103 9 = Some 4098"
  using memchr_correct [of "0x103" "mem_of 4096 [1, 2, 3]" 4096 9 "[1, 2]"]
  by (simp add: mem_eval until_def)

text \<open>
  \<open>memrchr\<close> finds the last of \<open>n\<close> bytes that equals the low byte of \<open>c\<close>, and
  returns NULL when there is none.
\<close>

theorem memrchr_correct:
  assumes "bytes_at m src bs" "length bs = unat n"
  shows "memrchr m src c n
    = Some (case last_index (ucast c) bs of Some i \<Rightarrow> src + of_nat i | None \<Rightarrow> 0)"
  using memrchr_loop_rev [of m src bs "ucast c"] assms unat_lt_64 [of n]
  by (simp add: memrchr_def memrchr_internal_def)

lemma memrchr_correct_witness:
  "memrchr (mem_of 4096 [7, 1, 7, 2]) 4096 7 4 = Some 4098"
  using memrchr_correct [of "mem_of 4096 [7, 1, 7, 2]" 4096 "[7, 1, 7, 2]" 4 7]
    last_index_append [of 7 "[2]" "[7, 1 :: u8]"]
  by (simp add: mem_eval)

text \<open>
  \<open>strchr\<close> returns the address of the first byte of the string, its NUL included, that
  equals the low byte of \<open>c\<close>, and NULL when there is none.
\<close>

theorem strchr_correct:
  assumes "cstr m s bs"
  shows "strchr m s c = Some (if ucast c \<in> set (bs @ [0])
    then s + of_nat (length (takeWhile (\<lambda>b. b \<noteq> ucast c) bs)) else 0)"
proof -
  let ?pre = "takeWhile (\<lambda>b. b \<noteq> ucast c) bs" and ?post = "dropWhile (\<lambda>b. b \<noteq> ucast c) bs"
  have "bytes_at m s (?pre @ ?post @ [0])"
    using assms by (simp add: cstr_def flip: append_assoc)
  then have "bytes_at m (s + of_nat (length ?pre)) (?post @ [0])"
    by (simp only: bytes_at_append)
  then have at: "m (s + of_nat (length ?pre)) = Some (hd (?post @ [0]))"
    by (cases "?post @ [0]") (simp_all add: bytes_at_Cons)
  show ?thesis
  proof (cases ?post)
    case Nil
    have "m (s + of_nat (length ?pre)) = Some 0"
      using at unfolding Nil by simp
    moreover have "ucast c \<notin> set bs"
      using Nil by (auto simp: dropWhile_eq_Nil_conv)
    ultimately show ?thesis using strchrnul_internal_cstr [OF assms, of c]
      by (auto simp: strchr_def load_def)
  next
    case (Cons x xs)
    then have "x = ucast c" using hd_dropWhile [of "\<lambda>b. b \<noteq> ucast c" bs] by simp
    moreover from this have "ucast c \<in> set bs"
      using Cons by (metis list.set_intros(1) set_dropWhileD)
    ultimately show ?thesis using at Cons strchrnul_internal_cstr [OF assms, of c]
      by (simp add: strchr_def load_def)
  qed
qed

lemma strchr_correct_witness:
  "strchr (mem_of 4096 [97, 98, 97, 0]) 4096 98 = Some 4097"
  using strchr_correct [of "mem_of 4096 [97, 98, 97, 0]" 4096 "[97, 98, 97]" 98]
  by (simp add: mem_eval)

text \<open>
  \<open>strrchr\<close> returns the address of the last byte of the string, its NUL included, that
  equals the low byte of \<open>c\<close>, and NULL when there is none.
\<close>

theorem strrchr_correct:
  assumes "cstr m s bs" "length bs + 1 < 2 ^ 64"
  shows "strrchr m s c = Some (case last_index (ucast c) (bs @ [0]) of
    Some i \<Rightarrow> s + of_nat i | None \<Rightarrow> 0)"
proof -
  have "bytes_at m s (bs @ [0])" using assms(1) by (simp add: cstr_def)
  then have "memrchr_loop m s (ucast c) (of_nat (length (bs @ [0])))
      = Some (case last_index (ucast c) (bs @ [0]) of Some i \<Rightarrow> s + of_nat i | None \<Rightarrow> 0)"
    using assms(2) by (intro memrchr_loop_rev) simp_all
  then show ?thesis
    using strlen_cstr [OF assms(1)] by (simp add: strrchr_def memrchr_internal_def add.commute)
qed

lemma strrchr_correct_witness:
  "strrchr (mem_of 4096 [97, 98, 97, 0]) 4096 97 = Some 4098"
  using strrchr_correct [of "mem_of 4096 [97, 98, 97, 0]" 4096 "[97, 98, 97]" 97]
    last_index_append [of 97 "[0]" "[97, 98 :: u8]"]
  by (simp add: mem_eval)

text \<open>
  C36. \<open>strcmp\<close> compares two strings lexicographically as unsigned bytes: the result is
  negative, zero or positive exactly when the first is smaller, equal or greater, a proper
  prefix being smaller.
\<close>

theorem strcmp_lexicographic:
  assumes "cstr m l xs" "cstr m r ys"
  shows "\<exists>c. strcmp m l r = Some c \<and> (sint c < 0 \<longleftrightarrow> xs < ys) \<and> (c = 0 \<longleftrightarrow> xs = ys)
    \<and> (sint c > 0 \<longleftrightarrow> ys < xs)"
  using strcmp_cstr [OF assms] string_diff_sign [of xs ys] assms
  by (auto simp: cstr_nul_free)

lemma strcmp_lexicographic_witness:
  "\<exists>c. strcmp (mem_of 4096 [97, 0, 97, 98, 0]) 4096 4098 = Some c \<and> sint c < 0"
  using strcmp_lexicographic [of "mem_of 4096 [97, 0, 97, 98, 0]" 4096 "[97]" 4098 "[97, 98]"]
  by (auto simp: mem_eval)

text \<open>
  \<open>strncmp\<close> compares the first \<open>n\<close> bytes of two strings, cut at their NULs, in the
  same order, and reads no byte after them; with \<open>n = 0\<close> the result is 0.
\<close>

theorem strncmp_lexicographic:
  assumes "nstr m l (unat n) xs" "nstr m r (unat n) ys"
  shows "\<exists>c. strncmp m l r n = Some c \<and> (sint c < 0 \<longleftrightarrow> xs < ys) \<and> (c = 0 \<longleftrightarrow> xs = ys)
    \<and> (sint c > 0 \<longleftrightarrow> ys < xs)"
  using strncmp_nstr [OF assms] string_diff_sign [of xs ys] assms
  by (auto simp: nstr_nul_free)

lemma strncmp_lexicographic_witness:
  "\<exists>c. strncmp (mem_of 4096 [97, 98, 97, 99]) 4096 4098 1 = Some c \<and> c = 0"
  using strncmp_lexicographic [of "mem_of 4096 [97, 98, 97, 99]" 4096 1 "[97]" 4098 "[97]"]
  by (auto simp: mem_eval until_def)

text \<open>
  \<open>strcpy\<close> and \<open>stpcpy\<close> copy the string with its NUL and change nothing else, when
  the destination is writable and disjoint from the source; \<open>strcpy\<close> returns the
  destination and \<open>stpcpy\<close> the address of the copied NUL.
\<close>

theorem strcpy_correct:
  assumes "cstr m s bs" "mapped m d (Suc (length bs))"
    and "disjoint_spans d (Suc (length bs)) s (Suc (length bs))"
  shows "strcpy m d s = Some (d, put m d (bs @ [0]))
    \<and> stpcpy m d s = Some (d + of_nat (length bs), put m d (bs @ [0]))"
  using stpcpy_internal_cstr [OF assms] by (simp add: strcpy_def stpcpy_def)

lemma strcpy_correct_witness:
  "strcpy (mem_of 4096 [97, 0, 9, 9, 9]) 4098 4096
   = Some (4098, put (mem_of 4096 [97, 0, 9, 9, 9]) 4098 [97, 0])"
proof -
  have "disjoint_spans 4098 (Suc (length [97 :: u8])) 4096 (Suc (length [97 :: u8]))"
    by (rule disjoint_spans_le) simp_all
  then show ?thesis
    using strcpy_correct [of "mem_of 4096 [97, 0, 9, 9, 9]" 4096 "[97]" 4098]
    by (simp add: mem_eval)
qed

text \<open>
  \<open>strncpy\<close> and \<open>stpncpy\<close> write exactly \<open>n\<close> bytes: at most \<open>n\<close> bytes of the
  string, then NULs up to \<open>n\<close>; \<open>stpncpy\<close> returns the address after the bytes copied.
\<close>

theorem strncpy_correct:
  assumes "nstr m s (unat n) bs" "mapped m d (unat n)" "disjoint_spans d (unat n) s (unat n)"
  shows "strncpy m d s n = Some (d, put m d (bs @ replicate (unat n - length bs) 0))
    \<and> stpncpy m d s n
      = Some (d + of_nat (length bs), put m d (bs @ replicate (unat n - length bs) 0))
    \<and> length (bs @ replicate (unat n - length bs) 0) = unat n"
  using stpncpy_internal_nstr [OF assms] until_length [OF assms(1)]
  by (simp add: strncpy_def stpncpy_def)

lemma strncpy_correct_witness:
  "strncpy (mem_of 4096 [97, 0, 9, 9, 9, 9, 9]) 4099 4096 3
   = Some (4099, put (mem_of 4096 [97, 0, 9, 9, 9, 9, 9]) 4099 [97, 0, 0])"
proof -
  have "disjoint_spans 4099 (unat (3 :: size_t)) 4096 (unat (3 :: size_t))"
    by (rule disjoint_spans_le) simp_all
  then show ?thesis
    using strncpy_correct [of "mem_of 4096 [97, 0, 9, 9, 9, 9, 9]" 4096 3 "[97]" 4099]
    by (simp add: mem_eval until_def replicate_numeral_Cons)
qed

text \<open>
  \<open>strcat\<close> appends: after it the destination holds the concatenation of the two
  strings; only the bytes from the old NUL of the destination on are written.
\<close>

theorem strcat_correct:
  assumes "cstr m dest xs" "cstr m src ys" "mapped m (dest + of_nat (length xs)) (Suc (length ys))"
    and "disjoint_spans (dest + of_nat (length xs)) (Suc (length ys)) src (Suc (length ys))"
    and "length xs + Suc (length ys) \<le> 2 ^ 64"
  shows "\<exists>m'. strcat m dest src = Some (dest, m') \<and> cstr m' dest (xs @ ys)
    \<and> m' = put m (dest + of_nat (length xs)) (ys @ [0])"
proof -
  let ?m = "put m (dest + of_nat (length xs)) (ys @ [0])"
  have xs: "bytes_at m dest xs" using assms(1) by (rule cstr_bytes_at)
  have "?m = put m dest (xs @ ys @ [0])"
    using put_append [of xs "ys @ [0]" m dest] assms(5) xs by (simp add: put_same)
  then have "bytes_at ?m dest ((xs @ ys) @ [0])"
    using assms(5) by (simp add: bytes_at_put)
  then have "cstr ?m dest (xs @ ys)"
    using assms(1,2) by (auto simp: cstr_def)
  then show ?thesis
    using stpcpy_internal_cstr [OF assms(2-4)] strlen_cstr [OF assms(1)]
    by (simp add: strcat_def strcpy_def)
qed

lemma strcat_correct_witness:
  "\<exists>m'. strcat (mem_of 4096 [97, 0, 9, 98, 0]) 4096 4099 = Some (4096, m')
    \<and> cstr m' 4096 ([97] @ [98])
    \<and> m' = put (mem_of 4096 [97, 0, 9, 98, 0]) (4096 + of_nat (length [97 :: u8])) ([98] @ [0])"
proof (rule strcat_correct)
  show "cstr (mem_of 4096 [97, 0, 9, 98, 0]) 4096 [97]"
    and "cstr (mem_of 4096 [97, 0, 9, 98, 0]) 4099 [98]"
    and "mapped (mem_of 4096 [97, 0, 9, 98, 0]) (4096 + of_nat (length [97 :: u8]))
      (Suc (length [98 :: u8]))"
    by (simp_all add: mem_eval)
  show "disjoint_spans (4096 + of_nat (length [97 :: u8])) (Suc (length [98 :: u8]))
      4099 (Suc (length [98 :: u8]))"
    by (rule disjoint_spans_le) simp_all
qed simp

text \<open>
  C29. \<open>strerror_r\<close> never writes outside the buffer and always terminates what it writes:
  with room for the message and its NUL it returns 0 and the buffer holds the whole message;
  otherwise it returns \<open>ERANGE\<close>, with the message cut to \<open>buflen - 1\<close> bytes and its
  NUL, or with no byte written when \<open>buflen\<close> is 0.
\<close>

theorem strerror_r_correct:
  assumes "mapped m buf (unat buflen)"
  shows "strerror_r m err buf buflen = Some
    (if length (strerror_str err) < unat buflen then (0, put m buf (strerror_str err @ [0]))
     else if buflen = 0 then (ERANGE, m)
     else (ERANGE, put m buf (take (unat buflen - 1) (strerror_str err) @ [0])))"
proof -
  let ?msg = "strerror_str err"
  have small: "length ?msg < 2 ^ 64" using length_strerror_str [of err] by simp
  then have ge: "of_nat (length ?msg) \<ge> buflen \<longleftrightarrow> \<not> length ?msg < unat buflen"
    by (simp add: word_le_nat_alt unat_of_nat_64 not_less)
  show ?thesis
  proof (cases "length ?msg < unat buflen")
    case True
    then have "mapped m buf (Suc (length ?msg))" by (intro mapped_mono [OF assms]) simp
    with copy_slice_terminated [OF this, of ?msg] True ge show ?thesis
      using length_strerror_str [of err] by (auto simp: strerror_r_def Let_def bind_eq_Some_conv)
  next
    case False
    show ?thesis
    proof (cases "unat buflen")
      case 0
      then have "buflen = 0" by (simp add: unat_eq_0)
      with False ge show ?thesis by (simp add: strerror_r_def Let_def)
    next
      case (Suc k)
      then have "buflen = of_nat (Suc k)" by (rule of_nat_unat_eq)
      then have "buflen - 1 = of_nat k" by simp
      with copy_slice_terminated [of m buf k ?msg] Suc False ge count_down [OF Suc] assms
      show ?thesis
        using unat_lt_64 [of buflen]
        by (auto simp: strerror_r_def Let_def bind_eq_Some_conv)
    qed
  qed
qed

lemma strerror_r_correct_witness:
  "strerror_r (mem_of 4096 [9, 9]) 0 4096 1 = Some (ERANGE, put (mem_of 4096 [9, 9]) 4096 [0])"
proof -
  have "mapped (mem_of 4096 [9, 9]) 4096 (unat (1 :: size_t))"
    by (simp add: mem_eval)
  moreover have "strerror_str 0 \<noteq> []"
    by (simp add: strerror_str_0 UNK_def bytes_of_def)
  ultimately show ?thesis
    using strerror_r_correct [of "mem_of 4096 [9, 9]" 4096 1 0] by simp
qed

end
