(* ===== verification/Ctype.thy ===== *)
theory Ctype
  imports Prelude
begin

section \<open>Character classes and case folding\<close>

text \<open>
  \<open>mytilus-locale/src/ctype.rs\<close>: the classification and case functions with their
  bit tricks on the 32-bit argument, and the locale wrappers of the macro \<open>ctype_l!\<close>.
  The theorems read the argument as the signed \<open>int\<close> it is in C and hold for all
  \<open>2\<^sup>3\<^sup>2\<close> values, not only for those of \<open>unsigned char\<close>.
\<close>

subsection \<open>Definitions\<close>

definition u :: "c_int \<Rightarrow> u32" where
  "u c = c"

definition isalpha :: "c_int \<Rightarrow> c_int" where
  "isalpha c = bool_c_int ((u c OR 32) - 97 < 26)"

definition isdigit :: "c_int \<Rightarrow> c_int" where
  "isdigit c = bool_c_int (u c - 48 < 10)"

definition isspace :: "c_int \<Rightarrow> c_int" where
  "isspace c = bool_c_int (c = 32 \<or> u c - 9 < 5)"

definition isupper :: "c_int \<Rightarrow> c_int" where
  "isupper c = bool_c_int (u c - 65 < 26)"

definition islower :: "c_int \<Rightarrow> c_int" where
  "islower c = bool_c_int (u c - 97 < 26)"

definition isalnum :: "c_int \<Rightarrow> c_int" where
  "isalnum c = bool_c_int (isalpha c \<noteq> 0 \<or> isdigit c \<noteq> 0)"

definition isxdigit :: "c_int \<Rightarrow> c_int" where
  "isxdigit c = bool_c_int (isdigit c \<noteq> 0 \<or> (u c OR 32) - 97 < 6)"

definition isgraph :: "c_int \<Rightarrow> c_int" where
  "isgraph c = bool_c_int (u c - 0x21 < 0x5e)"

definition isprint :: "c_int \<Rightarrow> c_int" where
  "isprint c = bool_c_int (u c - 0x20 < 0x5f)"

definition ispunct :: "c_int \<Rightarrow> c_int" where
  "ispunct c = bool_c_int (isgraph c \<noteq> 0 \<and> isalnum c = 0)"

definition iscntrl :: "c_int \<Rightarrow> c_int" where
  "iscntrl c = bool_c_int (u c < 0x20 \<or> c = 0x7f)"

definition isblank :: "c_int \<Rightarrow> c_int" where
  "isblank c = bool_c_int (c = 32 \<or> c = 9)"

definition isascii :: "c_int \<Rightarrow> c_int" where
  "isascii c = bool_c_int (c AND NOT 0x7f = 0)"

definition tolower :: "c_int \<Rightarrow> c_int" where
  "tolower c = (if isupper c \<noteq> 0 then c OR 32 else c)"

definition toupper :: "c_int \<Rightarrow> c_int" where
  "toupper c = (if islower c \<noteq> 0 then c AND 0x5f else c)"

definition toascii :: "c_int \<Rightarrow> c_int" where
  "toascii c = c AND 0x7f"

text \<open>
  The macro \<open>ctype_l!\<close> applied to a base function: the internal form \<open>__X_l\<close> drops the
  locale, the POSIX name \<open>X_l\<close> calls the internal form.
\<close>

definition ctype_l_impl :: "(c_int \<Rightarrow> c_int) \<Rightarrow> c_int \<Rightarrow> ptr \<Rightarrow> c_int" where
  "ctype_l_impl base c loc = base c"

definition ctype_l_alias :: "(c_int \<Rightarrow> c_int) \<Rightarrow> c_int \<Rightarrow> ptr \<Rightarrow> c_int" where
  "ctype_l_alias base c loc = ctype_l_impl base c loc"

lemmas ctype_defs =
  u_def isalpha_def isdigit_def isspace_def isupper_def islower_def isalnum_def isxdigit_def
  isgraph_def isprint_def ispunct_def iscntrl_def isblank_def isascii_def


subsection \<open>The range test by wrap-around subtraction\<close>

lemma wrapped_diff_less:
  fixes a c n :: int
  assumes "0 \<le> c" "a + n \<le> 2 ^ 32"
  shows "(if a \<le> c then c - a else c - a + 2 ^ 32) < n \<longleftrightarrow> a \<le> c \<and> c < a + n"
  using assms by auto

lemma uint_range:
  fixes c a n :: "32 word"
  assumes "uint a + uint n \<le> 2 ^ 32"
  shows "c - a < n \<longleftrightarrow> uint a \<le> uint c \<and> uint c < uint a + uint n"
  using wrapped_diff_less [OF uint_ge_0 assms, of c] by (simp only: word_less_def uint_sub_if' len_num1 len_num0 len_bit0)
    (simp split: if_splits)

lemma uint_or_32: "uint (c OR 32 :: 32 word) = (if odd (uint c div 32) then uint c else uint c + 32)"
proof -
  have "uint (c OR 32) = set_bit 5 (uint c)"
    by (simp add: uint_or set_bit_eq_or)
  then show ?thesis by (simp add: set_bit_eq bit_iff_odd)
qed

lemma and_0x5f: "97 \<le> x \<Longrightarrow> x \<le> 122 \<Longrightarrow> (x :: int) AND 0x5f = x - 32"
proof -
  have "\<forall>x\<in>set [97..122]. (x :: int) AND 0x5f = x - 32" by code_simp
  moreover assume "97 \<le> x" "x \<le> 122"
  then have "x \<in> set [97..122]" by (simp only: set_upto atLeastAtMost_iff)
  ultimately show "x AND 0x5f = x - 32" by blast
qed

lemma sint_range:
  assumes "0 \<le> a" "b < 2 ^ 31"
  shows "sint (c :: c_int) \<in> {a..b} \<longleftrightarrow> a \<le> uint c \<and> uint c \<le> b"
  using assms uint_lt2p [of c] by (auto simp: sint_32)

lemma sint_single: "0 \<le> a \<Longrightarrow> a < 2 ^ 31 \<Longrightarrow> sint (c :: c_int) = a \<longleftrightarrow> uint c = a"
  using sint_range [of a a c] by auto

lemma eq_uint:
  fixes c :: c_int
  shows "c = 32 \<longleftrightarrow> uint c = 32" and "c = 9 \<longleftrightarrow> uint c = 9" and "c = 127 \<longleftrightarrow> uint c = 127"
  by (simp_all add: word_uint_eq_iff)

text \<open>Every class as a range of the unsigned value.\<close>

named_theorems ctype_ranges

lemma isdigit_uint [ctype_ranges]: "isdigit c = bool_c_int (48 \<le> uint c \<and> uint c \<le> 57)"
  by (auto simp: isdigit_def u_def uint_range)

lemma isupper_uint [ctype_ranges]: "isupper c = bool_c_int (65 \<le> uint c \<and> uint c \<le> 90)"
  by (auto simp: isupper_def u_def uint_range)

lemma islower_uint [ctype_ranges]: "islower c = bool_c_int (97 \<le> uint c \<and> uint c \<le> 122)"
  by (auto simp: islower_def u_def uint_range)

lemma fold_range:
  fixes x :: int
  assumes "0 \<le> k" "k \<le> 26"
  shows "97 \<le> (if odd (x div 32) then x else x + 32) \<and> (if odd (x div 32) then x else x + 32) < 97 + k
    \<longleftrightarrow> (65 \<le> x \<and> x < 65 + k) \<or> (97 \<le> x \<and> x < 97 + k)"
proof -
  have "x div 32 = 2" if "65 \<le> x" "x < 91" using that by presburger
  moreover have "x div 32 = 3" if "97 \<le> x" "x < 123" using that by presburger
  ultimately show ?thesis using assms by (cases "odd (x div 32)") auto
qed

lemma isalpha_uint [ctype_ranges]:
  "isalpha c = bool_c_int ((65 \<le> uint c \<and> uint c \<le> 90) \<or> (97 \<le> uint c \<and> uint c \<le> 122))"
  using fold_range [of 26 "uint c"]
  by (auto simp: isalpha_def u_def uint_range uint_or_32)

lemma isxdigit_uint [ctype_ranges]:
  "isxdigit c = bool_c_int ((48 \<le> uint c \<and> uint c \<le> 57)
     \<or> (65 \<le> uint c \<and> uint c \<le> 70) \<or> (97 \<le> uint c \<and> uint c \<le> 102))"
  using fold_range [of 6 "uint c"]
  by (auto simp: isxdigit_def isdigit_uint u_def uint_range uint_or_32)

lemma isspace_uint [ctype_ranges]:
  "isspace c = bool_c_int (uint c = 32 \<or> (9 \<le> uint c \<and> uint c \<le> 13))"
  by (auto simp: isspace_def u_def uint_range eq_uint)

lemma isalnum_uint [ctype_ranges]:
  "isalnum c = bool_c_int (isalpha c \<noteq> 0 \<or> isdigit c \<noteq> 0)"
  by (rule isalnum_def)

lemma isgraph_uint [ctype_ranges]: "isgraph c = bool_c_int (33 \<le> uint c \<and> uint c \<le> 126)"
  by (auto simp: isgraph_def u_def uint_range)

lemma isprint_uint [ctype_ranges]: "isprint c = bool_c_int (32 \<le> uint c \<and> uint c \<le> 126)"
  by (auto simp: isprint_def u_def uint_range)

lemma iscntrl_uint [ctype_ranges]:
  "iscntrl c = bool_c_int ((0 \<le> uint c \<and> uint c \<le> 31) \<or> uint c = 127)"
  by (auto simp: iscntrl_def u_def word_less_def eq_uint)

lemma isblank_uint [ctype_ranges]: "isblank c = bool_c_int (uint c = 32 \<or> uint c = 9)"
  by (simp add: isblank_def eq_uint)

lemma toascii_uint: "uint (toascii c) = uint c mod 128"
proof -
  have "uint c AND mask 7 = take_bit 7 (uint c)" by (simp add: take_bit_eq_mask)
  then show ?thesis by (simp add: toascii_def uint_and mask_eq_exp_minus_1 take_bit_eq_mod)
qed

lemma isascii_toascii: "isascii c = bool_c_int (toascii c = c)"
proof -
  have "c AND NOT 0x7f = 0 \<longleftrightarrow> c AND 0x7f = c"
  proof
    assume "c AND NOT 0x7f = 0"
    moreover have "c = (c AND 0x7f) OR (c AND NOT 0x7f)"
      by (simp add: bit.conj_disj_distrib [symmetric])
    ultimately show "c AND 0x7f = c" by simp
  next
    assume "c AND 0x7f = c"
    then have "c AND NOT 0x7f = (c AND 0x7f) AND NOT 0x7f" by simp
    then show "c AND NOT 0x7f = 0" by (simp add: and.assoc)
  qed
  then show ?thesis by (simp add: isascii_def toascii_def)
qed

lemma isascii_uint [ctype_ranges]: "isascii c = bool_c_int (0 \<le> uint c \<and> uint c \<le> 127)"
proof -
  have "toascii c = c \<longleftrightarrow> uint c mod 128 = uint c"
    by (simp add: word_uint_eq_iff toascii_uint)
  also have "\<dots> \<longleftrightarrow> uint c \<le> 127"
    using mod_pos_pos_trivial [of "uint c" 128] pos_mod_bound [of 128 "uint c"] by auto
  finally show ?thesis by (simp add: isascii_toascii)
qed

lemma uint_tolower:
  "uint (tolower c) = (if 65 \<le> uint c \<and> uint c \<le> 90 then uint c + 32 else uint c)"
proof -
  have "even (x div 32)" if "65 \<le> x" "x \<le> 90" for x :: int using that by presburger
  then show ?thesis by (simp add: tolower_def isupper_uint uint_or_32)
qed

lemma uint_toupper:
  "uint (toupper c) = (if 97 \<le> uint c \<and> uint c \<le> 122 then uint c - 32 else uint c)"
  by (simp add: toupper_def islower_uint uint_and and_0x5f)

subsection \<open>Properties\<close>

lemma classes_correct_laws:
  "isalpha c = bool_c_int (sint c \<in> {65..90} \<union> {97..122})"
  "isdigit c = bool_c_int (sint c \<in> {48..57})"
  "isspace c = bool_c_int (sint c \<in> {32} \<union> {9..13})"
  "isupper c = bool_c_int (sint c \<in> {65..90})"
  "islower c = bool_c_int (sint c \<in> {97..122})"
  "isalnum c = bool_c_int (sint c \<in> {48..57} \<union> {65..90} \<union> {97..122})"
  "isxdigit c = bool_c_int (sint c \<in> {48..57} \<union> {65..70} \<union> {97..102})"
  "isgraph c = bool_c_int (sint c \<in> {33..126})"
  "isprint c = bool_c_int (sint c \<in> {32..126})"
  "ispunct c = bool_c_int (sint c \<in> {33..47} \<union> {58..64} \<union> {91..96} \<union> {123..126})"
  "iscntrl c = bool_c_int (sint c \<in> {0..31} \<union> {127})"
  "isblank c = bool_c_int (sint c \<in> {9} \<union> {32})"
  "isascii c = bool_c_int (sint c \<in> {0..127})"
  by (simp_all add: ctype_ranges sint_range sint_single ispunct_def disj_ac
      del: atLeastAtMost_iff) linarith+

text \<open>
  C26. The thirteen classification functions are right on every \<open>int\<close>: each returns 1 on
  the ASCII characters of its class and 0 on every other value, negative and large ones
  included.
\<close>

theorem classes_correct:
  "(isalpha c = bool_c_int (sint c \<in> {65..90} \<union> {97..122}))
   \<and> (isdigit c = bool_c_int (sint c \<in> {48..57}))
   \<and> (isspace c = bool_c_int (sint c \<in> {32} \<union> {9..13}))
   \<and> (isupper c = bool_c_int (sint c \<in> {65..90}))
   \<and> (islower c = bool_c_int (sint c \<in> {97..122}))
   \<and> (isalnum c = bool_c_int (sint c \<in> {48..57} \<union> {65..90} \<union> {97..122}))
   \<and> (isxdigit c = bool_c_int (sint c \<in> {48..57} \<union> {65..70} \<union> {97..102}))
   \<and> (isgraph c = bool_c_int (sint c \<in> {33..126}))
   \<and> (isprint c = bool_c_int (sint c \<in> {32..126}))
   \<and> (ispunct c = bool_c_int (sint c \<in> {33..47} \<union> {58..64} \<union> {91..96} \<union> {123..126}))
   \<and> (iscntrl c = bool_c_int (sint c \<in> {0..31} \<union> {127}))
   \<and> (isblank c = bool_c_int (sint c \<in> {9} \<union> {32}))
   \<and> (isascii c = bool_c_int (sint c \<in> {0..127}))"
  by (intro conjI allI impI classes_correct_laws)

lemma case_mapping_correct_laws:
  "sint (tolower c) = (if sint c \<in> {65..90} then sint c + 32 else sint c)"
  "sint (toupper c) = (if sint c \<in> {97..122} then sint c - 32 else sint c)"
proof -
  have "sint (tolower c) = (if sint c \<in> {65..90} then sint c + 32 else sint c)
    \<and> sint (toupper c) = (if sint c \<in> {97..122} then sint c - 32 else sint c)"
  proof (cases "uint c < 2 ^ 31")
    case True
    then have "uint (tolower c) < 2 ^ 31" "uint (toupper c) < 2 ^ 31"
      by (simp_all add: uint_tolower uint_toupper)
    with True show ?thesis by (simp add: sint_32 uint_tolower uint_toupper)
  next
    case False
    then have "tolower c = c" "toupper c = c"
      by (simp_all add: word_uint_eq_iff uint_tolower uint_toupper)
    moreover have "sint c < 0" using False sint_nonneg_32 [of c] by simp
    ultimately show ?thesis by simp
  qed
  then show "sint (tolower c) = (if sint c \<in> {65..90} then sint c + 32 else sint c)"
    and "sint (toupper c) = (if sint c \<in> {97..122} then sint c - 32 else sint c)"
    by simp_all
qed

text \<open>
  \<open>tolower\<close> maps the upper-case letters to the lower-case ones and \<open>toupper\<close> the
  lower-case ones back, 32 places apart; both leave every other \<open>int\<close> as it is.
\<close>

theorem case_mapping_correct:
  "(sint (tolower c) = (if sint c \<in> {65..90} then sint c + 32 else sint c))
   \<and> (sint (toupper c) = (if sint c \<in> {97..122} then sint c - 32 else sint c))"
  by (intro conjI allI impI case_mapping_correct_laws)

lemma case_mapping_roundtrip_laws:
  "isupper c \<noteq> 0 \<longleftrightarrow> tolower c \<noteq> c"
  "toupper (tolower c) = (if isalpha c \<noteq> 0 then toupper c else c)"
  "tolower (toupper c) = (if isalpha c \<noteq> 0 then tolower c else c)"
  "tolower (tolower c) = tolower c"
  "toupper (toupper c) = toupper c"
  "isalpha (tolower c) = isalpha c"
  unfolding ctype_ranges bool_c_int_eq_0 bool_c_int_inject
  by (auto simp: word_uint_eq_iff uint_tolower uint_toupper)

text \<open>
  The two case functions are inverse to each other on the letters and idempotent on all
  of \<open>int\<close>, and neither leaves the class of letters.
\<close>

theorem case_mapping_roundtrip:
  "(isupper c \<noteq> 0 \<longleftrightarrow> tolower c \<noteq> c)
   \<and> (toupper (tolower c) = (if isalpha c \<noteq> 0 then toupper c else c))
   \<and> (tolower (toupper c) = (if isalpha c \<noteq> 0 then tolower c else c))
   \<and> (tolower (tolower c) = tolower c)
   \<and> (toupper (toupper c) = toupper c)
   \<and> (isalpha (tolower c) = isalpha c)"
  by (intro conjI allI impI case_mapping_roundtrip_laws)

lemma toascii_correct_laws:
  "uint (toascii c) = uint c mod 128"
  "isascii (toascii c) = 1"
  "isascii c = bool_c_int (toascii c = c)"
  using pos_mod_bound [of 128 "uint c"] pos_mod_sign [of 128 "uint c"]
  by (simp_all only: isascii_uint [of "toascii c"] isascii_toascii [of c] bool_c_int_eq_1 toascii_uint)
     simp_all

text \<open>
  \<open>toascii\<close> keeps the low seven bits: its result is always an ASCII value, and
  \<open>isascii\<close> holds of exactly the values it does not change.
\<close>

theorem toascii_correct:
  "(uint (toascii c) = uint c mod 128)
   \<and> (isascii (toascii c) = 1)
   \<and> (isascii c = bool_c_int (toascii c = c))"
  by (intro conjI allI impI toascii_correct_laws)

text \<open>
  The locale variants are the plain functions: both names of every wrapper ignore the
  locale argument.
\<close>

theorem ctype_l_ignores_locale:
  "ctype_l_impl base c loc = base c \<and> ctype_l_alias base c loc = base c"
  by (simp add: ctype_l_impl_def ctype_l_alias_def)

end
