(* ===== verification/Str_Search.thy ===== *)
theory Str_Search
  imports Str_Fns Ctype "HOL-Library.Sublist"
begin

section \<open>String search, tokenizers and case-insensitive comparison\<close>

text \<open>
  \<open>mytilus-string/src/str_search.rs\<close>. The 256-bit byte set and the case fold are used
  through the locales \<open>byte_set\<close> and \<open>case_fold\<close>, each interpreted on the
  functions of the source. A \<open>char **\<close> argument is the pointer value in the cell, returned
  updated: the cell is assumed not to overlap the strings.
\<close>

subsection \<open>Helpers\<close>

type_synonym byteset = "u64 list"

definition byteset_set :: "byteset \<Rightarrow> u8 \<Rightarrow> byteset" where
  "byteset_set bs b =
     (let i = unat b div 64 in bs[i := bs ! i OR push_bit (unat b mod 64) 1])"

definition byteset_test :: "byteset \<Rightarrow> u8 \<Rightarrow> bool" where
  "byteset_test bs b \<longleftrightarrow> drop_bit (unat b mod 64) (bs ! (unat b div 64)) AND 1 \<noteq> 0"

definition fold_byte :: "u8 \<Rightarrow> u8" where
  "fold_byte b = ucast (tolower (ucast b))"


subsection \<open>strstr\<close>

partial_function (option) strstr_match :: "mem \<Rightarrow> ptr \<Rightarrow> ptr \<Rightarrow> ptr option" where
  "strstr_match m p q = do {
     a \<leftarrow> load m p;
     if a = 0 then Some q
     else do {
       b \<leftarrow> load m q;
       if b \<noteq> 0 \<and> a = b then strstr_match m (p + 1) (q + 1) else Some q
     }
   }"

partial_function (option) strstr_loop :: "mem \<Rightarrow> ptr \<Rightarrow> ptr \<Rightarrow> ptr option" where
  "strstr_loop m h n = do {
     a \<leftarrow> load m h;
     if a \<noteq> 0 then do {
       q \<leftarrow> strstr_match m h n;
       b \<leftarrow> load m q;
       if b = 0 then Some h else strstr_loop m (h + 1) n
     } else Some null_ptr
   }"

definition strstr :: "mem \<Rightarrow> ptr \<Rightarrow> ptr \<Rightarrow> ptr option" where
  "strstr m h n = do {
     b \<leftarrow> load m n;
     if b = 0 then Some h else strstr_loop m h n
   }"


subsection \<open>Spans of a byte set\<close>

text \<open>The fast path of \<open>strspn\<close>, \<open>while *p == *c\<close>, rereads both bytes in every turn.\<close>

partial_function (option) span_byte_loop :: "mem \<Rightarrow> ptr \<Rightarrow> ptr \<Rightarrow> ptr option" where
  "span_byte_loop m c p = do {
     a \<leftarrow> load m p;
     b \<leftarrow> load m c;
     if a = b then span_byte_loop m c (p + 1) else Some p
   }"

partial_function (option) byteset_fill :: "mem \<Rightarrow> byteset \<Rightarrow> ptr \<Rightarrow> byteset option" where
  "byteset_fill m bs cp = do {
     b \<leftarrow> load m cp;
     if b \<noteq> 0 then byteset_fill m (byteset_set bs b) (cp + 1) else Some bs
   }"

text \<open>
  The scan of \<open>strspn\<close> (\<open>want\<close> true: members of the set) and of \<open>strcspn\<close>
  (\<open>want\<close> false).
\<close>

partial_function (option) span_set_loop :: "mem \<Rightarrow> bool \<Rightarrow> byteset \<Rightarrow> ptr \<Rightarrow> ptr option" where
  "span_set_loop m want bs sp = do {
     b \<leftarrow> load m sp;
     if b \<noteq> 0 \<and> byteset_test bs b = want then span_set_loop m want bs (sp + 1) else Some sp
   }"

definition strspn :: "mem \<Rightarrow> ptr \<Rightarrow> ptr \<Rightarrow> size_t option" where
  "strspn m s c = do {
     c0 \<leftarrow> load m c;
     if c0 = 0 then Some 0
     else do {
       c1 \<leftarrow> load m (c + 1);
       if c1 = 0 then do { p \<leftarrow> span_byte_loop m c s; Some (p - s) }
       else do {
         bs \<leftarrow> byteset_fill m (replicate 4 0) c;
         sp \<leftarrow> span_set_loop m True bs s;
         Some (sp - s)
       }
     }
   }"

definition strcspn :: "mem \<Rightarrow> ptr \<Rightarrow> ptr \<Rightarrow> size_t option" where
  "strcspn m s c = do {
     c0 \<leftarrow> load m c;
     short \<leftarrow> (if c0 = 0 then Some True else do { c1 \<leftarrow> load m (c + 1); Some (c1 = 0) });
     if short then do { e \<leftarrow> strchrnul_internal m s (ucast c0); Some (e - s) }
     else do {
       bs \<leftarrow> byteset_fill m (replicate 4 0) c;
       sp \<leftarrow> span_set_loop m False bs s;
       Some (sp - s)
     }
   }"

definition strpbrk :: "mem \<Rightarrow> ptr \<Rightarrow> ptr \<Rightarrow> ptr option" where
  "strpbrk m s b = do {
     n \<leftarrow> strcspn m s b;
     x \<leftarrow> load m (s + n);
     Some (if x \<noteq> 0 then s + n else null_ptr)
   }"


subsection \<open>Tokenizers\<close>

text \<open>
  \<open>strsep m head sep\<close>: the token, the new value of the cell \<open>*str_\<close>, the memory.
\<close>

definition strsep :: "mem \<Rightarrow> ptr \<Rightarrow> ptr \<Rightarrow> (ptr \<times> ptr \<times> mem) option" where
  "strsep m head sep =
     (let s = head in
      if s = null_ptr then Some (null_ptr, head, m)
      else do {
        n \<leftarrow> strcspn m s sep;
        let e = s + n;
        b \<leftarrow> load m e;
        (new_head, m') \<leftarrow> (if b \<noteq> 0 then do { m' \<leftarrow> store m e 0; Some (e + 1, m') }
                           else Some (null_ptr, m));
        Some (s, new_head, m')
      })"

text \<open>\<open>strtok_r m s sep p\<close>: the token, the new value of the cell \<open>*p\<close>, the memory.\<close>

definition strtok_r :: "mem \<Rightarrow> ptr \<Rightarrow> ptr \<Rightarrow> ptr \<Rightarrow> (ptr \<times> ptr \<times> mem) option" where
  "strtok_r m s sep p =
     (let s' = (if s = null_ptr then p else s) in
      if s' = null_ptr then Some (null_ptr, p, m)
      else do {
        n \<leftarrow> strspn m s' sep;
        let t = s' + n;
        b \<leftarrow> load m t;
        if b = 0 then Some (null_ptr, null_ptr, m)
        else do {
          k \<leftarrow> strcspn m t sep;
          let e = t + k;
          b' \<leftarrow> load m e;
          if b' \<noteq> 0 then do { m' \<leftarrow> store m e 0; Some (t, e + 1, m') }
          else Some (t, null_ptr, m)
        }
      })"

text \<open>
  \<open>strtok\<close> keeps the cell in the static \<open>STRTOK_STATE\<close>, here \<open>st\<close>; the definition is its
  value at program start.
\<close>

definition STRTOK_STATE :: ptr where
  "STRTOK_STATE = null_ptr"

definition strtok :: "mem \<Rightarrow> ptr \<Rightarrow> ptr \<Rightarrow> ptr \<Rightarrow> (ptr \<times> ptr \<times> mem) option" where
  "strtok m st s sep = do {
     let l = st;
     (r, l', m') \<leftarrow> strtok_r m s sep l;
     Some (r, l', m')
   }"


subsection \<open>Case-insensitive comparison\<close>

partial_function (option) strcasecmp_loop :: "mem \<Rightarrow> ptr \<Rightarrow> ptr \<Rightarrow> c_int option" where
  "strcasecmp_loop m l r = do {
     a \<leftarrow> load m l;
     b \<leftarrow> load m r;
     if a = 0 \<or> b = 0 then Some (ucast (fold_byte a) - ucast (fold_byte b))
     else if a \<noteq> b \<and> fold_byte a \<noteq> fold_byte b then Some (ucast (fold_byte a) - ucast (fold_byte b))
     else strcasecmp_loop m (l + 1) (r + 1)
   }"

definition strcasecmp :: "mem \<Rightarrow> ptr \<Rightarrow> ptr \<Rightarrow> c_int option" where
  "strcasecmp m l r = strcasecmp_loop m l r"

partial_function (option) strncasecmp_loop ::
  "mem \<Rightarrow> ptr \<Rightarrow> ptr \<Rightarrow> size_t \<Rightarrow> c_int option" where
  "strncasecmp_loop m l r n = do {
     a \<leftarrow> load m l;
     b \<leftarrow> load m r;
     if a \<noteq> 0 \<and> b \<noteq> 0 \<and> n \<noteq> 0 \<and> (a = b \<or> fold_byte a = fold_byte b)
     then strncasecmp_loop m (l + 1) (r + 1) (n - 1)
     else Some (ucast (fold_byte a) - ucast (fold_byte b))
   }"

definition strncasecmp :: "mem \<Rightarrow> ptr \<Rightarrow> ptr \<Rightarrow> size_t \<Rightarrow> c_int option" where
  "strncasecmp m l r n = (if n = 0 then Some 0 else strncasecmp_loop m l r (n - 1))"

definition strcasecmp_l_internal :: "mem \<Rightarrow> ptr \<Rightarrow> ptr \<Rightarrow> ptr \<Rightarrow> c_int option" where
  "strcasecmp_l_internal m l r loc = strcasecmp m l r"

definition strcasecmp_l :: "mem \<Rightarrow> ptr \<Rightarrow> ptr \<Rightarrow> ptr \<Rightarrow> c_int option" where
  "strcasecmp_l m l r loc = strcasecmp_l_internal m l r loc"

definition strncasecmp_l_internal :: "mem \<Rightarrow> ptr \<Rightarrow> ptr \<Rightarrow> size_t \<Rightarrow> ptr \<Rightarrow> c_int option" where
  "strncasecmp_l_internal m l r n loc = strncasecmp m l r n"

definition strncasecmp_l :: "mem \<Rightarrow> ptr \<Rightarrow> ptr \<Rightarrow> size_t \<Rightarrow> ptr \<Rightarrow> c_int option" where
  "strncasecmp_l m l r n loc = strncasecmp_l_internal m l r n loc"


subsection \<open>Interfaces\<close>

text \<open>What the scans need of a byte set, and its client lemma on filling it from a string.\<close>

locale byte_set =
  fixes inv :: "'s \<Rightarrow> bool" and none :: 's and add :: "'s \<Rightarrow> u8 \<Rightarrow> 's" and test :: "'s \<Rightarrow> u8 \<Rightarrow> bool"
  assumes inv_none: "inv none"
    and test_none: "\<not> test none x"
    and inv_add: "inv s \<Longrightarrow> inv (add s b)"
    and test_add: "inv s \<Longrightarrow> test (add s b) x \<longleftrightarrow> x = b \<or> test s x"
begin

lemma test_foldl: "inv s \<Longrightarrow> test (foldl add s bs) x \<longleftrightarrow> x \<in> set bs \<or> test s x"
  by (induction bs arbitrary: s) (auto simp: inv_add test_add)

lemma test_filled: "test (foldl add none bs) x \<longleftrightarrow> x \<in> set bs"
  by (simp add: test_foldl inv_none test_none)

end

text \<open>What the comparisons need of the case fold: it keeps the NUL and makes no other.\<close>

locale case_fold =
  fixes f :: "u8 \<Rightarrow> u8"
  assumes fold_0: "f b = 0 \<longleftrightarrow> b = 0"
begin

lemma map_nul_free: "0 \<notin> set (map f bs) \<longleftrightarrow> 0 \<notin> set bs"
  using fold_0 by (force simp: image_iff)

lemma map_terminated: "map f (bs @ [0]) = map f bs @ [0]"
  by (simp add: fold_0)

end

subsection \<open>The byte set and the fold of the source\<close>

lemma unat_u8_bound: "unat (b :: u8) < 256"
  using unsigned_less [of b] by simp

lemma byteset_test_bit: "byteset_test bs b \<longleftrightarrow> bit (bs ! (unat b div 64)) (unat b mod 64)"
  by (simp add: byteset_test_def and_one_eq bit_iff_odd_drop_bit odd_iff_mod_2_eq_one)

lemma byte_index_inject: "unat x div 64 = unat b div 64 \<Longrightarrow> unat x mod 64 = unat b mod 64 \<Longrightarrow> x = (b :: u8)"
  by (metis div_mult_mod_eq word_unat_eq_iff)

lemma byteset_set_test:
  assumes "length bs = 4"
  shows "byteset_test (byteset_set bs b) x \<longleftrightarrow> x = b \<or> byteset_test bs x"
proof (cases "unat x div 64 = unat b div 64")
  case True
  have "unat b div 64 < 4" using unat_u8_bound [of b] by simp
  with True assms byte_index_inject [OF True] show ?thesis
    by (auto simp: byteset_test_bit byteset_set_def Let_def bit_or_iff bit_exp_iff)
next
  case False
  then show ?thesis by (auto simp: byteset_test_bit byteset_set_def Let_def)
qed

interpretation bset: byte_set "\<lambda>bs. length bs = 4" "replicate 4 0" byteset_set byteset_test
proof unfold_locales
  fix x :: u8
  have "unat x div 64 < 4" using unat_u8_bound [of x] by simp
  then show "\<not> byteset_test (replicate 4 0) x" by (simp add: byteset_test_bit)
qed (simp_all add: byteset_set_test, simp add: byteset_set_def Let_def)

lemma fold_byte_uint:
  "uint (fold_byte b) = (if 65 \<le> uint b \<and> uint b \<le> 90 then uint b + 32 else uint b)"
proof -
  have "uint (tolower (ucast b)) = (if 65 \<le> uint b \<and> uint b \<le> 90 then uint b + 32 else uint b)"
    by (simp add: uint_tolower)
  with uint_u8_bound [of b] show ?thesis
    by (simp add: fold_byte_def unsigned_ucast_eq take_bit_eq_mod)
qed

interpretation fold: case_fold fold_byte
  by unfold_locales (simp add: word_uint_eq_iff [of _ "0 :: u8"] fold_byte_uint)

subsection \<open>Closed forms\<close>

text \<open>The inner loop stops at the NUL of the needle exactly when the needle is a prefix.\<close>

lemma strstr_match_prefix:
  assumes "cstr m p xs" "cstr m q ys"
  obtains q' b where "strstr_match m p q = Some q'" "load m q' = Some b" "b = 0 \<longleftrightarrow> prefix ys xs"
proof -
  have "\<exists>q' b. strstr_match m p q = Some q' \<and> load m q' = Some b \<and> (b = 0 \<longleftrightarrow> prefix ys xs)"
    using assms
  proof (induction xs arbitrary: p q ys)
    case Nil
    then show ?case by (cases ys) (subst strstr_match.simps, auto simp: load_def cstr_Cons)+
  next
    case (Cons x xs)
    show ?case
    proof (cases ys)
      case Nil
      with Cons.prems show ?thesis by (subst strstr_match.simps) (auto simp: load_def cstr_Cons)
    next
      case (Cons y ys')
      with Cons.prems Cons.IH [of "p + 1" "q + 1" ys'] show ?thesis
        by (subst strstr_match.simps) (auto simp: load_def cstr_Cons)
    qed
  qed
  then show ?thesis using that by blast
qed

text \<open>The first place where \<open>ys\<close> occurs in \<open>xs\<close>.\<close>

fun occurrence :: "'a list \<Rightarrow> 'a list \<Rightarrow> nat option" where
  "occurrence ys [] = (if ys = [] then Some 0 else None)"
| "occurrence ys (x # xs) =
     (if prefix ys (x # xs) then Some 0 else map_option Suc (occurrence ys xs))"

lemma occurrence_Some:
  "occurrence ys xs = Some i \<Longrightarrow>
   (\<exists>zs. drop i xs = ys @ zs) \<and> i \<le> length xs \<and> (\<forall>j<i. \<not> prefix ys (drop j xs))"
proof (induction xs arbitrary: i)
  case (Cons x xs)
  show ?case
  proof (cases "prefix ys (x # xs)")
    case True
    with Cons.prems show ?thesis by (auto simp: prefix_def)
  next
    case False
    with Cons.prems obtain k where "i = Suc k" "occurrence ys xs = Some k" by auto
    with Cons.IH [of k] False show ?thesis by (auto simp: less_Suc_eq_0_disj)
  qed
qed (auto split: if_splits)

lemma occurrence_None: "occurrence ys xs = None \<longleftrightarrow> \<not> sublist ys xs"
  by (induction xs) (auto simp: sublist_Cons_right)

lemma strstr_loop_cstr:
  "cstr m h xs \<Longrightarrow> cstr m n ys \<Longrightarrow> ys \<noteq> [] \<Longrightarrow>
   strstr_loop m h n = Some (case occurrence ys xs of Some i \<Rightarrow> h + of_nat i | None \<Rightarrow> 0)"
proof (induction xs arbitrary: h)
  case Nil
  then show ?case by (subst strstr_loop.simps) (simp add: load_def)
next
  case (Cons x xs)
  obtain q b where q: "strstr_match m h n = Some q" "load m q = Some b" "b = 0 \<longleftrightarrow> prefix ys (x # xs)"
    using Cons.prems(1,2) by (rule strstr_match_prefix)
  have "load m h = Some x" "x \<noteq> 0" "cstr m (h + 1) xs"
    using Cons.prems(1) by (simp_all add: cstr_Cons load_def)
  with q Cons.IH [of "h + 1"] Cons.prems(2,3) show ?case
    by (subst strstr_loop.simps) (auto simp: add.assoc split: option.splits)
qed

lemma strstr_cstr [loop_specs]:
  assumes "cstr m h xs" "cstr m n ys"
  shows "strstr m h n = Some (case occurrence ys xs of Some i \<Rightarrow> h + of_nat i | None \<Rightarrow> 0)"
proof (cases ys)
  case Nil
  then have "occurrence ys xs = Some 0" by (cases xs) simp_all
  with Nil assms show ?thesis by (simp add: strstr_def load_def)
next
  case (Cons y ys')
  with assms strstr_loop_cstr [OF assms] show ?thesis
    by (auto simp: strstr_def load_def cstr_Cons)
qed

lemma span_byte_loop_cstr:
  "cstr m p bs \<Longrightarrow> m c = Some b \<Longrightarrow> b \<noteq> 0 \<Longrightarrow>
   span_byte_loop m c p = Some (p + of_nat (length (takeWhile (\<lambda>x. x = b) bs)))"
proof (induction bs arbitrary: p)
  case Nil
  then show ?case by (subst span_byte_loop.simps) (auto simp: load_def)
next
  case (Cons x bs)
  then show ?case using Cons.IH [of "p + 1"]
    by (subst span_byte_loop.simps) (auto simp: load_def cstr_Cons add.assoc)
qed

lemma byteset_fill_cstr:
  "cstr m cp cs \<Longrightarrow> byteset_fill m bs cp = Some (foldl byteset_set bs cs)"
proof (induction cs arbitrary: cp bs)
  case Nil
  then show ?case by (subst byteset_fill.simps) (simp add: load_def)
next
  case (Cons c cs)
  then show ?case by (subst byteset_fill.simps) (simp add: load_def cstr_Cons)
qed

lemma span_set_loop_cstr:
  "cstr m sp bs \<Longrightarrow> span_set_loop m want st sp
     = Some (sp + of_nat (length (takeWhile (\<lambda>x. byteset_test st x = want) bs)))"
proof (induction bs arbitrary: sp)
  case Nil
  then show ?case by (subst span_set_loop.simps) (simp add: load_def)
next
  case (Cons x bs)
  then show ?case using Cons.IH [of "sp + 1"]
    by (subst span_set_loop.simps) (auto simp: load_def cstr_Cons add.assoc)
qed

text \<open>The length of the longest prefix inside, and outside, a set of bytes.\<close>

definition span_in :: "u8 list \<Rightarrow> u8 list \<Rightarrow> nat" where
  "span_in cs bs = length (takeWhile (\<lambda>x. x \<in> set cs) bs)"

definition span_out :: "u8 list \<Rightarrow> u8 list \<Rightarrow> nat" where
  "span_out cs bs = length (takeWhile (\<lambda>x. x \<notin> set cs) bs)"

lemma span_in_le: "span_in cs bs \<le> length bs"
  by (simp add: span_in_def length_takeWhile_le)

lemma span_out_le: "span_out cs bs \<le> length bs"
  by (simp add: span_out_def length_takeWhile_le)

lemma span_Nil [simp]: "span_in [] bs = 0" "span_out [] bs = length bs"
  by (cases bs) (simp_all add: span_in_def span_out_def takeWhile_eq_all_conv [THEN iffD2])

lemma strspn_cstr [loop_specs]:
  assumes "cstr m s bs" "cstr m c cs"
  shows "strspn m s c = Some (of_nat (span_in cs bs))"
proof (cases cs)
  case Nil
  then show ?thesis using assms by (simp add: strspn_def load_def)
next
  case (Cons c0 cs')
  have "byteset_fill m (replicate 4 0) c = Some (foldl byteset_set (replicate 4 0) cs)"
    using assms(2) by (rule byteset_fill_cstr)
  moreover note span_set_loop_cstr [OF assms(1), of True "foldl byteset_set (replicate 4 0) cs",
    unfolded bset.test_filled simp_thms, folded span_in_def]
  moreover have "cs' = [] \<Longrightarrow> span_byte_loop m c s = Some (s + of_nat (span_in cs bs))"
    using span_byte_loop_cstr [OF assms(1), of c c0] assms(2) Cons
    by (simp add: cstr_Cons span_in_def)
  ultimately show ?thesis
    using assms(2) Cons by (cases cs') (simp_all add: strspn_def load_def cstr_Cons)
qed

lemma strcspn_cstr [loop_specs]:
  assumes "cstr m s bs" "cstr m c cs"
  shows "strcspn m s c = Some (of_nat (span_out cs bs))"
proof (cases cs)
  case Nil
  have "takeWhile (\<lambda>b. b \<noteq> 0) bs = bs"
    using cstr_nul_free [OF assms(1)] by (auto simp: takeWhile_eq_all_conv)
  with Nil assms(2) strchrnul_internal_cstr [OF assms(1), of 0] show ?thesis
    by (simp add: strcspn_def load_def)
next
  case (Cons c0 cs')
  have "byteset_fill m (replicate 4 0) c = Some (foldl byteset_set (replicate 4 0) cs)"
    using assms(2) by (rule byteset_fill_cstr)
  moreover note span_set_loop_cstr [OF assms(1), of False "foldl byteset_set (replicate 4 0) cs",
    unfolded bset.test_filled simp_thms, folded span_out_def]
  moreover have "cs' = [] \<Longrightarrow> strchrnul_internal m s (ucast c0) = Some (s + of_nat (span_out cs bs))"
    using strchrnul_internal_cstr [OF assms(1), of "ucast c0"] Cons
    by (simp add: span_out_def)
  ultimately show ?thesis
    using assms(2) Cons by (cases cs') (simp_all add: strcspn_def load_def cstr_Cons)
qed

lemma load_cstr: "cstr m s bs \<Longrightarrow> n \<le> length bs \<Longrightarrow> load m (s + of_nat n) = Some ((bs @ [0]) ! n)"
  by (rule load_bytes_at) (simp_all add: cstr_def)

subsection \<open>Cutting a string\<close>

text \<open>A NUL written inside a string cuts it in two.\<close>

lemma cut_cstr:
  assumes "cstr m s bs" "n < length bs"
  shows "cstr (m(s + of_nat n \<mapsto> 0)) s (take n bs)"
    and "cstr (m(s + of_nat n \<mapsto> 0)) (s + of_nat n + 1) (drop (Suc n) bs)"
proof -
  let ?e = "s + of_nat n"
  have len: "length bs < 2 ^ 64" using assms(1) by (rule cstr_length)
  have "bytes_at m s (take n bs @ (bs ! n) # drop (Suc n) bs @ [0])"
    using assms by (simp add: cstr_def id_take_nth_drop [of n bs, symmetric] flip: append_assoc append_Cons)
  then have parts: "bytes_at m s (take n bs)" "bytes_at m (?e + 1) (drop (Suc n) bs @ [0])"
    using assms(2) by (simp_all add: bytes_at_append [of m s "take n bs"] bytes_at_Cons [of m _ "bs ! n"]
        del: append_Cons append_assoc)
  have nul: "0 \<notin> set (take n bs)" "0 \<notin> set (drop (Suc n) bs)"
    using cstr_nul_free [OF assms(1)] by (auto dest: in_set_takeD in_set_dropD)
  have "?e \<notin> span s (length (take n bs))"
    using assms(2) len by (simp add: span_def unat_of_nat_64)
  then have "bytes_at (m(?e \<mapsto> 0)) s (take n bs @ [0])"
    using parts(1) assms(2) by (simp add: bytes_at_append bytes_at_Cons bytes_at_upd)
  with nul(1) show "cstr (m(?e \<mapsto> 0)) s (take n bs)" by (simp add: cstr_def)
  have "unat (?e - (?e + 1)) = 2 ^ 64 - 1"
    by (simp add: unsigned_minus_1_eq_mask mask_eq_exp_minus_1)
  then have "?e \<notin> span (?e + 1) (length (drop (Suc n) bs @ [0]))"
    using assms(2) len by (simp add: span_def)
  then have "bytes_at (m(?e \<mapsto> 0)) (?e + 1) (drop (Suc n) bs @ [0])"
    using parts(2) by (subst bytes_at_upd)
  with nul(2) show "cstr (m(?e \<mapsto> 0)) (?e + 1) (drop (Suc n) bs)" by (simp add: cstr_def)
qed

lemma cstr_drop: "cstr m s bs \<Longrightarrow> n \<le> length bs \<Longrightarrow> cstr m (s + of_nat n) (drop n bs)"
  using cstr_append [of m s "take n bs" "drop n bs"] by simp

lemma nth_nul_free: "0 \<notin> set bs \<Longrightarrow> n < length bs \<Longrightarrow> bs ! n \<noteq> 0"
  by (metis nth_mem)

lemma load_cstr_end:
  assumes "cstr m s bs" "n \<le> length bs"
  obtains b where "load m (s + of_nat n) = Some b" "b = 0 \<longleftrightarrow> n = length bs"
  using load_cstr [OF assms] nth_nul_free [OF cstr_nul_free [OF assms(1)], of n] assms(2)
  by (auto simp: nth_append split: if_splits)

lemma span_out_less: "span_out cs bs < length bs \<longleftrightarrow> set bs \<inter> set cs \<noteq> {}"
  by (induction bs) (simp_all add: span_out_def)

lemma strpbrk_cstr [loop_specs]:
  assumes "cstr m s bs" "cstr m b cs"
  shows "strpbrk m s b
    = Some (if span_out cs bs < length bs then s + of_nat (span_out cs bs) else 0)"
proof -
  obtain x where "load m (s + of_nat (span_out cs bs)) = Some x" "x = 0 \<longleftrightarrow> span_out cs bs = length bs"
    using assms(1) span_out_le by (rule load_cstr_end)
  with strcspn_cstr [OF assms] span_out_le [of cs bs] show ?thesis
    by (auto simp: strpbrk_def)
qed

lemma strsep_cstr [loop_specs]:
  assumes "cstr m s bs" "cstr m sep cs" "s \<noteq> 0"
  defines "n \<equiv> span_out cs bs"
  shows "strsep m s sep
    = Some (if n < length bs then (s, s + of_nat n + 1, m(s + of_nat n \<mapsto> 0)) else (s, 0, m))"
proof -
  have n: "n \<le> length bs" unfolding n_def by (rule span_out_le)
  obtain x where x: "load m (s + of_nat n) = Some x" "x = 0 \<longleftrightarrow> n = length bs"
    using assms(1) n by (rule load_cstr_end)
  then have "store m (s + of_nat n) 0 = Some (m(s + of_nat n \<mapsto> 0))"
    by (simp add: store_mapped load_def)
  with x n strcspn_cstr [OF assms(1,2)] assms(3) show ?thesis
    by (auto simp: strsep_def n_def Let_def)
qed

text \<open>One step of \<open>strtok\<close>, from the argument or from the saved pointer.\<close>

lemma strtok_cstr [loop_specs]:
  assumes "cstr m p bs" "cstr m sep cs" "p \<noteq> 0" "p = (if s = 0 then st else s)"
  defines "n \<equiv> span_in cs bs" and "k \<equiv> span_out cs (drop (span_in cs bs) bs)"
  shows "strtok m st s sep = Some
    (if n = length bs then (0, 0, m)
     else if n + k < length bs
       then (p + of_nat n, p + of_nat (n + k) + 1, m(p + of_nat (n + k) \<mapsto> 0))
     else (p + of_nat n, 0, m))"
proof -
  have n: "n \<le> length bs" unfolding n_def by (rule span_in_le)
  note rest = cstr_drop [OF assms(1) n]
  have k: "k \<le> length bs - n" unfolding n_def k_def using span_out_le [of cs "drop (span_in cs bs) bs"] by simp
  obtain x where x: "load m (p + of_nat n) = Some x" "x = 0 \<longleftrightarrow> n = length bs"
    using assms(1) n by (rule load_cstr_end)
  have nk: "n + k \<le> length bs" using n k by simp
  obtain y where y: "load m (p + of_nat (n + k)) = Some y" "y = 0 \<longleftrightarrow> n + k = length bs"
    by (rule load_cstr_end [OF assms(1) nk])
  then have "store m (p + of_nat (n + k)) 0 = Some (m(p + of_nat (n + k) \<mapsto> 0))"
    by (simp add: store_mapped load_def)
  with x y n k strspn_cstr [OF assms(1,2), folded n_def]
    strcspn_cstr [OF rest assms(2), folded k_def n_def, unfolded n_def, folded k_def, folded n_def] assms(3,4)
  show ?thesis
    by (auto simp: strtok_def strtok_r_def Let_def add.assoc)
qed

lemma strtok_done: "strtok m 0 0 sep = Some (0, 0, m)"
  by (simp add: strtok_def strtok_r_def)

subsection \<open>All tokens of a string\<close>

text \<open>The maximal runs of bytes that are not separators.\<close>

function tokens :: "u8 list \<Rightarrow> u8 list \<Rightarrow> u8 list list" where
  "tokens cs bs =
     (let r = drop (span_in cs bs) bs; k = span_out cs r in
      if r = [] then []
      else if k < length r then take k r # tokens cs (drop (Suc k) r)
      else [r])"
  by auto
termination
  by (relation "measure (length \<circ> snd)") (auto simp: not_less)

declare tokens.simps [simp del]

text \<open>The calls of a client: the string first, then NULL until the result is NULL.\<close>

fun strtok_calls :: "nat \<Rightarrow> mem \<Rightarrow> ptr \<Rightarrow> ptr \<Rightarrow> ptr \<Rightarrow> (ptr list \<times> mem) option" where
  "strtok_calls 0 m st s sep = None"
| "strtok_calls (Suc k) m st s sep = do {
     (r, st', m') \<leftarrow> strtok m st s sep;
     if r = 0 then Some ([], m')
     else do { (rs, m'') \<leftarrow> strtok_calls k m' st' 0 sep; Some (r # rs, m'') }
   }"

lemma strtok_calls_Cons:
  "strtok m st s sep = Some (r, st', m') \<Longrightarrow> r \<noteq> 0 \<Longrightarrow>
   strtok_calls k m' st' 0 sep = Some (rs, m'') \<Longrightarrow> strtok_calls (Suc k) m st s sep = Some (r # rs, m'')"
  by simp

lemma cstr_frame:
  assumes "cstr m p bs" "\<forall>a\<in>span p (Suc (length bs)). m' a = m a"
  shows "cstr m' p bs"
  using assms add_in_span [of _ "Suc (length bs)" p] by (auto simp: cstr_def bytes_at_def)

text \<open>A call that finds a token with a separator behind it: the token is cut out, the rest is left.\<close>

lemma strtok_cut:
  assumes "cstr m p bs" "cstr m sep cs" "p \<noteq> 0" "p = (if s = 0 then st else s)"
    and fits: "unat p + length bs < 2 ^ 64" and apart: "disjoint_spans p (length bs) sep (Suc (length cs))"
    and r: "r = drop (span_in cs bs) bs" and k: "k = span_out cs r" "k < length r"
  obtains t q m1 where "strtok m st s sep = Some (t, q, m1)" "t \<noteq> 0" "q \<noteq> 0"
    "cstr m1 t (take k r)" "cstr m1 q (drop (Suc k) r)" "cstr m1 sep cs"
    "\<forall>a. a \<notin> span p (length bs) \<longrightarrow> m1 a = m a"
    "span q (length (drop (Suc k) r)) \<subseteq> span p (length bs)"
    "unat q + length (drop (Suc k) r) < 2 ^ 64"
    "disjoint_spans t (Suc k) q (length (drop (Suc k) r))"
proof -
  define n where "n = span_in cs bs"
  let ?t = "p + of_nat n" and ?e = "p + of_nat (n + k)"
  let ?q = "?e + 1" and ?m = "m(?e \<mapsto> 0)"
  have n: "n \<le> length bs" unfolding n_def by (rule span_in_le)
  have len: "length r = length bs - n" "n + k < length bs" "n < length bs"
    using k(2) by (simp_all add: r n_def)
  have call: "strtok m st s sep = Some (?t, ?q, ?m)"
    using strtok_cstr [OF assms(1-4)] len(2,3) unfolding n_def k(1) r by simp
  have str: "cstr m ?t r" unfolding r n_def [symmetric] using assms(1) n by (rule cstr_drop)
  have te: "?t + of_nat k = ?e" by (simp add: add.assoc)
  have q: "?q = p + of_nat (Suc (n + k))" by (simp add: add.assoc)
  have u: "unat ?t = unat p + n" "unat ?q = unat p + Suc (n + k)"
    unfolding q using len fits by (intro unat_add_of_nat; linarith)+
  moreover have "unat p \<noteq> 0" using assms(3) by (simp add: unat_eq_0)
  ultimately have nz: "?t \<noteq> 0" "?q \<noteq> 0" by (metis add_is_0 unsigned_0)+
  have e: "?e \<in> span p (length bs)" using len by (intro add_in_span) simp
  then have sep: "cstr ?m sep cs" using assms(2) apart by (subst cstr_upd) auto
  have sub: "span ?q (length (drop (Suc k) r)) \<subseteq> span p (length bs)"
    using len u(2) fits k(2) by (auto simp: in_span_nowrap)
  have "unat ?q + length (drop (Suc k) r) < 2 ^ 64" using len u(2) fits k(2) by simp
  moreover have "disjoint_spans ?t (Suc k) ?q (length (drop (Suc k) r))"
    using len u fits k(2) by (auto simp: in_span_nowrap)
  ultimately show ?thesis
    using that [OF call nz cut_cstr [OF str k(2), unfolded te] sep _ sub] e by auto
qed

lemma strtok_calls_tokens:
  assumes "cstr m p bs" "cstr m sep cs" "p \<noteq> 0" "p = (if s = 0 then st else s)"
    and "unat p + length bs < 2 ^ 64" "disjoint_spans p (length bs) sep (Suc (length cs))"
  shows "\<exists>rs m'. strtok_calls (Suc (length (tokens cs bs))) m st s sep = Some (rs, m')
    \<and> list_all2 (cstr m') rs (tokens cs bs) \<and> (\<forall>a. a \<notin> span p (length bs) \<longrightarrow> m' a = m a)"
  using assms
proof (induction bs arbitrary: m p s st rule: length_induct)
  case (1 bs)
  note step = strtok_cstr [OF "1.prems"(1-4)]
  define n where "n = span_in cs bs"
  define r where "r = drop n bs"
  define k where "k = span_out cs r"
  have n: "n \<le> length bs" unfolding n_def by (rule span_in_le)
  have k: "k \<le> length r" unfolding k_def by (rule span_out_le)
  have r: "length r = length bs - n" by (simp add: r_def)
  have toks: "tokens cs bs = (if r = [] then [] else if k < length r
      then take k r # tokens cs (drop (Suc k) r) else [r])"
    by (subst tokens.simps) (simp add: r_def k_def n_def Let_def)
  consider "n = length bs" | "k < length r" | "n < length bs" "k = length r" using n k by linarith
  then show ?case
  proof cases
    case 1
    then show ?thesis using step toks r by (simp add: n_def)
  next
    case 2
    let ?bs = "drop (Suc k) r"
    obtain t q m1 where cut: "strtok m st s sep = Some (t, q, m1)" "t \<noteq> 0" "q \<noteq> 0"
      "cstr m1 t (take k r)" "cstr m1 q ?bs" "cstr m1 sep cs"
      "\<forall>a. a \<notin> span p (length bs) \<longrightarrow> m1 a = m a" "span q (length ?bs) \<subseteq> span p (length bs)"
      "unat q + length ?bs < 2 ^ 64" "disjoint_spans t (Suc k) q (length ?bs)"
      using strtok_cut [OF "1.prems" r_def [unfolded n_def] k_def 2] .
    have "length ?bs < length bs" "disjoint_spans q (length ?bs) sep (Suc (length cs))"
      using 2 r cut(8) "1.prems"(6) by auto
    then obtain rs m' where IH: "strtok_calls (Suc (length (tokens cs ?bs))) m1 q 0 sep = Some (rs, m')"
      "list_all2 (cstr m') rs (tokens cs ?bs)" "\<forall>a. a \<notin> span q (length ?bs) \<longrightarrow> m' a = m1 a"
      using "1.IH" [rule_format, of ?bs m1 q 0 q] cut(3,5,6,9) by auto
    have "cstr m' t (take k r)"
      using cut(4,10) IH(3) 2 by (intro cstr_frame [OF cut(4)]) auto
    moreover have "tokens cs bs = take k r # tokens cs ?bs" using toks 2 by auto
    moreover have "\<forall>a. a \<notin> span p (length bs) \<longrightarrow> m' a = m a" using IH(3) cut(7,8) by auto
    ultimately show ?thesis
      using strtok_calls_Cons [OF cut(1,2) IH(1)] IH(2)
      by (intro exI [of _ "t # rs"] exI [of _ m']) (simp del: strtok_calls.simps)
  next
    case 3
    then have "strtok m st s sep = Some (p + of_nat n, 0, m)"
      using step r by (simp add: n_def [symmetric] k_def r_def)
    moreover have "cstr m (p + of_nat n) r" unfolding r_def using "1.prems"(1) n by (rule cstr_drop)
    moreover have "unat p \<noteq> 0" using "1.prems"(3) by (simp add: unat_eq_0)
    then have "p + of_nat n \<noteq> 0"
      using unat_add_of_nat [of p n] n "1.prems"(5) by (metis add_is_0 le_less_trans nat_add_left_cancel_le unsigned_0)
    ultimately show ?thesis using toks 3 r by (auto simp: strtok_done)
  qed
qed


subsection \<open>Case-insensitive loops\<close>

lemma strcasecmp_loop_cstr:
  "cstr m l xs \<Longrightarrow> cstr m r ys \<Longrightarrow>
   strcasecmp_loop m l r
     = Some (byte_diff (map fold_byte xs @ [0]) (map fold_byte ys @ [0]))"
proof (induction xs arbitrary: l r ys)
  case Nil
  then show ?case
    by (cases ys) (subst strcasecmp_loop.simps, auto simp: load_def cstr_Cons fold.fold_0 [THEN iffD2] fold.fold_0)+
next
  case (Cons x xs)
  then show ?case using Cons.IH [of "l + 1" "r + 1" "tl ys"]
    by (cases ys) (subst strcasecmp_loop.simps, auto simp: load_def cstr_Cons fold.fold_0 [THEN iffD2] fold.fold_0)+
qed

lemma strncasecmp_loop_nstr:
  "nstr m l (Suc k) xs \<Longrightarrow> nstr m r (Suc k) ys \<Longrightarrow> unat n = k \<Longrightarrow>
   strncasecmp_loop m l r n
     = Some (byte_diff (map fold_byte xs @ [0]) (map fold_byte ys @ [0]))"
proof (induction k arbitrary: l r n xs ys)
  case 0
  then show ?case
    by (cases xs; cases ys; subst strncasecmp_loop.simps)
       (auto simp: load_def until_Suc_Nil until_Suc_Cons unat_eq_0 fold.fold_0 fold.fold_0 [THEN iffD2])
next
  case (Suc k)
  note down = count_down [OF Suc.prems(3)]
  from Suc.prems(1,2) down Suc.IH [of "l + 1" "tl xs" "r + 1" "tl ys" "n - 1"] show ?case
    by (cases xs; cases ys; subst strncasecmp_loop.simps)
       (auto simp: load_def until_Suc_Nil until_Suc_Cons fold.fold_0 fold.fold_0 [THEN iffD2])
qed

lemma folded_diff_sign:
  assumes "0 \<notin> set xs" "0 \<notin> set ys"
  shows "(sint (byte_diff (map fold_byte xs @ [0]) (map fold_byte ys @ [0])) < 0
      \<longleftrightarrow> map fold_byte xs < map fold_byte ys)
    \<and> (byte_diff (map fold_byte xs @ [0]) (map fold_byte ys @ [0]) = 0
      \<longleftrightarrow> map fold_byte xs = map fold_byte ys)
    \<and> (sint (byte_diff (map fold_byte xs @ [0]) (map fold_byte ys @ [0])) > 0
      \<longleftrightarrow> map fold_byte ys < map fold_byte xs)"
  using assms by (intro string_diff_sign) (simp_all only: fold.map_nul_free not_False_eq_True)

lemma strncasecmp_nstr [loop_specs]:
  assumes "nstr m l (unat n) xs" "nstr m r (unat n) ys"
  shows "strncasecmp m l r n = Some (byte_diff (map fold_byte xs @ [0]) (map fold_byte ys @ [0]))"
proof (cases "unat n")
  case 0
  then show ?thesis using assms by (simp add: strncasecmp_def unat_eq_0)
next
  case (Suc k)
  then show ?thesis using assms strncasecmp_loop_nstr [of m l k xs r ys "n - 1"]
    by (simp add: strncasecmp_def count_down)
qed


subsection \<open>Properties\<close>

text \<open>
  C12. \<open>strstr\<close> finds the first occurrence: when the needle occurs in the haystack it returns
  the address of an occurrence before which there is none, and otherwise NULL; the empty
  needle is found at once.
\<close>

theorem strstr_correct:
  assumes "cstr m h xs" "cstr m n ys"
  shows "if sublist ys xs
    then \<exists>i. strstr m h n = Some (h + of_nat i) \<and> i \<le> length xs \<and> prefix ys (drop i xs)
      \<and> (\<forall>j<i. \<not> prefix ys (drop j xs))
    else strstr m h n = Some 0"
proof (cases "occurrence ys xs")
  case None
  then have "\<not> sublist ys xs" using occurrence_None [of ys xs] by simp
  with None show ?thesis using strstr_cstr [OF assms] by simp
next
  case (Some i)
  then have "sublist ys xs" using occurrence_None [of ys xs] by auto
  with Some occurrence_Some [OF Some] strstr_cstr [OF assms] show ?thesis
    by (auto simp: prefix_def)
qed

lemma strstr_correct_witness:
  "strstr (mem_of 4096 [97, 98, 97, 98, 0, 98, 0]) 4096 4101 = Some 4097"
proof -
  have "\<exists>i. strstr (mem_of 4096 [97, 98, 97, 98, 0, 98, 0]) 4096 4101 = Some (4096 + of_nat i)
      \<and> i \<le> length [97, 98, 97, 98 :: u8] \<and> prefix [98] (drop i [97, 98, 97, 98 :: u8])
      \<and> (\<forall>j<i. \<not> prefix [98] (drop j [97, 98, 97, 98 :: u8]))"
    using strstr_correct
      [of "mem_of 4096 [97, 98, 97, 98, 0, 98, 0]" 4096 "[97, 98, 97, 98]" 4101 "[98]"]
    by (simp add: mem_eval sublist_Cons_right)
  then obtain i where i: "strstr (mem_of 4096 [97, 98, 97, 98, 0, 98, 0]) 4096 4101 = Some (4096 + of_nat i)"
    "prefix [98] (drop i [97, 98, 97, 98 :: u8])" "\<forall>j<i. \<not> prefix [98] (drop j [97, 98, 97, 98 :: u8])"
    by blast
  have "i \<noteq> 0" using i(2) by (rule_tac notI) simp
  moreover have "\<not> 1 < i" using i(3) by auto
  ultimately have "i = 1" by simp
  with i(1) show ?thesis by simp
qed

text \<open>
  C25. \<open>strspn\<close> and \<open>strcspn\<close> return the length of the longest prefix of the string made of
  bytes of the set, and of bytes outside it: the one-byte fast paths and the 256-bit byte set
  give the same answer as membership in the second string.
\<close>

theorem strspn_strcspn_correct:
  assumes "cstr m s bs" "cstr m c cs"
  shows "strspn m s c = Some (of_nat (length (takeWhile (\<lambda>x. x \<in> set cs) bs)))
    \<and> strcspn m s c = Some (of_nat (length (takeWhile (\<lambda>x. x \<notin> set cs) bs)))"
  using strspn_cstr [OF assms] strcspn_cstr [OF assms] by (simp add: span_in_def span_out_def)

lemma strspn_strcspn_correct_witness:
  "strspn (mem_of 4096 [97, 200, 99, 0, 200, 97, 0]) 4096 4100 = Some 2"
  using strspn_strcspn_correct
    [of "mem_of 4096 [97, 200, 99, 0, 200, 97, 0]" 4096 "[97, 200, 99]" 4100 "[200, 97]"]
  by (simp add: mem_eval)

text \<open>
  \<open>strpbrk\<close> returns the address of the first byte of the string that is in the second
  string, and NULL when none is.
\<close>

theorem strpbrk_correct:
  assumes "cstr m s bs" "cstr m b cs"
  shows "strpbrk m s b = Some (if set bs \<inter> set cs = {} then 0
    else s + of_nat (length (takeWhile (\<lambda>x. x \<notin> set cs) bs)))"
  using strpbrk_cstr [OF assms] span_out_less [of cs bs] by (simp add: span_out_def)

lemma strpbrk_correct_witness:
  "strpbrk (mem_of 4096 [97, 98, 0, 98, 0]) 4096 4099 = Some 4097"
  using strpbrk_correct [of "mem_of 4096 [97, 98, 0, 98, 0]" 4096 "[97, 98]" 4099 "[98]"]
  by (simp add: mem_eval)

text \<open>
  \<open>strsep\<close> cuts the next field off: it returns the head, replaces the first separator
  by a NUL and leaves the head after it, so that the field and the rest are the two parts of
  the old string around the separator; without a separator the field is the whole string, the
  head becomes NULL and the memory is unchanged. A NULL head stays NULL.
\<close>

theorem strsep_correct:
  assumes "cstr m s bs" "cstr m sep cs" "s \<noteq> 0"
  shows "if set bs \<inter> set cs = {} then strsep m s sep = Some (s, 0, m)
    else \<exists>fld c rest head m'. strsep m s sep = Some (s, head, m') \<and> bs = fld @ c # rest
      \<and> c \<in> set cs \<and> set fld \<inter> set cs = {} \<and> cstr m' s fld \<and> cstr m' head rest
      \<and> m' = m(s + of_nat (length fld) \<mapsto> 0)"
proof -
  define n where "n = span_out cs bs"
  have n: "n < length bs \<longleftrightarrow> set bs \<inter> set cs \<noteq> {}"
    unfolding n_def by (rule span_out_less)
  have fld: "take n bs = takeWhile (\<lambda>x. x \<notin> set cs) bs"
    by (simp add: n_def span_out_def takeWhile_eq_take [symmetric])
  show ?thesis
  proof (cases "n < length bs")
    case True
    have "bs ! n \<in> set cs"
      using nth_length_takeWhile [of "\<lambda>x. x \<notin> set cs" bs] True by (simp add: n_def span_out_def)
    moreover have "set (take n bs) \<inter> set cs = {}"
      unfolding fld by (auto dest: set_takeWhileD)
    moreover note cut_cstr [OF assms(1) True] strsep_cstr [OF assms, folded n_def]
      id_take_nth_drop [OF True]
    ultimately have "\<exists>fld c rest head m'. strsep m s sep = Some (s, head, m') \<and> bs = fld @ c # rest
      \<and> c \<in> set cs \<and> set fld \<inter> set cs = {} \<and> cstr m' s fld \<and> cstr m' head rest
      \<and> m' = m(s + of_nat (length fld) \<mapsto> 0)"
      using True by (intro exI [of _ "take n bs"] exI [of _ "bs ! n"] exI [of _ "drop (Suc n) bs"]
        exI [of _ "s + of_nat n + 1"] exI [of _ "m(s + of_nat n \<mapsto> 0)"]) simp
    with True n show ?thesis by simp
  next
    case False
    with n strsep_cstr [OF assms, folded n_def] show ?thesis by simp
  qed
qed

lemma strsep_correct_witness:
  "strsep (mem_of 4096 [97, 98, 0, 44, 0]) 4096 4099
   = Some (4096, 0, mem_of 4096 [97, 98, 0, 44, 0])"
  using strsep_correct [of "mem_of 4096 [97, 98, 0, 44, 0]" 4096 "[97, 98]" 4099 "[44]"]
  by (simp add: mem_eval)

text \<open>
  C7. Calling \<open>strtok\<close> on a string and then on NULL until it returns NULL yields the
  addresses of exactly the tokens of the string, in order: in the final memory each address
  holds its token as a C string, and no byte outside the string has changed. The calls end
  after one more than the number of tokens.
\<close>

theorem strtok_tokenizes:
  assumes "cstr m s bs" "cstr m sep cs" "s \<noteq> 0" "unat s + length bs < 2 ^ 64"
    and "disjoint_spans s (length bs) sep (Suc (length cs))"
  shows "\<exists>rs m'. strtok_calls (Suc (length (tokens cs bs))) m st s sep = Some (rs, m')
    \<and> list_all2 (cstr m') rs (tokens cs bs) \<and> (\<forall>a. a \<notin> span s (length bs) \<longrightarrow> m' a = m a)"
  using assms(3) by (intro strtok_calls_tokens [OF assms(1-3) _ assms(4,5)]) simp

lemma strtok_tokenizes_witness:
  "\<exists>rs m'. strtok_calls (Suc (length (tokens [44] [97, 44, 44, 98])))
      (mem_of 4096 [97, 44, 44, 98, 0, 44, 0]) 0 4096 4101 = Some (rs, m')
    \<and> list_all2 (cstr m') rs (tokens [44] [97, 44, 44, 98])
    \<and> (\<forall>a. a \<notin> span 4096 (length [97, 44, 44, 98 :: u8])
         \<longrightarrow> m' a = mem_of 4096 [97, 44, 44, 98, 0, 44, 0] a)"
proof (rule strtok_tokenizes)
  show "cstr (mem_of 4096 [97, 44, 44, 98, 0, 44, 0]) 4096 [97, 44, 44, 98]"
    and "cstr (mem_of 4096 [97, 44, 44, 98, 0, 44, 0]) 4101 [44]"
    by (simp_all add: mem_eval)
  show "disjoint_spans 4096 (length [97, 44, 44, 98 :: u8]) 4101 (Suc (length [44 :: u8]))"
    by (rule disjoint_spans_le) simp_all
qed simp_all

text \<open>
  \<open>strcasecmp\<close> is \<open>strcmp\<close> of the two strings with their ASCII letters folded to
  lower case.
\<close>

theorem strcasecmp_correct:
  assumes "cstr m l xs" "cstr m r ys"
  shows "\<exists>c. strcasecmp m l r = Some c
    \<and> (sint c < 0 \<longleftrightarrow> map fold_byte xs < map fold_byte ys)
    \<and> (c = 0 \<longleftrightarrow> map fold_byte xs = map fold_byte ys)
    \<and> (sint c > 0 \<longleftrightarrow> map fold_byte ys < map fold_byte xs)"
  using strcasecmp_loop_cstr [OF assms]
    folded_diff_sign [OF cstr_nul_free [OF assms(1)] cstr_nul_free [OF assms(2)]]
  by (simp add: strcasecmp_def)

lemma strcasecmp_correct_witness:
  "\<exists>c. strcasecmp (mem_of 4096 [65, 0, 97, 0]) 4096 4098 = Some c \<and> c = 0"
proof -
  have "map fold_byte [65] = map fold_byte [97]"
    by (simp add: word_uint_eq_iff fold_byte_uint)
  then show ?thesis
    using strcasecmp_correct [of "mem_of 4096 [65, 0, 97, 0]" 4096 "[65]" 4098 "[97]"]
    by (auto simp: mem_eval)
qed

text \<open>
  \<open>strncasecmp\<close> compares the first \<open>n\<close> bytes of the two strings, folded, in the same
  order, and reads no byte after them.
\<close>

theorem strncasecmp_correct:
  assumes "nstr m l (unat n) xs" "nstr m r (unat n) ys"
  shows "\<exists>c. strncasecmp m l r n = Some c
    \<and> (sint c < 0 \<longleftrightarrow> map fold_byte xs < map fold_byte ys)
    \<and> (c = 0 \<longleftrightarrow> map fold_byte xs = map fold_byte ys)
    \<and> (sint c > 0 \<longleftrightarrow> map fold_byte ys < map fold_byte xs)"
  using strncasecmp_nstr [OF assms]
    folded_diff_sign [OF nstr_nul_free [OF assms(1)] nstr_nul_free [OF assms(2)]]
  by simp

lemma strncasecmp_correct_witness:
  "\<exists>c. strncasecmp (mem_of 4096 [66, 9, 98, 8]) 4096 4098 1 = Some c \<and> c = 0"
proof -
  have "map fold_byte [66] = map fold_byte [98]"
    by (simp add: word_uint_eq_iff fold_byte_uint)
  then show ?thesis
    using strncasecmp_correct [of "mem_of 4096 [66, 9, 98, 8]" 4096 1 "[66]" 4098 "[98]"]
    by (auto simp: mem_eval until_def)
qed

end
