(* ===== verification/Sort.thy ===== *)
theory Sort
  imports Mem_Ops "HOL-Library.Multiset"
begin

section \<open>Sorting and searching\<close>

text \<open>
  \<open>mytilus-stdlib/src/sort.rs\<close>: the in-place heapsort behind \<open>qsort\<close> and
  \<open>qsort_r\<close>, and \<open>bsearch\<close>. A comparator is foreign code called through a
  pointer: a parameter that reads the memory, two element addresses and the context. The
  memory-level loops refine a heapsort on the list of elements, which is proved correct inside
  the locale \<open>comparator\<close>, the contract of the comparator.
\<close>

subsection \<open>Definitions\<close>

type_synonym CmpFn = "mem \<Rightarrow> ptr \<Rightarrow> ptr \<Rightarrow> c_int option"
type_synonym CmpFnR = "mem \<Rightarrow> ptr \<Rightarrow> ptr \<Rightarrow> ptr \<Rightarrow> c_int option"

definition elt :: "ptr \<Rightarrow> size_t \<Rightarrow> size_t \<Rightarrow> ptr" where
  "elt base width i = base + i * width"

partial_function (option) swap_loop ::
  "mem \<Rightarrow> ptr \<Rightarrow> ptr \<Rightarrow> size_t \<Rightarrow> size_t \<Rightarrow> mem option" where
  "swap_loop m a b width i =
     (if i < width then do {
        t \<leftarrow> load m (a + i);
        x \<leftarrow> load m (b + i);
        m1 \<leftarrow> store m (a + i) x;
        m2 \<leftarrow> store m1 (b + i) t;
        swap_loop m2 a b width (i + 1)
      } else Some m)"

definition swap_bytes :: "mem \<Rightarrow> ptr \<Rightarrow> ptr \<Rightarrow> size_t \<Rightarrow> mem option" where
  "swap_bytes m a b width = swap_loop m a b width 0"

partial_function (option) sift_down ::
  "mem \<Rightarrow> ptr \<Rightarrow> size_t \<Rightarrow> size_t \<Rightarrow> size_t \<Rightarrow> CmpFnR \<Rightarrow> ptr \<Rightarrow> mem option" where
  "sift_down m base n width i cmp ctx =
     (let child = 2 * i + 1 in
      if child \<ge> n then Some m
      else do {
        right \<leftarrow> (if child + 1 < n then do {
             s \<leftarrow> cmp m (elt base width child) (elt base width (child + 1)) ctx;
             Some (s <s 0)
           } else Some False);
        let child = (if right then child + 1 else child);
        s \<leftarrow> cmp m (elt base width i) (elt base width child) ctx;
        if 0 \<le>s s then Some m
        else do {
          m' \<leftarrow> swap_bytes m (elt base width i) (elt base width child) width;
          sift_down m' base n width child cmp ctx
        }
      })"

partial_function (option) build_heap ::
  "mem \<Rightarrow> ptr \<Rightarrow> size_t \<Rightarrow> size_t \<Rightarrow> size_t \<Rightarrow> CmpFnR \<Rightarrow> ptr \<Rightarrow> mem option" where
  "build_heap m base n width i cmp ctx =
     (if i > 0 then do {
        m' \<leftarrow> sift_down m base n width (i - 1) cmp ctx;
        build_heap m' base n width (i - 1) cmp ctx
      } else Some m)"

partial_function (option) extract_max ::
  "mem \<Rightarrow> ptr \<Rightarrow> size_t \<Rightarrow> size_t \<Rightarrow> CmpFnR \<Rightarrow> ptr \<Rightarrow> mem option" where
  "extract_max m base width e cmp ctx =
     (if e > 1 then do {
        let e = e - 1;
        m1 \<leftarrow> swap_bytes m base (elt base width e) width;
        m2 \<leftarrow> sift_down m1 base e width 0 cmp ctx;
        extract_max m2 base width e cmp ctx
      } else Some m)"

definition heapsort :: "mem \<Rightarrow> ptr \<Rightarrow> size_t \<Rightarrow> size_t \<Rightarrow> CmpFnR \<Rightarrow> ptr \<Rightarrow> mem option" where
  "heapsort m base n width cmp ctx =
     (if n < 2 \<or> width = 0 then Some m
      else do {
        m' \<leftarrow> build_heap m base n width (n div 2) cmp ctx;
        extract_max m' base width n cmp ctx
      })"

text \<open>
  A two-argument comparator is passed as the address of its code: \<open>fns\<close> is what a call
  through a function pointer runs. \<open>qsort\<close> hands the address to the adapter as context.
\<close>

definition qsort_2to3_adapter :: "(ptr \<Rightarrow> CmpFn) \<Rightarrow> CmpFnR" where
  "qsort_2to3_adapter fns m a b ctx = fns ctx m a b"

definition qsort_r :: "mem \<Rightarrow> ptr \<Rightarrow> size_t \<Rightarrow> size_t \<Rightarrow> CmpFnR \<Rightarrow> ptr \<Rightarrow> mem option" where
  "qsort_r m base nel width cmp ctx = heapsort m base nel width cmp ctx"

definition qsort :: "(ptr \<Rightarrow> CmpFn) \<Rightarrow> mem \<Rightarrow> ptr \<Rightarrow> size_t \<Rightarrow> size_t \<Rightarrow> ptr \<Rightarrow> mem option" where
  "qsort fns m base nel width cmp = qsort_r m base nel width (qsort_2to3_adapter fns) cmp"

partial_function (option) bsearch_loop ::
  "mem \<Rightarrow> ptr \<Rightarrow> ptr \<Rightarrow> size_t \<Rightarrow> size_t \<Rightarrow> CmpFn \<Rightarrow> ptr option" where
  "bsearch_loop m key base nel width cmp =
     (if nel > 0 then do {
        let try = base + width * (nel div 2);
        sign \<leftarrow> cmp m key try;
        if sign <s 0 then bsearch_loop m key base (nel div 2) width cmp
        else if 0 <s sign
          then bsearch_loop m key (try + width) (nel - (nel div 2 + 1)) width cmp
        else Some try
      } else Some null_ptr)"

definition bsearch :: "mem \<Rightarrow> ptr \<Rightarrow> ptr \<Rightarrow> size_t \<Rightarrow> size_t \<Rightarrow> CmpFn \<Rightarrow> ptr option" where
  "bsearch m key base nel width cmp = bsearch_loop m key base nel width cmp"


subsection \<open>Heapsort on a list\<close>

text \<open>The reference: the same algorithm on the list of elements, with a comparison \<open>c\<close>.\<close>

definition swap :: "'e list \<Rightarrow> nat \<Rightarrow> nat \<Rightarrow> 'e list" where
  "swap xs i j = xs[i := xs ! j, j := xs ! i]"

definition larger_child :: "('e \<Rightarrow> 'e \<Rightarrow> c_int) \<Rightarrow> nat \<Rightarrow> nat \<Rightarrow> 'e list \<Rightarrow> nat" where
  "larger_child c n i xs =
     (if 2 * i + 2 < n \<and> sint (c (xs ! (2 * i + 1)) (xs ! (2 * i + 2))) < 0
      then 2 * i + 2 else 2 * i + 1)"

lemma larger_child_bounds:
  "2 * i + 1 < n \<Longrightarrow> i < larger_child c n i xs \<and> larger_child c n i xs < n"
  by (simp add: larger_child_def)

function sift :: "('e \<Rightarrow> 'e \<Rightarrow> c_int) \<Rightarrow> nat \<Rightarrow> nat \<Rightarrow> 'e list \<Rightarrow> 'e list" where
  "sift c n i xs =
     (if 2 * i + 1 \<ge> n \<or> sint (c (xs ! i) (xs ! larger_child c n i xs)) \<ge> 0 then xs
      else sift c n (larger_child c n i xs) (swap xs i (larger_child c n i xs)))"
  by auto
termination
proof (relation "measure (\<lambda>(c, n, i, xs). n - i)", simp)
  fix c :: "'e \<Rightarrow> 'e \<Rightarrow> c_int" and n i and xs :: "'e list"
  assume "\<not> (2 * i + 1 \<ge> n \<or> sint (c (xs ! i) (xs ! larger_child c n i xs)) \<ge> 0)"
  then show "((c, n, larger_child c n i xs, swap xs i (larger_child c n i xs)), c, n, i, xs)
      \<in> measure (\<lambda>(c, n, i, xs). n - i)"
    using larger_child_bounds [of i n c xs] by (simp add: diff_less_mono2 less_trans)
qed

declare sift.simps [simp del]

primrec build :: "('e \<Rightarrow> 'e \<Rightarrow> c_int) \<Rightarrow> nat \<Rightarrow> nat \<Rightarrow> 'e list \<Rightarrow> 'e list" where
  "build c n 0 xs = xs"
| "build c n (Suc k) xs = build c n k (sift c n k xs)"

text \<open>\<open>extract_all c e xs\<close>: the elements from index \<open>e + 1\<close> on are already in place.\<close>

primrec extract_all :: "('e \<Rightarrow> 'e \<Rightarrow> c_int) \<Rightarrow> nat \<Rightarrow> 'e list \<Rightarrow> 'e list" where
  "extract_all c 0 xs = xs"
| "extract_all c (Suc e) xs = extract_all c e (sift c (Suc e) 0 (swap xs 0 (Suc e)))"

definition heap_sort :: "('e \<Rightarrow> 'e \<Rightarrow> c_int) \<Rightarrow> 'e list \<Rightarrow> 'e list" where
  "heap_sort c xs = extract_all c (length xs - 1) (build c (length xs) (length xs div 2) xs)"

lemma length_swap [simp]: "length (swap xs i j) = length xs"
  by (simp add: swap_def)

lemma mset_swapped: "i < length xs \<Longrightarrow> j < length xs \<Longrightarrow> mset (swap xs i j) = mset xs"
  by (simp add: swap_def mset_swap)

lemma nth_swap:
  "i < length xs \<Longrightarrow> j < length xs \<Longrightarrow> k < length xs \<Longrightarrow>
   swap xs i j ! k = (if k = j then xs ! i else if k = i then xs ! j else xs ! k)"
  by (simp add: swap_def nth_list_update)

lemma drop_swap: "i < n \<Longrightarrow> j < n \<Longrightarrow> drop n (swap xs i j) = drop n xs"
  by (simp add: swap_def)

text \<open>What every sift keeps: the length, the elements, and the part behind the heap.\<close>

lemma sift_keeps:
  assumes "n \<le> length xs"
  shows "length (sift c n i xs) = length xs \<and> mset (sift c n i xs) = mset xs
    \<and> drop n (sift c n i xs) = drop n xs"
  using assms
proof (induction c n i xs rule: sift.induct)
  case (1 c n i xs)
  show ?case
  proof (cases "2 * i + 1 \<ge> n \<or> sint (c (xs ! i) (xs ! larger_child c n i xs)) \<ge> 0")
    case True
    then show ?thesis by (subst (1 2 3) sift.simps) simp
  next
    case False
    then have "i < n" "larger_child c n i xs < n"
      using larger_child_bounds [of i n c xs] by simp_all
    with 1 False show ?thesis
      by (subst (1 2 3) sift.simps) (simp add: mset_swapped drop_swap)
  qed
qed

lemmas length_sift = sift_keeps [THEN conjunct1]
lemmas mset_sift = sift_keeps [THEN conjunct2, THEN conjunct1]
lemmas drop_sift = sift_keeps [THEN conjunct2, THEN conjunct2]

lemma set_take_sift:
  assumes "n \<le> length xs"
  shows "set (take n (sift c n i xs)) = set (take n xs)"
proof -
  have "mset (take n (sift c n i xs)) + mset (drop n (sift c n i xs)) = mset (take n xs) + mset (drop n xs)"
    by (simp add: mset_sift [OF assms] flip: mset_append)
  then have "mset (take n (sift c n i xs)) = mset (take n xs)"
    by (simp add: drop_sift [OF assms])
  then show ?thesis by (metis set_mset_mset)
qed

lemma build_keeps:
  "n \<le> length xs \<Longrightarrow> length (build c n k xs) = length xs \<and> mset (build c n k xs) = mset xs"
  by (induction k arbitrary: xs) (simp_all add: length_sift mset_sift)

lemma extract_all_keeps:
  "e < length xs \<Longrightarrow> length (extract_all c e xs) = length xs \<and> mset (extract_all c e xs) = mset xs"
proof (induction e arbitrary: xs)
  case (Suc e)
  then have "0 < length xs" by linarith
  with Suc show ?case by (simp add: length_sift mset_sift mset_swapped del: length_greater_0_conv)
qed simp

lemma heap_sort_mset: "mset (heap_sort c xs) = mset xs" and length_heap_sort: "length (heap_sort c xs) = length xs"
  using build_keeps [of "length xs" xs c "length xs div 2"]
    extract_all_keeps [of "length xs - 1" "build c (length xs) (length xs div 2) xs" c]
  by (cases "xs = []"; simp add: heap_sort_def)+


subsection \<open>The contract of a comparator, and correctness of heapsort under it\<close>

definition le_by :: "('e \<Rightarrow> 'e \<Rightarrow> c_int) \<Rightarrow> 'e \<Rightarrow> 'e \<Rightarrow> bool" where
  "le_by c x y \<longleftrightarrow> sint (c x y) \<le> 0"

definition child :: "nat \<Rightarrow> nat \<Rightarrow> bool" where
  "child p ch \<longleftrightarrow> ch = 2 * p + 1 \<or> ch = 2 * p + 2"

text \<open>
  \<open>heap_from c k n xs\<close>: below index \<open>n\<close>, every parent from \<open>k\<close> on is at least its
  children; \<open>heap_except\<close> leaves out the edges below \<open>i\<close>, whose children the parent of
  \<open>i\<close> dominates.
\<close>

definition heap_from :: "('e \<Rightarrow> 'e \<Rightarrow> c_int) \<Rightarrow> nat \<Rightarrow> nat \<Rightarrow> 'e list \<Rightarrow> bool" where
  "heap_from c k n xs \<longleftrightarrow> (\<forall>p ch. k \<le> p \<and> child p ch \<and> ch < n \<longrightarrow> le_by c (xs ! ch) (xs ! p))"

definition heap_except :: "('e \<Rightarrow> 'e \<Rightarrow> c_int) \<Rightarrow> nat \<Rightarrow> nat \<Rightarrow> nat \<Rightarrow> 'e list \<Rightarrow> bool" where
  "heap_except c k n i xs \<longleftrightarrow>
     (\<forall>p ch. k \<le> p \<and> p \<noteq> i \<and> child p ch \<and> ch < n \<longrightarrow> le_by c (xs ! ch) (xs ! p))
     \<and> (\<forall>q ch. k \<le> q \<and> child q i \<and> child i ch \<and> ch < n \<longrightarrow> le_by c (xs ! ch) (xs ! q))"

lemma child_larger: "2 * i + 1 < n \<Longrightarrow> child i (larger_child c n i xs)"
  by (simp add: child_def larger_child_def)

lemma child_unique: "child p ch \<Longrightarrow> child q ch \<Longrightarrow> p = q"
  unfolding child_def by presburger

lemma child_less: "child p ch \<Longrightarrow> p < ch"
  by (auto simp: child_def)

locale comparator =
  fixes E :: "'e set" and c :: "'e \<Rightarrow> 'e \<Rightarrow> c_int"
  assumes sign_sym: "x \<in> E \<Longrightarrow> y \<in> E \<Longrightarrow> sint (c x y) < 0 \<longleftrightarrow> 0 < sint (c y x)"
    and cmp_trans: "x \<in> E \<Longrightarrow> y \<in> E \<Longrightarrow> z \<in> E \<Longrightarrow> le_by c x y \<Longrightarrow> le_by c y z \<Longrightarrow> le_by c x z"
begin

lemma not_lessD: "x \<in> E \<Longrightarrow> y \<in> E \<Longrightarrow> \<not> sint (c x y) < 0 \<Longrightarrow> le_by c y x"
  using sign_sym [of x y] by (simp add: le_by_def)

lemma cmp_refl: "x \<in> E \<Longrightarrow> le_by c x x"
  using sign_sym [of x x] by (force simp: le_by_def)

lemma lessD: "sint (c x y) < 0 \<Longrightarrow> le_by c x y"
  by (simp add: le_by_def)

lemma larger_child_max:
  assumes "set xs \<subseteq> E" "n \<le> length xs" "child i ch" "ch < n"
  shows "le_by c (xs ! ch) (xs ! larger_child c n i xs)"
proof -
  have E: "xs ! j \<in> E" if "j < n" for j using that assms(1,2) by (auto simp: subset_iff)
  show ?thesis
  proof (cases "2 * i + 2 < n")
    case True
    then show ?thesis
      using assms(3) E [of "2 * i + 1"] E [of "2 * i + 2"]
      by (auto simp: larger_child_def child_def intro: lessD not_lessD cmp_refl)
  next
    case False
    then have "ch = 2 * i + 1" using assms(3,4) by (auto simp: child_def)
    with False show ?thesis using E [OF assms(4)] by (simp add: larger_child_def cmp_refl)
  qed
qed

lemma swap_heap_except:
  assumes E: "set xs \<subseteq> E" and n: "n \<le> length xs" and k: "k \<le> i" and c1: "2 * i + 1 < n"
    and heap: "heap_except c k n i xs"
    and less: "sint (c (xs ! i) (xs ! larger_child c n i xs)) < 0"
  shows "heap_except c k n (larger_child c n i xs) (swap xs i (larger_child c n i xs))"
proof -
  let ?l = "larger_child c n i xs"
  let ?ys = "swap xs i ?l"
  have l: "i < ?l" "?l < n" "child i ?l"
    using larger_child_bounds [OF c1, of c xs] child_larger [OF c1] by simp_all
  have ys: "?ys ! j = (if j = ?l then xs ! i else if j = i then xs ! ?l else xs ! j)" if "j < n" for j
    using that n l by (intro nth_swap) simp_all
  have edge: "le_by c (xs ! ch) (xs ! p)" if "k \<le> p" "p \<noteq> i" "child p ch" "ch < n" for p ch
    using heap that by (auto simp: heap_except_def)
  have skip: "le_by c (xs ! ch) (xs ! q)" if "k \<le> q" "child q i" "child i ch" "ch < n" for q ch
    using heap that by (auto simp: heap_except_def)
  have "le_by c (?ys ! ch) (?ys ! p)" if p: "k \<le> p" "p \<noteq> ?l" "child p ch" "ch < n" for p ch
  proof (cases "p = i")
    case True
    then have "i < n" "ch \<noteq> i" using p child_less by (auto dest: order.strict_trans)
    with True show ?thesis
      using larger_child_max [OF E n, of i ch] p less lessD
      by (cases "ch = ?l") (simp_all add: ys l)
  next
    case False
    have "p < n" using p child_less order.strict_trans by blast
    have "ch \<noteq> ?l" using child_unique p(3) l(3) False by blast
    with False p \<open>p < n\<close> edge [OF p(1) False p(3,4)] skip [of p ?l] l show ?thesis
      by (cases "ch = i") (simp_all add: ys)
  qed
  moreover have "le_by c (?ys ! ch) (?ys ! q)"
    if "k \<le> q" "child q ?l" "child ?l ch" "ch < n" for q ch
  proof -
    have "q = i" using child_unique that(2) l(3) by blast
    moreover have "?l < ch" using that(3) by (rule child_less)
    moreover have "le_by c (xs ! ch) (xs ! ?l)" using that k l by (intro edge) simp_all
    ultimately show ?thesis using that l by (simp add: ys)
  qed
  ultimately show ?thesis by (simp add: heap_except_def)
qed

lemma stop_heap_from:
  assumes "set xs \<subseteq> E" "n \<le> length xs" "heap_except c k n i xs"
    and stop: "n \<le> 2 * i + 1 \<or> 0 \<le> sint (c (xs ! i) (xs ! larger_child c n i xs))"
  shows "heap_from c k n xs"
  unfolding heap_from_def
proof (intro allI impI)
  fix p ch
  assume p: "k \<le> p \<and> child p ch \<and> ch < n"
  show "le_by c (xs ! ch) (xs ! p)"
  proof (cases "p = i")
    case False
    with p assms(3) show ?thesis by (simp add: heap_except_def)
  next
    case True
    then have c1: "2 * i + 1 < n" using p by (auto simp: child_def)
    have E: "xs ! j \<in> E" if "j < n" for j using that assms(1,2) by (auto simp: subset_iff)
    note l = larger_child_bounds [OF c1, of c xs]
    have "le_by c (xs ! larger_child c n i xs) (xs ! i)"
      using stop c1 l E by (intro not_lessD) auto
    moreover have "le_by c (xs ! ch) (xs ! larger_child c n i xs)"
      using assms(1,2) p True by (intro larger_child_max) simp_all
    ultimately show ?thesis
      using True p l c1 cmp_trans [OF E E E, of ch "larger_child c n i xs" i] by simp
  qed
qed

lemma sift_heap:
  assumes "set xs \<subseteq> E" "n \<le> length xs" "k \<le> i" "heap_except c k n i xs"
  shows "heap_from c k n (sift c n i xs)"
  using assms
proof (induction "n - i" arbitrary: i xs rule: less_induct)
  case less
  let ?l = "larger_child c n i xs"
  show ?case
  proof (cases "2 * i + 1 \<ge> n \<or> sint (c (xs ! i) (xs ! ?l)) \<ge> 0")
    case True
    then show ?thesis using stop_heap_from [OF less.prems(1,2,4)] by (subst sift.simps) simp
  next
    case False
    then have c1: "2 * i + 1 < n" by simp
    note l = larger_child_bounds [OF c1, of c xs]
    have "set (swap xs i ?l) = set xs"
      using l less.prems(2) by (metis mset_swapped set_mset_mset order.strict_trans2 order.strict_trans)
    then have "heap_from c k n (sift c n ?l (swap xs i ?l))"
      using less.prems l False c1
      by (intro less.hyps swap_heap_except) (simp_all add: diff_less_mono2 order.strict_trans)
    with False show ?thesis by (subst sift.simps) simp
  qed
qed

lemma build_heap_from:
  assumes "set xs \<subseteq> E" "n \<le> length xs" "heap_from c k n xs"
  shows "heap_from c 0 n (build c n k xs)"
  using assms
proof (induction k arbitrary: xs)
  case 0
  then show ?case by simp
next
  case (Suc k)
  have "heap_except c k n k xs"
    using Suc.prems(3) by (auto simp: heap_except_def heap_from_def dest: child_less)
  then have "heap_from c k n (sift c n k xs)"
    using Suc.prems by (intro sift_heap) simp_all
  moreover have "set (sift c n k xs) = set xs"
    using mset_sift [OF Suc.prems(2)] by (metis set_mset_mset)
  ultimately show ?case
    using Suc.prems(1,2) Suc.IH [of "sift c n k xs"] by (simp add: length_sift)
qed

lemma root_max:
  assumes "set xs \<subseteq> E" "n \<le> length xs" "heap_from c 0 n xs" "j < n"
  shows "le_by c (xs ! j) (xs ! 0)"
  using \<open>j < n\<close>
proof (induction j rule: less_induct)
  case (less j)
  have E: "xs ! i \<in> E" if "i < n" for i using that assms(1,2) by (auto simp: subset_iff)
  show ?case
  proof (cases "j = 0")
    case True
    with less.prems E show ?thesis by (simp add: cmp_refl)
  next
    case False
    then have p: "child ((j - 1) div 2) j" unfolding child_def by presburger
    then have pj: "(j - 1) div 2 < j" by (rule child_less)
    have "le_by c (xs ! j) (xs ! ((j - 1) div 2))"
      using assms(3) p less.prems by (simp add: heap_from_def)
    then show ?thesis
      using less.IH [OF pj] less.prems pj cmp_trans [OF E E E, of j "(j - 1) div 2" 0] by simp
  qed
qed

lemma heap_except_swapped:
  assumes "Suc e < length xs" "heap_from c 0 (Suc (Suc e)) xs"
  shows "heap_except c 0 (Suc e) 0 (swap xs 0 (Suc e))"
proof -
  have "0 < length xs" using assms(1) by linarith
  note at = nth_swap [OF this assms(1)]
  have "le_by c (swap xs 0 (Suc e) ! ch) (swap xs 0 (Suc e) ! p)"
    if "p \<noteq> 0" "child p ch" "ch < Suc e" for p ch
  proof -
    have "p < ch" using that(2) by (rule child_less)
    moreover have "le_by c (xs ! ch) (xs ! p)" using assms(2) that by (simp add: heap_from_def)
    ultimately show ?thesis using that assms(1) by (simp add: at)
  qed
  then show ?thesis by (auto simp: heap_except_def dest: child_less)
qed

lemma drop_swapped:
  assumes "Suc e < length xs"
  shows "drop (Suc e) (swap xs 0 (Suc e)) = xs ! 0 # drop (Suc (Suc e)) xs"
proof -
  have "0 < length xs" using assms by linarith
  then have "swap xs 0 (Suc e) ! Suc e = xs ! 0" using assms by (simp add: nth_swap)
  then show ?thesis
    using assms drop_swap [of 0 "Suc (Suc e)" "Suc e" xs] \<open>0 < length xs\<close>
    by (subst Cons_nth_drop_Suc [symmetric]) simp_all
qed

text \<open>The sorted part behind the heap grows by the maximum of the heap.\<close>

lemma extract_sorted:
  assumes "set xs \<subseteq> E" "e < length xs" "heap_from c 0 (Suc e) xs"
    and "sorted_wrt (le_by c) (drop (Suc e) xs)"
    and "\<forall>x\<in>set (take (Suc e) xs). \<forall>y\<in>set (drop (Suc e) xs). le_by c x y"
  shows "sorted_wrt (le_by c) (extract_all c e xs)"
  using assms
proof (induction e arbitrary: xs)
  case 0
  then show ?case by (cases xs) simp_all
next
  case (Suc e)
  let ?ys = "swap xs 0 (Suc e)"
  let ?zs = "sift c (Suc e) 0 ?ys"
  have xs0: "0 < length xs" using Suc.prems(2) by linarith
  have len: "Suc e \<le> length ?ys" using Suc.prems(2) by simp
  have setys: "set ?ys = set xs"
    using mset_swapped [OF xs0 Suc.prems(2)] by (metis set_mset_mset)
  have old: "\<exists>j<Suc (Suc e). x = xs ! j" if "x \<in> set (take (Suc e) ?ys)" for x
  proof -
    from that obtain j where "j < Suc e" "x = ?ys ! j" by (auto simp: in_set_conv_nth)
    with Suc.prems(2) xs0 show ?thesis by (auto simp: nth_swap intro: less_SucI)
  qed
  have max: "le_by c (xs ! j) (xs ! 0)" if "j < Suc (Suc e)" for j
    using Suc.prems(1-3) that by (intro root_max) simp_all
  have front: "le_by c (xs ! j) y" if "j < Suc (Suc e)" "y \<in> set (drop (Suc (Suc e)) xs)" for j y
    using that Suc.prems(2,5) nth_mem [of j "take (Suc (Suc e)) xs"] by simp
  have "heap_from c 0 (Suc e) ?zs"
    using heap_except_swapped [OF Suc.prems(2,3)] Suc.prems(1) setys len
    by (intro sift_heap) simp_all
  moreover have "drop (Suc e) ?zs = xs ! 0 # drop (Suc (Suc e)) xs"
    by (simp add: drop_sift [OF len] drop_swapped [OF Suc.prems(2)])
  moreover have "set (take (Suc e) ?zs) = set (take (Suc e) ?ys)"
    by (rule set_take_sift [OF len])
  moreover have "set ?zs = set xs"
    using mset_sift [OF len] setys by (metis set_mset_mset)
  ultimately show ?case
    using Suc.prems(1,2,4) Suc.IH [of ?zs] old max front
    by (fastforce simp: length_sift [OF len])
qed

lemma heap_sort_sorted: "set xs \<subseteq> E \<Longrightarrow> sorted_wrt (le_by c) (heap_sort c xs)"
proof (cases "xs = []")
  case False
  assume E: "set xs \<subseteq> E"
  let ?ys = "build c (length xs) (length xs div 2) xs"
  note keeps = build_keeps [of "length xs" xs c "length xs div 2"]
  have "heap_from c (length xs div 2) (length xs) xs"
    by (auto simp: heap_from_def child_def)
  then have "heap_from c 0 (length xs) ?ys" using E by (intro build_heap_from) simp_all
  moreover have "set ?ys = set xs" using keeps by (metis order.refl set_mset_mset)
  ultimately show ?thesis
    using E False keeps extract_sorted [of ?ys "length xs - 1"] by (simp add: heap_sort_def)
qed (simp add: heap_sort_def)

end

subsection \<open>Arrays of elements\<close>

text \<open>\<open>array_at m base es\<close>: the memory \<open>m\<close> with the elements \<open>es\<close> from \<open>base\<close> on.\<close>

definition array_at :: "mem \<Rightarrow> ptr \<Rightarrow> u8 list list \<Rightarrow> mem" where
  "array_at m base es = put m base (concat es)"

abbreviation of_width :: "nat \<Rightarrow> u8 list set" where
  "of_width w \<equiv> {x. length x = w}"

lemma length_concat_width: "set es \<subseteq> of_width w \<Longrightarrow> length (concat es) = length es * w"
  by (induction es) auto

lemma concat_split:
  assumes "i < length es"
  shows "concat es = concat (take i es) @ es ! i @ concat (drop (Suc i) es)"
  using assms by (metis concat.simps(2) concat_append id_take_nth_drop)

lemma array_at_update:
  assumes "set es \<subseteq> of_width w" "i < length es" "length e = w" "length es * w \<le> 2 ^ 64"
  shows "put (array_at m base es) (base + of_nat (i * w)) e = array_at m base (es[i := e])"
proof -
  have pre: "length (concat (take i es)) = i * w"
    using assms(1,2) length_concat_width [of "take i es" w] set_take_subset [of i es] by auto
  have "length (concat es) \<le> 2 ^ 64"
    using assms by (simp add: length_concat_width)
  then have "length (concat (take i es)) + length (es ! i) + length (concat (drop (Suc i) es)) \<le> 2 ^ 64"
    by (subst (asm) concat_split [OF assms(2)]) simp
  moreover have "length (es ! i) = length e" using assms by (auto simp: subset_iff)
  ultimately have "put (put m base (concat (take i es) @ es ! i @ concat (drop (Suc i) es)))
      (base + of_nat (i * w)) e = put m base (concat (take i es) @ e @ concat (drop (Suc i) es))"
    unfolding pre [symmetric] by (intro put_over)
  then show ?thesis
    using assms(2) by (simp add: array_at_def upd_conv_take_nth_drop flip: concat_split)
qed

lemma array_at_element:
  assumes "set es \<subseteq> of_width w" "i < length es" "length es * w \<le> 2 ^ 64"
  shows "bytes_at (array_at m base es) (base + of_nat (i * w)) (es ! i)"
proof -
  have pre: "length (concat (take i es)) = i * w"
    using assms(1,2) length_concat_width [of "take i es" w] set_take_subset [of i es] by auto
  have "bytes_at (array_at m base es) base (concat es)"
    using assms by (simp add: array_at_def bytes_at_put length_concat_width)
  then show ?thesis
    by (subst (asm) concat_split [OF assms(2)]) (simp add: bytes_at_append pre)
qed

lemma element_disjoint:
  assumes "i < n" "j < n" "i \<noteq> j" "n * w \<le> 2 ^ 64"
  shows "disjoint_spans (base + of_nat (i * w)) w (base + of_nat (j * w)) w"
proof -
  have in_array: "k * w + r < n * w" if "k < n" "r < w" for k r
  proof -
    have "Suc k * w \<le> n * w" using that by (intro mult_le_mono1) simp
    with that show ?thesis by simp
  qed
  have "base + of_nat (i * w) + of_nat r \<noteq> base + of_nat (j * w) + of_nat s" if "r < w" "s < w" for r s
  proof
    assume "base + of_nat (i * w) + of_nat r = base + of_nat (j * w) + (of_nat s :: ptr)"
    then have "(of_nat (i * w + r) :: ptr) = of_nat (j * w + s)"
      by (simp add: add.assoc del: of_nat_mult)
    then have "i * w + r = j * w + s"
      using in_array [OF assms(1) that(1)] in_array [OF assms(2) that(2)] assms(4)
      by (subst (asm) of_nat_eq_64) simp_all
    then have "(i * w + r) div w = (j * w + s) div w" by simp
    with that assms(3) show False by simp
  qed
  moreover have "w \<le> 2 ^ 64"
    using order.trans [OF mult_le_mono1 [of 1 n w] assms(4)] assms(1) by simp
  ultimately show ?thesis by (auto simp: in_span_iff)
qed

subsection \<open>Swapping\<close>

lemma swap_loop_take:
  assumes "bytes_at m a xs" "bytes_at m b ys" "length xs = w" "length ys = w" "w < 2 ^ 64"
    and dis: "disjoint_spans a w b w" and "k \<le> w"
  shows "swap_loop (put (put m a (take k ys)) b (take k xs)) a b (of_nat w) (of_nat k)
    = Some (put (put m a ys) b xs)"
  using \<open>k \<le> w\<close>
proof (induction "w - k" arbitrary: k)
  case 0
  then show ?case using assms by (subst swap_loop.simps) simp
next
  case (Suc l)
  then have k: "k < w" by simp
  let ?ma = "put m a (take k ys)"
  let ?m = "put ?ma b (take k xs)"
  have own: "p + of_nat k \<notin> span p k" for p :: ptr
    using k assms(5) by (simp add: span_def unat_of_nat_64)
  have fresh: "a + of_nat k \<notin> span b k" "b + of_nat k \<notin> span a k" "a + of_nat k \<noteq> b + of_nat k"
    using dis k add_in_span [of k w a] add_in_span [of k w b] span_mono [of k w a] span_mono [of k w b]
    by auto
  have len: "length (take k xs) = k" "length (take k ys) = k" using assms k by simp_all
  have la: "load ?m (a + of_nat k) = Some (xs ! k)" and lb: "load ?m (b + of_nat k) = Some (ys ! k)"
    using assms(1-4) k own fresh len by (simp_all add: load_def put_out bytes_at_def)
  have sa: "store ?m (a + of_nat k) (ys ! k) = Some (put (put m a (take (Suc k) ys)) b (take k xs))"
    using la put_upd_commute [of "a + of_nat k" b "take k xs" ?ma "ys ! k"] fresh(1) len k assms
      put_snoc [of "take k ys" m a "ys ! k"]
    by (simp add: store_mapped load_def take_Suc_conv_app_nth)
  let ?m1 = "put (put m a (take (Suc k) ys)) b (take k xs)"
  have "?m1 (b + of_nat k) \<noteq> None"
    using assms(2,4) k by (auto simp: put_def bytes_at_def)
  then have sb: "store ?m1 (b + of_nat k) (xs ! k) = Some (put (put m a (take (Suc k) ys)) b (take (Suc k) xs))"
    using put_snoc [of "take k xs" "put m a (take (Suc k) ys)" b "xs ! k"] len k assms
    by (simp add: store_mapped take_Suc_conv_app_nth)
  have "(of_nat k :: size_t) < of_nat w" using k assms(5) by (simp add: of_nat_less_64)
  then show ?case
    using Suc.hyps(1) [of "Suc k"] Suc.hyps(2) k la lb sa sb
    by (subst swap_loop.simps) (simp add: add.commute)
qed

lemma swap_bytes_elements:
  assumes "set es \<subseteq> of_width w" "i < length es" "j < length es" "i \<noteq> j" "length es * w \<le> 2 ^ 64" "w < 2 ^ 64"
  shows "swap_bytes (array_at m base es) (base + of_nat (i * w)) (base + of_nat (j * w)) (of_nat w)
    = Some (array_at m base (swap es i j))"
proof -
  have len: "length (es ! i) = w" "length (es ! j) = w" using assms(1-3) by (auto simp: subset_iff)
  have sub: "set (es[i := es ! j]) \<subseteq> of_width w"
    using assms(1,3) len by (auto dest!: set_update_subset_insert [THEN subsetD])
  show ?thesis
    using swap_loop_take [OF array_at_element [OF assms(1,2,5)] array_at_element [OF assms(1,3,5)]
        len assms(6) element_disjoint [OF assms(2,3,4,5)], of 0] assms len sub
    by (simp add: swap_bytes_def swap_def array_at_update del: of_nat_mult)
qed


subsection \<open>The memory-level sort refines the list-level one\<close>

text \<open>
  What a comparator promises: on any two readable elements of \<open>w\<close> bytes it returns, and the
  result depends on their bytes only.
\<close>

definition cmp_models :: "CmpFnR \<Rightarrow> ptr \<Rightarrow> nat \<Rightarrow> (u8 list \<Rightarrow> u8 list \<Rightarrow> c_int) \<Rightarrow> bool" where
  "cmp_models cmp ctx w c \<longleftrightarrow> (\<forall>m a b x y. bytes_at m a x \<and> bytes_at m b y
     \<and> length x = w \<and> length y = w \<longrightarrow> cmp m a b ctx = Some (c x y))"

lemma elt_of_nat: "elt base (of_nat w) (of_nat i) = base + of_nat (i * w)"
  by (simp add: elt_def)

lemma cmp_elements:
  assumes "cmp_models cmp ctx w c" "set es \<subseteq> of_width w" "length es * w \<le> 2 ^ 64"
    and "i < length es" "j < length es"
  shows "cmp (array_at m base es) (elt base (of_nat w) (of_nat i)) (elt base (of_nat w) (of_nat j)) ctx
    = Some (c (es ! i) (es ! j))"
proof -
  have "length (es ! i) = w" "length (es ! j) = w" using assms by (auto simp: subset_iff)
  with array_at_element [OF assms(2,4,3)] array_at_element [OF assms(2,5,3)] assms(1) show ?thesis
    unfolding elt_of_nat cmp_models_def by blast
qed

lemma set_swap: "i < length xs \<Longrightarrow> j < length xs \<Longrightarrow> set (swap xs i j) = set xs"
  by (metis mset_swapped set_mset_mset)

text \<open>One turn of the loop, with its indices as natural numbers.\<close>

lemma sift_down_step:
  assumes "i < n" "n < 2 ^ 63"
  shows "sift_down m base (of_nat n) width (of_nat i) cmp ctx =
    (if n \<le> 2 * i + 1 then Some m
     else do {
       right \<leftarrow> (if 2 * i + 2 < n then do {
            s \<leftarrow> cmp m (elt base width (of_nat (2 * i + 1))) (elt base width (of_nat (2 * i + 2))) ctx;
            Some (s <s 0)
          } else Some False);
       s \<leftarrow> cmp m (elt base width (of_nat i))
              (elt base width (of_nat (if right then 2 * i + 2 else 2 * i + 1))) ctx;
       if 0 \<le>s s then Some m
       else do {
         m' \<leftarrow> swap_bytes m (elt base width (of_nat i))
                 (elt base width (of_nat (if right then 2 * i + 2 else 2 * i + 1))) width;
         sift_down m' base (of_nat n) width (of_nat (if right then 2 * i + 2 else 2 * i + 1)) cmp ctx
       }
     })"
proof -
  have w1: "2 * (of_nat i :: size_t) + 1 = of_nat (2 * i + 1)"
    and w2: "(of_nat (2 * i + 1) :: size_t) + 1 = of_nat (2 * i + 2)" by simp_all
  have wr: "(if r then of_nat (2 * i + 2) else of_nat (2 * i + 1)) =
      (of_nat (if r then 2 * i + 2 else 2 * i + 1) :: size_t)" for r by simp
  have ge: "(of_nat n :: size_t) \<le> of_nat (2 * i + 1) \<longleftrightarrow> n \<le> 2 * i + 1"
    using assms of_nat_less_64 [of "2 * i + 1" n]
    by (simp add: not_less [symmetric] del: of_nat_mult of_nat_add of_nat_Suc)
  have lt: "(of_nat (2 * i + 2) :: size_t) < of_nat n \<longleftrightarrow> 2 * i + 2 < n"
    using assms by (intro of_nat_less_64) simp_all
  show ?thesis
    by (subst sift_down.simps) (simp only: w1 w2 wr ge lt Let_def)
qed

lemma sift_down_refines:
  assumes "cmp_models cmp ctx w c" "set es \<subseteq> of_width w" "length es * w \<le> 2 ^ 64" "w < 2 ^ 64"
    and "n \<le> length es" "n < 2 ^ 63" "i < n"
  shows "sift_down (array_at m base es) base (of_nat n) (of_nat w) (of_nat i) cmp ctx
    = Some (array_at m base (sift c n i es))"
  using assms
proof (induction "n - i" arbitrary: i es rule: less_induct)
  case less
  let ?m = "array_at m base es" and ?l = "larger_child c n i es"
  note step = sift_down_step [OF less.prems(7,6), of ?m base "of_nat w" cmp ctx]
  note cmp = cmp_elements [OF less.prems(1-3)]
  show ?case
  proof (cases "2 * i + 1 \<ge> n")
    case True
    then show ?thesis unfolding step by (simp add: sift.simps)
  next
    case False
    then have l: "i < ?l" "?l < n" "i < length es" "?l < length es" "n - ?l < n - i"
      using larger_child_bounds [of i n c es] less.prems(5) by (simp_all add: diff_less_mono2)
    have right: "(if 2 * i + 2 < n then do {
            s \<leftarrow> cmp ?m (elt base (of_nat w) (of_nat (2 * i + 1))) (elt base (of_nat w) (of_nat (2 * i + 2))) ctx;
            Some (s <s 0)
          } else Some False) = Some (?l = 2 * i + 2)"
      using cmp [of "2 * i + 1" "2 * i + 2" m base] less.prems(5)
      by (simp add: larger_child_def word_sless_alt del: of_nat_add of_nat_mult of_nat_Suc)
    have ch: "(if ?l = 2 * i + 2 then 2 * i + 2 else 2 * i + 1) = ?l"
      by (simp add: larger_child_def)
    have s: "cmp ?m (elt base (of_nat w) (of_nat i)) (elt base (of_nat w) (of_nat ?l)) ctx
        = Some (c (es ! i) (es ! ?l))"
      using l by (intro cmp) simp_all
    have sw: "swap_bytes ?m (elt base (of_nat w) (of_nat i)) (elt base (of_nat w) (of_nat ?l)) (of_nat w)
        = Some (array_at m base (swap es i ?l))"
      unfolding elt_of_nat using l less.prems(1-4) by (intro swap_bytes_elements) simp_all
    have "sift_down (array_at m base (swap es i ?l)) base (of_nat n) (of_nat w) (of_nat ?l) cmp ctx
        = Some (array_at m base (sift c n ?l (swap es i ?l)))"
      using l less.prems(1-6) by (intro less.hyps) (simp_all add: set_swap)
    then show ?thesis
      unfolding step right using False
      by (subst sift.simps)
        (cases "0 \<le> sint (c (es ! i) (es ! ?l))";
          simp only: bind.bind_lunit ch s sw word_sle_eq signed_0 if_False if_True simp_thms)
  qed
qed

lemma build_heap_refines:
  assumes "cmp_models cmp ctx w c" "set es \<subseteq> of_width w" "length es * w \<le> 2 ^ 64" "w < 2 ^ 64"
    and "n \<le> length es" "n < 2 ^ 63" "k \<le> n"
  shows "build_heap (array_at m base es) base (of_nat n) (of_nat w) (of_nat k) cmp ctx
    = Some (array_at m base (build c n k es))"
  using assms
proof (induction k arbitrary: es)
  case 0
  then show ?case by (subst build_heap.simps) simp
next
  case (Suc k)
  have "(0 :: size_t) < of_nat (Suc k)"
    using Suc.prems(6,7) of_nat_eq_0_64 [of "Suc k"] by (simp add: word_greater_zero_iff del: of_nat_Suc)
  moreover have "(of_nat (Suc k) :: size_t) - 1 = of_nat k" by simp
  moreover have "sift_down (array_at m base es) base (of_nat n) (of_nat w) (of_nat k) cmp ctx
      = Some (array_at m base (sift c n k es))"
    using Suc.prems by (intro sift_down_refines) simp_all
  moreover have "set (sift c n k es) = set es"
    using mset_sift [OF Suc.prems(5)] by (metis set_mset_mset)
  ultimately show ?case
    using Suc by (subst build_heap.simps) (simp add: length_sift del: of_nat_Suc)
qed

lemma extract_max_refines:
  assumes "cmp_models cmp ctx w c" "set es \<subseteq> of_width w" "length es * w \<le> 2 ^ 64" "w < 2 ^ 64"
    and "e < length es" "e < 2 ^ 62"
  shows "extract_max (array_at m base es) base (of_nat w) (of_nat (Suc e)) cmp ctx
    = Some (array_at m base (extract_all c e es))"
  using assms
proof (induction e arbitrary: es)
  case 0
  then show ?case by (subst extract_max.simps) simp
next
  case (Suc e)
  have ne: "es \<noteq> []" using Suc.prems(5) by (cases es) simp_all
  have "(1 :: size_t) < of_nat (Suc (Suc e))"
    using Suc.prems(6) of_nat_less_64 [of 1 "Suc (Suc e)"] by (simp only: of_nat_1) simp
  moreover have "(of_nat (Suc (Suc e)) :: size_t) - 1 = of_nat (Suc e)" by simp
  moreover have "swap_bytes (array_at m base es) base (elt base (of_nat w) (of_nat (Suc e))) (of_nat w)
      = Some (array_at m base (swap es 0 (Suc e)))"
    unfolding elt_of_nat using swap_bytes_elements [of es w 0 "Suc e" m base] Suc.prems ne
    by (simp del: of_nat_Suc of_nat_mult)
  moreover have sets: "set (swap es 0 (Suc e)) = set es"
    using Suc.prems(5) ne by (intro set_swap) simp_all
  moreover have "sift_down (array_at m base (swap es 0 (Suc e))) base (of_nat (Suc e)) (of_nat w) (of_nat 0) cmp ctx
      = Some (array_at m base (sift c (Suc e) 0 (swap es 0 (Suc e))))"
    using Suc.prems sets by (intro sift_down_refines) simp_all
  moreover have "set (sift c (Suc e) 0 (swap es 0 (Suc e))) = set es"
    using mset_sift [of "Suc e" "swap es 0 (Suc e)" c 0] Suc.prems(5) sets by (metis length_swap less_imp_le set_mset_mset)
  ultimately show ?case
    using Suc by (subst extract_max.simps) (simp add: length_sift del: of_nat_Suc)
qed

lemma of_nat_div_2: "n < 2 ^ 64 \<Longrightarrow> (of_nat n :: size_t) div 2 = of_nat (n div 2)"
  by (simp add: word_unat_eq_iff unat_div unat_of_nat_64)

lemma heapsort_refines:
  assumes "cmp_models cmp ctx w c" "set es \<subseteq> of_width w" "length es * w \<le> 2 ^ 63" "w < 2 ^ 64"
    and "length es < 2 ^ 62"
  shows "heapsort (array_at m base es) base (of_nat (length es)) (of_nat w) cmp ctx
    = Some (array_at m base (heap_sort c es))"
proof (cases "length es < 2 \<or> w = 0")
  case True
  then have "array_at m base (heap_sort c es) = array_at m base es"
  proof
    assume "length es < 2"
    then have "es = [] \<or> (\<exists>e. es = [e])" by (cases es; cases "tl es") auto
    then show ?thesis by (auto simp: heap_sort_def)
  next
    assume "w = 0"
    moreover have "set (heap_sort c es) = set es" using heap_sort_mset by (metis set_mset_mset)
    ultimately have "concat es = []" "concat (heap_sort c es) = []" using assms(2) by auto
    then show ?thesis by (simp only: array_at_def)
  qed
  moreover have "(of_nat (length es) :: size_t) < 2 \<or> (of_nat w :: size_t) = 0"
    using True assms(5) of_nat_less_64 [of "length es" 2] by auto
  ultimately show ?thesis by (simp add: heapsort_def)
next
  case False
  have "\<not> (of_nat (length es) :: size_t) < 2" "(of_nat w :: size_t) \<noteq> 0"
    using False assms(4,5) of_nat_less_64 [of "length es" 2] of_nat_eq_0_64 [of w] by auto
  moreover have "build_heap (array_at m base es) base (of_nat (length es)) (of_nat w)
      (of_nat (length es div 2)) cmp ctx
    = Some (array_at m base (build c (length es) (length es div 2) es))"
    using assms by (intro build_heap_refines) simp_all
  moreover have "extract_max (array_at m base (build c (length es) (length es div 2) es)) base
      (of_nat w) (of_nat (Suc (length es - 1))) cmp ctx = Some (array_at m base (heap_sort c es))"
    unfolding heap_sort_def
    using assms False build_keeps [of "length es" es c "length es div 2"]
    by (intro extract_max_refines) (auto dest: mset_eq_setD)
  moreover have "Suc (length es - 1) = length es" using False by linarith
  ultimately show ?thesis
    using assms(5) by (simp add: heapsort_def of_nat_div_2)
qed


subsection \<open>Byte order as a comparator\<close>

lemma byte_diff_le: "length xs = length ys \<Longrightarrow> le_by byte_diff xs ys \<longleftrightarrow> xs \<le> ys"
  using byte_diff_sign [of xs ys] by (auto simp: le_by_def not_less [symmetric])

interpretation bytes: comparator "of_width w" byte_diff for w
proof
  fix x y z :: "u8 list"
  assume x: "x \<in> of_width w" "y \<in> of_width w"
  then show "sint (byte_diff x y) < 0 \<longleftrightarrow> 0 < sint (byte_diff y x)"
    using byte_diff_sign [of x y] byte_diff_sign [of y x] by simp
  assume "z \<in> of_width w" "le_by byte_diff x y" "le_by byte_diff y z"
  then have "x \<le> y" "y \<le> z" "length x = length z"
    using x byte_diff_le [of x y] byte_diff_le [of y z] by simp_all
  then show "le_by byte_diff x z" using byte_diff_le [of x z] by simp
qed

text \<open>A comparator that calls \<open>memcmp\<close> on the two elements.\<close>

definition memcmp_cmp :: "size_t \<Rightarrow> CmpFn" where
  "memcmp_cmp width m a b = memcmp m a b width"

lemma memcmp_cmp_models:
  "cmp_models (qsort_2to3_adapter (\<lambda>_. memcmp_cmp width)) ctx (unat width) byte_diff"
  by (simp add: cmp_models_def qsort_2to3_adapter_def memcmp_cmp_def memcmp_byte_diff)

text \<open>The arguments of a sort: an array of \<open>nel\<close> elements of \<open>width\<close> bytes.\<close>

definition valid_array :: "mem \<Rightarrow> ptr \<Rightarrow> size_t \<Rightarrow> size_t \<Rightarrow> u8 list list \<Rightarrow> bool" where
  "valid_array m base nel width es \<longleftrightarrow> bytes_at m base (concat es) \<and> length es = unat nel
     \<and> (\<forall>e\<in>set es. length e = unat width) \<and> unat nel < 2 ^ 62 \<and> unat nel * unat width \<le> 2 ^ 63"

lemma qsort_r_refines:
  assumes "valid_array m base nel width es" "cmp_models cmp ctx (unat width) c"
  shows "qsort_r m base nel width cmp ctx = Some (array_at m base (heap_sort c es))"
proof -
  have "m = array_at m base es"
    using assms(1) by (simp add: array_at_def valid_array_def put_same)
  moreover have "heapsort (array_at m base es) base (of_nat (length es)) (of_nat (unat width)) cmp ctx
      = Some (array_at m base (heap_sort c es))"
    using assms unat_lt_64 [of width] by (intro heapsort_refines) (auto simp: valid_array_def)
  ultimately show ?thesis
    using assms(1) by (simp add: qsort_r_def valid_array_def)
qed


text \<open>Behind \<open>memcmp\<close> as comparator, \<open>qsort\<close> runs the reference sort, whose result is sorted.\<close>

lemma qsort_memcmp_runs:
  fixes fns :: "ptr \<Rightarrow> CmpFn"
  assumes "valid_array m base nel width es" "fns f = memcmp_cmp width"
  shows "qsort fns m base nel width f = Some (array_at m base (heap_sort byte_diff es))"
    and "sorted (heap_sort byte_diff es)"
proof -
  have "cmp_models (qsort_2to3_adapter fns) f (unat width) byte_diff"
    using memcmp_cmp_models [of width f] assms(2)
    by (simp add: cmp_models_def qsort_2to3_adapter_def)
  then show "qsort fns m base nel width f = Some (array_at m base (heap_sort byte_diff es))"
    using assms(1) by (simp add: qsort_def qsort_r_refines)
  have len: "\<forall>e\<in>set es. length e = unat width" using assms(1) by (simp add: valid_array_def)
  have "set (heap_sort byte_diff es) = set es"
    by (metis heap_sort_mset set_mset_mset)
  with len have "le_by byte_diff x y \<longleftrightarrow> x \<le> y"
    if "x \<in> set (heap_sort byte_diff es)" "y \<in> set (heap_sort byte_diff es)" for x y
    using that by (intro byte_diff_le) simp
  moreover have "sorted_wrt (le_by byte_diff) (heap_sort byte_diff es)"
    using len by (intro bytes.heap_sort_sorted [of es "unat width"]) auto
  ultimately show "sorted (heap_sort byte_diff es)"
    by (metis (no_types, lifting) sorted_wrt_mono_rel)
qed


subsection \<open>Binary search\<close>

text \<open>
  The signs of the comparisons of the key with the elements of a sorted array: first positive,
  then zero, then negative.
\<close>

definition ascending_signs :: "(nat \<Rightarrow> c_int) \<Rightarrow> nat \<Rightarrow> bool" where
  "ascending_signs s n \<longleftrightarrow> (\<forall>i j. i < j \<and> j < n \<longrightarrow>
     (sint (s i) < 0 \<longrightarrow> sint (s j) < 0) \<and> (0 < sint (s j) \<longrightarrow> 0 < sint (s i)))"

text \<open>\<open>r\<close> is the answer for the elements with indices in \<open>I\<close>.\<close>

definition bsearch_result :: "(nat \<Rightarrow> c_int) \<Rightarrow> ptr \<Rightarrow> nat \<Rightarrow> nat set \<Rightarrow> ptr \<Rightarrow> bool" where
  "bsearch_result s base w I r \<longleftrightarrow>
     (\<exists>i\<in>I. sint (s i) = 0 \<and> r = base + of_nat (i * w)) \<or> r = 0 \<and> (\<forall>i\<in>I. sint (s i) \<noteq> 0)"

lemma bsearch_result_mono:
  "bsearch_result s base w I r \<Longrightarrow> I \<subseteq> J \<Longrightarrow> \<forall>i\<in>J - I. sint (s i) \<noteq> 0 \<Longrightarrow> bsearch_result s base w J r"
  unfolding bsearch_result_def by blast

text \<open>An element that is not equal to the key leaves the half on its one side to search.\<close>

lemma bsearch_result_below:
  assumes "ascending_signs s n" "lo + k \<le> n" "sint (s (lo + h)) < 0" "h < k"
    and "bsearch_result s base w {lo..<lo + h} r"
  shows "bsearch_result s base w {lo..<lo + k} r"
proof (rule bsearch_result_mono [OF assms(5)])
  have neg: "sint (s i) < 0" if "lo + h < i" "i < n" for i
    using assms(1,3) that unfolding ascending_signs_def by blast
  have low: "sint (s i) < 0" if "lo + h \<le> i" "i < lo + k" for i
    using neg [of i] assms(2,3) that by (cases "i = lo + h") simp_all
  show "\<forall>i\<in>{lo..<lo + k} - {lo..<lo + h}. sint (s i) \<noteq> 0"
    by (intro ballI less_imp_neq low) auto
qed (use assms(4) in auto)

lemma bsearch_result_above:
  assumes "ascending_signs s n" "lo + k \<le> n" "0 < sint (s (lo + h))" "h < k"
    and "bsearch_result s base w {Suc (lo + h)..<lo + k} r"
  shows "bsearch_result s base w {lo..<lo + k} r"
proof (rule bsearch_result_mono [OF assms(5)])
  have pos: "0 < sint (s i)" if "i < lo + h" for i
    using assms that unfolding ascending_signs_def by (meson add_strict_left_mono less_le_trans)
  have high: "0 < sint (s i)" if "i < Suc (lo + h)" for i
    using pos [of i] assms(3) that by (cases "i = lo + h") simp_all
  show "\<forall>i\<in>{lo..<lo + k} - {Suc (lo + h)..<lo + k}. sint (s i) \<noteq> 0"
    by (intro ballI less_imp_neq [symmetric] high) auto
qed auto

lemma bsearch_loop_step:
  assumes "0 < k" "k < 2 ^ 64" "cmp m key (base + of_nat ((lo + k div 2) * w)) = Some c"
  shows "bsearch_loop m key (base + of_nat (lo * w)) (of_nat k) (of_nat w) cmp =
    (if sint c < 0 then bsearch_loop m key (base + of_nat (lo * w)) (of_nat (k div 2)) (of_nat w) cmp
     else if 0 < sint c
       then bsearch_loop m key (base + of_nat (Suc (lo + k div 2) * w)) (of_nat (k - Suc (k div 2)))
         (of_nat w) cmp
     else Some (base + of_nat ((lo + k div 2) * w)))"
proof -
  let ?h = "k div 2" and ?mid = "lo + k div 2"
  have pos: "(0 :: size_t) < of_nat k"
    using assms(1,2) of_nat_eq_0_64 [of k] by (simp add: word_greater_zero_iff)
  have half: "(of_nat k :: size_t) div 2 = of_nat ?h" using assms(2) by (rule of_nat_div_2)
  have at_mid: "base + of_nat (lo * w) + of_nat w * of_nat ?h = base + of_nat (?mid * w)"
    by (simp add: algebra_simps)
  have after_mid: "base + of_nat (?mid * w) + of_nat w = base + of_nat (Suc ?mid * w)"
    by (simp add: algebra_simps)
  have rest: "(of_nat k :: size_t) - (of_nat ?h + 1) = of_nat (k - Suc ?h)"
    using assms(1) by (simp add: of_nat_diff)
  have signs: "c <s 0 \<longleftrightarrow> sint c < 0" "0 <s c \<longleftrightarrow> 0 < sint c" by (simp_all add: word_sless_alt)
  show ?thesis
    using assms(3) pos unfolding signs [symmetric]
    by (subst bsearch_loop.simps)
      (simp only: half at_mid after_mid rest Let_def if_True bind.bind_lunit)
qed

lemma bsearch_loop_finds:
  assumes "\<And>i. i < n \<Longrightarrow> cmp m key (base + of_nat (i * w)) = Some (s i)"
    and "ascending_signs s n" "lo + k \<le> n" "k < 2 ^ 64"
  shows "\<exists>r. bsearch_loop m key (base + of_nat (lo * w)) (of_nat k) (of_nat w) cmp = Some r
    \<and> bsearch_result s base w {lo..<lo + k} r"
  using assms(3,4)
proof (induction k arbitrary: lo rule: less_induct)
  case (less k)
  show ?case
  proof (cases "k = 0")
    case True
    then show ?thesis by (subst bsearch_loop.simps) (simp add: bsearch_result_def)
  next
    case False
    let ?h = "k div 2" and ?mid = "lo + k div 2"
    have h: "?h < k" "?mid < n" "0 < k" using False less.prems by simp_all
    note step = bsearch_loop_step [where cmp = cmp, OF h(3) less.prems(2) assms(1) [OF h(2)]]
    consider "sint (s ?mid) < 0" | "0 < sint (s ?mid)" | "sint (s ?mid) = 0" by linarith
    then show ?thesis
    proof cases
      case 1
      then show ?thesis
        unfolding step using less.IH [OF h(1), of lo] less.prems h(1)
          bsearch_result_below [OF assms(2) less.prems(1) 1 h(1)] by auto
    next
      case 2
      have "Suc ?mid + (k - Suc ?h) = lo + k" "k - Suc ?h < k" "lo + k \<le> n" "k - Suc ?h < 2 ^ 64"
        using less.prems h by linarith+
      then have "\<exists>r. bsearch_loop m key (base + of_nat (Suc ?mid * w)) (of_nat (k - Suc ?h)) (of_nat w) cmp = Some r
          \<and> bsearch_result s base w {Suc ?mid..<lo + k} r"
        using less.IH [of "k - Suc ?h" "Suc ?mid"] by metis
      then show ?thesis
        unfolding step using 2 bsearch_result_above [OF assms(2) less.prems(1) 2 h(1)] by auto
    next
      case 3
      then show ?thesis unfolding step using h by (auto simp: bsearch_result_def)
    qed
  qed
qed

text \<open>A search with \<open>memcmp\<close> in a sorted array sees ascending signs.\<close>

lemma sorted_signs:
  assumes "sorted es" "\<And>e. e \<in> set es \<Longrightarrow> length e = length k"
  shows "ascending_signs (\<lambda>i. byte_diff k (es ! i)) (length es)"
  unfolding ascending_signs_def
proof (intro allI impI)
  fix i j assume ij: "i < j \<and> j < length es"
  then have "es ! i \<le> es ! j" using assms(1) by (simp add: sorted_nth_mono)
  moreover have "length (es ! i) = length k" "length (es ! j) = length k"
    using ij assms(2) by simp_all
  ultimately show "(sint (byte_diff k (es ! i)) < 0 \<longrightarrow> sint (byte_diff k (es ! j)) < 0)
      \<and> (0 < sint (byte_diff k (es ! j)) \<longrightarrow> 0 < sint (byte_diff k (es ! i)))"
    using byte_diff_sign [of k "es ! i"] byte_diff_sign [of k "es ! j"] by auto
qed


subsection \<open>Properties\<close>

text \<open>
  C1. \<open>qsort_r\<close> sorts: for every comparator that is a total preorder on the elements, it
  returns with the array permuted into ascending order, whatever the element size, and changes
  no byte outside the array. The loops terminate and every swap is of two distinct elements.
\<close>

theorem qsort_r_sorts:
  assumes "valid_array m base nel width es" "cmp_models cmp ctx (unat width) c"
    and "comparator {x. length x = unat width} c"
  shows "\<exists>es'. qsort_r m base nel width cmp ctx = Some (put m base (concat es'))
    \<and> mset es' = mset es \<and> sorted_wrt (le_by c) es'"
  using qsort_r_refines [OF assms(1,2)] comparator.heap_sort_sorted [OF assms(3), of es]
    heap_sort_mset [of c es] assms(1)
  by (intro exI [of _ "heap_sort c es"]) (auto simp: array_at_def valid_array_def)

lemma qsort_r_sorts_witness:
  "\<exists>es'. qsort_r (mem_of 4096 [2, 0, 1, 9]) 4096 2 2 (qsort_2to3_adapter (\<lambda>_. memcmp_cmp 2)) 0
      = Some (put (mem_of 4096 [2, 0, 1, 9]) 4096 (concat es'))
    \<and> mset es' = mset [[2, 0], [1, 9]] \<and> sorted_wrt (le_by byte_diff) es'"
proof (rule qsort_r_sorts)
  show "valid_array (mem_of 4096 [2, 0, 1, 9]) 4096 2 2 [[2, 0], [1, 9]]"
    by (simp add: valid_array_def mem_eval)
  show "cmp_models (qsort_2to3_adapter (\<lambda>_. memcmp_cmp 2)) 0 (unat (2 :: size_t)) byte_diff"
    by (rule memcmp_cmp_models)
  show "comparator {x. length x = unat (2 :: size_t)} byte_diff"
    by (rule bytes.comparator_axioms)
qed

text \<open>
  \<open>qsort\<close> hands its two-argument comparator through the adapter: called with the
  address of a comparator that calls \<open>memcmp\<close> on whole elements, it leaves the elements in
  ascending lexicographic order of their bytes, the same elements as before.
\<close>

theorem qsort_memcmp_sorts:
  assumes "valid_array m base nel width es" "fns f = memcmp_cmp width"
  shows "\<exists>es'. qsort fns m base nel width f = Some (put m base (concat es'))
    \<and> mset es' = mset es \<and> sorted es'"
  using qsort_memcmp_runs [of m base nel width es fns f] assms heap_sort_mset [of byte_diff es]
  by (intro exI [of _ "heap_sort byte_diff es"]) (simp add: array_at_def)

lemma qsort_memcmp_sorts_witness:
  "\<exists>es'. qsort (\<lambda>_. memcmp_cmp 1) (mem_of 4096 [3, 1, 2]) 4096 3 1 77
      = Some (put (mem_of 4096 [3, 1, 2]) 4096 (concat es'))
    \<and> mset es' = mset [[3], [1], [2]] \<and> sorted es'"
proof (rule qsort_memcmp_sorts)
  show "valid_array (mem_of 4096 [3, 1, 2]) 4096 3 1 [[3], [1], [2]]"
    by (simp add: valid_array_def mem_eval)
qed simp

text \<open>
  C24. \<open>bsearch\<close> terminates on every array length, and on an array sorted by the comparator it
  is sound and complete: when some element compares equal to the key it returns the address of
  such an element, and NULL when none does.
\<close>

theorem bsearch_correct:
  assumes "\<And>i. i < unat nel \<Longrightarrow> cmp m key (base + of_nat (i * unat width)) = Some (s i)"
    and "ascending_signs s (unat nel)"
  shows "\<exists>r. bsearch m key base nel width cmp = Some r
    \<and> (if \<exists>i<unat nel. sint (s i) = 0
       then \<exists>i<unat nel. sint (s i) = 0 \<and> r = base + of_nat (i * unat width)
       else r = 0)"
proof -
  obtain r where "bsearch_loop m key base nel width cmp = Some r"
    "bsearch_result s base (unat width) {0..<unat nel} r"
    using bsearch_loop_finds [of "unat nel" cmp m key base "unat width" s 0 "unat nel", OF assms]
      unat_lt_64 [of nel] by auto
  then show ?thesis by (auto simp: bsearch_def bsearch_result_def)
qed

lemma bsearch_correct_witness:
  "bsearch Map.empty 0 4096 3 4 (\<lambda>_ _ p. Some (if p = 4096 then 1 else if p = 4100 then 0 else - 1))
   = Some 4100"
proof -
  let ?cmp = "\<lambda>_ _ (p :: ptr). Some (if p = 4096 then 1 else if p = 4100 then 0 else - 1)"
  let ?s = "\<lambda>i. if i = 0 then 1 else if i = 1 then 0 else - 1 :: c_int"
  have "?cmp Map.empty 0 (4096 + of_nat (i * unat (4 :: size_t))) = Some (?s i)"
    if "i < unat (3 :: size_t)" for i
  proof -
    have "i = 0 \<or> i = 1 \<or> i = 2" using that by auto
    then show ?thesis by auto
  qed
  moreover have "ascending_signs ?s (unat (3 :: size_t))"
    by (auto simp: ascending_signs_def)
  ultimately have "\<exists>r. bsearch Map.empty 0 4096 3 4 ?cmp = Some r
    \<and> (if \<exists>i<unat (3 :: size_t). sint (?s i) = 0
       then \<exists>i<unat (3 :: size_t). sint (?s i) = 0 \<and> r = 4096 + of_nat (i * unat (4 :: size_t))
       else r = 0)"
    by (rule bsearch_correct)
  moreover have "\<exists>i<unat (3 :: size_t). sint (?s i) = 0" by (intro exI [of _ 1]) simp
  ultimately obtain i where "bsearch Map.empty 0 4096 3 4 ?cmp = Some (4096 + of_nat (i * unat (4 :: size_t)))"
    "sint (?s i) = 0" by auto
  moreover from this(2) have "i = 1" by (auto split: if_splits)
  ultimately show ?thesis by simp
qed

end
