(* ===== verification/Rand48.thy ===== *)
theory Rand48
  imports Complex_Main Prelude
begin

section \<open>The stateless-lock generators: rand, rand_r and the 48-bit family\<close>

text \<open>
  The parts of \<open>mytilus-prng/src/lib.rs\<close> that take no lock: \<open>rand\<close> with its 64-bit
  seed, \<open>rand_r\<close> with the seed of the caller, and the \<open>*rand48\<close> functions over the
  array \<open>__seed48\<close>. The abstract specification of the last is the linear congruential
  generator \<open>X := (a X + c) mod 2\<^sup>4\<^sup>8\<close>.
\<close>

subsection \<open>rand and rand_r\<close>

text \<open>The state is the static \<open>RAND_SEED\<close>, here its value at program start.\<close>

definition RAND_SEED :: u64 where
  "RAND_SEED = 0"

definition srand :: "c_uint \<Rightarrow> u64" where
  "srand s = ucast s - 1"

definition rand :: "u64 \<Rightarrow> c_int \<times> u64" where
  "rand seed = (let seed' = 6364136223846793005 * seed + 1 in (ucast (drop_bit 33 seed'), seed'))"

definition temper :: "u32 \<Rightarrow> u32" where
  "temper x0 =
     (let x1 = x0 XOR drop_bit 11 x0;
          x2 = x1 XOR (push_bit 7 x1 AND 0x9D2C5680);
          x3 = x2 XOR (push_bit 15 x2 AND 0xEFC60000)
      in x3 XOR drop_bit 18 x3)"

text \<open>The new value of \<open>*seed\<close> is the second component.\<close>

definition rand_r :: "c_uint \<Rightarrow> c_int \<times> c_uint" where
  "rand_r seed = (let s = seed * 1103515245 + 12345 in (temper s div 2, s))"


subsection \<open>The 48-bit family\<close>

text \<open>
  The statics: the array \<open>__seed48\<close> of seven halves (state, multiplier, addend) and the
  array \<open>PREV\<close> of \<open>seed48\<close>.
\<close>

record rand48_state =
  seed48_arr :: "c_ushort list"
  prev :: "c_ushort list"

definition rand48_init :: rand48_state where
  "rand48_init = \<lparr>seed48_arr = [0, 0, 0, 0xe66d, 0xdeec, 0x5, 0xb], prev = [0, 0, 0]\<rparr>"

text \<open>
  \<open>__rand48_step\<close>: \<open>xi\<close> are the three halves it updates, \<open>lc\<close> the multiplier and
  addend; all reads come before the writes.
\<close>

definition rand48_step :: "c_ushort list \<Rightarrow> c_ushort list \<Rightarrow> u64 \<times> c_ushort list" where
  "rand48_step xi lc =
     (let xi0 = ucast (xi ! 0) :: u64; xi1 = ucast (xi ! 1) :: u64; xi2 = ucast (xi ! 2) :: u64;
          x = xi0 OR push_bit 16 xi1 OR push_bit 32 xi2;
          lc0 = ucast (lc ! 0) :: u64; lc1 = ucast (lc ! 1) :: u64; lc2 = ucast (lc ! 2) :: u64;
          lc3 = ucast (lc ! 3) :: u64;
          a = lc0 OR push_bit 16 lc1 OR push_bit 32 lc2;
          x' = a * x + lc3
      in (x' AND 0xffffffffffff,
          xi[0 := ucast x', 1 := ucast (drop_bit 16 x'), 2 := ucast (drop_bit 32 x')]))"

definition seed48_lc :: "rand48_state \<Rightarrow> c_ushort list" where
  "seed48_lc st = drop 3 (seed48_arr st)"

definition seed48_xi :: "rand48_state \<Rightarrow> c_ushort list" where
  "seed48_xi st = take 3 (seed48_arr st)"

definition set_xi :: "rand48_state \<Rightarrow> c_ushort list \<Rightarrow> rand48_state" where
  "set_xi st xi = st\<lparr>seed48_arr := xi @ drop 3 (seed48_arr st)\<rparr>"

text \<open>
  The value of a positive normal \<open>f64\<close> with the given bits. The subtraction of \<open>1.0\<close> from a
  number of \<open>[1, 2)\<close> is exact in binary floating point, so it is the subtraction of rationals.
\<close>

definition f64_from_bits :: "u64 \<Rightarrow> rat" where
  "f64_from_bits bits =
     (1 + of_int (uint (bits AND 0xfffffffffffff)) / 2 ^ 52)
       * 2 powi (uint (drop_bit 52 bits AND 0x7ff) - 1023)"

definition erand48 :: "rand48_state \<Rightarrow> c_ushort list \<Rightarrow> rat \<times> c_ushort list" where
  "erand48 st s =
     (let (step, s') = rand48_step s (seed48_lc st);
          bits = 0x3ff0000000000000 OR push_bit 4 step
      in (f64_from_bits bits - 1, s'))"

definition drand48 :: "rand48_state \<Rightarrow> rat \<times> rand48_state" where
  "drand48 st = (let (r, xi) = erand48 st (seed48_xi st) in (r, set_xi st xi))"

definition nrand48 :: "rand48_state \<Rightarrow> c_ushort list \<Rightarrow> c_long \<times> c_ushort list" where
  "nrand48 st s =
     (let (step, s') = rand48_step s (seed48_lc st) in (drop_bit 17 step, s'))"

definition lrand48 :: "rand48_state \<Rightarrow> c_long \<times> rand48_state" where
  "lrand48 st = (let (r, xi) = nrand48 st (seed48_xi st) in (r, set_xi st xi))"

definition jrand48 :: "rand48_state \<Rightarrow> c_ushort list \<Rightarrow> c_long \<times> c_ushort list" where
  "jrand48 st s =
     (let (step, s') = rand48_step s (seed48_lc st)
      in (scast (ucast (drop_bit 16 step) :: i32), s'))"

definition mrand48 :: "rand48_state \<Rightarrow> c_long \<times> rand48_state" where
  "mrand48 st = (let (r, xi) = jrand48 st (seed48_xi st) in (r, set_xi st xi))"

text \<open>
  The argument of \<open>seed48\<close> is an array of the caller or the array \<open>PREV\<close> an earlier call
  returned: \<open>PREV\<close> is overwritten before the argument is read.
\<close>

datatype seed_arg = Caller "c_ushort list" | Prev

fun read_arg :: "seed_arg \<Rightarrow> rand48_state \<Rightarrow> c_ushort list" where
  "read_arg (Caller s) st = s"
| "read_arg Prev st = prev st"

text \<open>The result is the contents of \<open>PREV\<close>, whose address the Rust function returns.\<close>

definition seed48 :: "rand48_state \<Rightarrow> seed_arg \<Rightarrow> c_ushort list \<times> rand48_state" where
  "seed48 st s =
     (let arr = seed48_arr st;
          st1 = st\<lparr>prev := [arr ! 0, arr ! 1, arr ! 2]\<rparr>;
          s' = read_arg s st1;
          st2 = st1\<lparr>seed48_arr := (seed48_arr st1)[0 := s' ! 0, 1 := s' ! 1, 2 := s' ! 2]\<rparr>
      in (prev st2, st2))"

definition srand48 :: "rand48_state \<Rightarrow> c_long \<Rightarrow> rand48_state" where
  "srand48 st seed =
     snd (seed48 st (Caller [0x330e, ucast seed, ucast (signed_drop_bit 16 seed)]))"

definition lcong48 :: "rand48_state \<Rightarrow> c_ushort list \<Rightarrow> rand48_state" where
  "lcong48 st p = st\<lparr>seed48_arr := fold (\<lambda>i d. d[i := p ! i]) [0..<7] (seed48_arr st)\<rparr>"


subsection \<open>The seven halves as numbers\<close>

text \<open>The number with the digits \<open>x0\<close>, \<open>x1\<close>, \<open>x2\<close> in base \<open>2\<^sup>1\<^sup>6\<close>.\<close>

definition halves :: "c_ushort list \<Rightarrow> int" where
  "halves xs = uint (xs ! 0) + 2 ^ 16 * uint (xs ! 1) + 2 ^ 32 * uint (xs ! 2)"

definition lcg48 :: "int \<Rightarrow> int \<Rightarrow> int \<Rightarrow> int" where
  "lcg48 a c x = (a * x + c) mod 2 ^ 48"

text \<open>The well-formed states: the arrays have their lengths.\<close>

definition rand48_wf :: "rand48_state \<Rightarrow> bool" where
  "rand48_wf st \<longleftrightarrow> length (seed48_arr st) = 7 \<and> length (prev st) = 3"

abbreviation x48 :: "rand48_state \<Rightarrow> int" where
  "x48 st \<equiv> halves (seed48_arr st)"

abbreviation a48 :: "rand48_state \<Rightarrow> int" where
  "a48 st \<equiv> halves (seed48_lc st)"

abbreviation c48 :: "rand48_state \<Rightarrow> int" where
  "c48 st \<equiv> uint (seed48_arr st ! 6)"

lemma uint_u16_bound: "uint (a :: c_ushort) < 2 ^ 16"
  using uint_lt2p [of a] by simp

lemma halves_bound: "0 \<le> halves xs" "halves xs < 2 ^ 48"
  using uint_u16_bound [of "xs ! 0"] uint_u16_bound [of "xs ! 1"] uint_u16_bound [of "xs ! 2"]
  by (simp_all add: halves_def)

lemma uint_u16_cast: "uint (ucast (a :: c_ushort) :: u64) = uint a"
proof -
  have "take_bit 64 (uint a) = uint a"
    using uint_u16_bound [of a] by (intro take_bit_int_eq_self) simp_all
  then show ?thesis by (simp add: unsigned_ucast_eq)
qed

text \<open>Disjoint digits joined by \<open>OR\<close> add up.\<close>

lemma or_push_add:
  fixes x y :: int
  assumes "0 \<le> x" "x < 2 ^ n"
  shows "x OR push_bit n y = x + 2 ^ n * y"
proof -
  have "x AND push_bit n y = 0"
  proof (rule bit_eqI)
    fix k
    have "bit x k \<Longrightarrow> k < n"
      using assms by (metis bit_take_bit_iff take_bit_int_eq_self_iff)
    then show "bit (x AND push_bit n y) k \<longleftrightarrow> bit 0 k"
      by (auto simp: bit_and_iff bit_push_bit_iff_int)
  qed
  then have "x + push_bit n y = x OR push_bit n y" by (rule disjunctive_add_eq_or)
  then show ?thesis by (simp add: push_bit_eq_mult mult.commute)
qed

lemma uint_joined:
  fixes y0 y1 y2 :: c_ushort
  shows "uint (ucast y0 OR push_bit 16 (ucast y1) OR push_bit 32 (ucast y2) :: u64)
    = uint y0 + 2 ^ 16 * uint y1 + 2 ^ 32 * uint y2"
proof -
  have b: "uint y0 < 2 ^ 16" "uint y1 < 2 ^ 16" "uint y2 < 2 ^ 16" by (rule uint_u16_bound)+
  have "uint (push_bit 16 (ucast y1) :: u64) = 2 ^ 16 * uint y1"
    using b(2) by (simp add: push_bit_eq_mult uint_word_ariths uint_u16_cast)
  moreover have "uint (push_bit 32 (ucast y2) :: u64) = 2 ^ 32 * uint y2"
    using b(3) by (simp add: push_bit_eq_mult uint_word_ariths uint_u16_cast)
  moreover have "uint y0 OR 2 ^ 16 * uint y1 = uint y0 + 2 ^ 16 * uint y1"
    using or_push_add [of "uint y0" 16 "uint y1"] b(1) by (simp add: push_bit_eq_mult mult.commute)
  moreover have "(uint y0 + 2 ^ 16 * uint y1) OR 2 ^ 32 * uint y2 = uint y0 + 2 ^ 16 * uint y1 + 2 ^ 32 * uint y2"
    using or_push_add [of "uint y0 + 2 ^ 16 * uint y1" 32 "uint y2"] b
    by (simp add: push_bit_eq_mult mult.commute)
  ultimately show ?thesis by (simp add: uint_or uint_u16_cast or.assoc [symmetric])
qed

text \<open>The digits written back are those of the number modulo \<open>2\<^sup>4\<^sup>8\<close>.\<close>

lemma digits_48: "x mod 2 ^ 16 + 2 ^ 16 * (x div 2 ^ 16 mod 2 ^ 16) + 2 ^ 32 * (x div 2 ^ 32 mod 2 ^ 16)
    = x mod 2 ^ 48" for x :: int
proof -
  have "x mod (2 ^ 32 * 2 ^ 16) = 2 ^ 32 * (x div 2 ^ 32 mod 2 ^ 16) + x mod 2 ^ 32"
    by (rule zmod_zmult2_eq) simp
  moreover have "x mod (2 ^ 16 * 2 ^ 16) = 2 ^ 16 * (x div 2 ^ 16 mod 2 ^ 16) + x mod 2 ^ 16"
    by (rule zmod_zmult2_eq) simp
  ultimately show ?thesis by simp
qed

lemma halves_split:
  fixes x :: u64
  shows "halves [ucast x, ucast (drop_bit 16 x), ucast (drop_bit 32 x)] = uint x mod 2 ^ 48"
  using digits_48 [of "uint x"]
  by (simp add: halves_def unsigned_ucast_eq drop_bit_eq_div uint_div take_bit_eq_mod)

lemma and_mask_48: "(y :: int) AND 0xffffffffffff = y mod 2 ^ 48"
  using take_bit_eq_mask [of 48 y] by (simp add: take_bit_eq_mod mask_eq_exp_minus_1)

lemma uint_and_mask_48: "uint (w AND 0xffffffffffff :: u64) = uint w mod 2 ^ 48"
  using and_mask_48 [of "uint w"] by (simp add: uint_and)

lemma rand48_step_lcg:
  assumes "length xi = 3" "rand48_step xi lc = (step, xi')"
  shows "uint step = lcg48 (halves lc) (uint (lc ! 3)) (halves xi)"
    and "halves xi' = uint step" and "length xi' = 3"
proof -
  let ?x = "ucast (xi ! 0) OR push_bit 16 (ucast (xi ! 1)) OR push_bit 32 (ucast (xi ! 2)) :: u64"
  let ?a = "ucast (lc ! 0) OR push_bit 16 (ucast (lc ! 1)) OR push_bit 32 (ucast (lc ! 2)) :: u64"
  let ?x' = "?a * ?x + ucast (lc ! 3)"
  have step: "step = ?x' AND 0xffffffffffff"
    and xi': "xi' = [ucast ?x', ucast (drop_bit 16 ?x'), ucast (drop_bit 32 ?x')]"
    using assms by (auto simp: rand48_step_def Let_def length_Suc_conv numeral_3_eq_3)
  have "uint ?x' mod 2 ^ 48 = lcg48 (halves lc) (uint (lc ! 3)) (halves xi)"
  proof -
    have "uint ?x' = (halves lc * halves xi + uint (lc ! 3)) mod 2 ^ 64"
      unfolding halves_def uint_joined [symmetric]
      by (simp only: uint_word_ariths uint_u16_cast mod_simps len_bit0 len_num1) simp
    then show ?thesis by (simp add: lcg48_def mod_mod_cancel)
  qed
  moreover have "uint (?x' AND 0xffffffffffff) = uint ?x' mod 2 ^ 48"
    by (rule uint_and_mask_48)
  ultimately show "uint step = lcg48 (halves lc) (uint (lc ! 3)) (halves xi)"
    and "halves xi' = uint step" and "length xi' = 3"
    by (simp_all add: step xi' halves_split)
qed


text \<open>The calls on the statics: the state moves by one step of the generator.\<close>

lemma rand48_global:
  assumes "rand48_wf st"
  obtains step xi where "rand48_step (seed48_xi st) (seed48_lc st) = (step, xi)"
    and "uint step = lcg48 (a48 st) (c48 st) (x48 st)"
    and "x48 (set_xi st xi) = uint step" and "rand48_wf (set_xi st xi)"
    and "a48 (set_xi st xi) = a48 st" and "c48 (set_xi st xi) = c48 st"
proof -
  obtain step xi where e: "rand48_step (seed48_xi st) (seed48_lc st) = (step, xi)"
    by (cases "rand48_step (seed48_xi st) (seed48_lc st)")
  have len: "length (seed48_xi st) = 3" "length (seed48_arr st) = 7"
    using assms by (simp_all add: seed48_xi_def rand48_wf_def)
  note step = rand48_step_lcg [OF len(1) e]
  have "halves (seed48_xi st) = x48 st" by (simp add: halves_def seed48_xi_def)
  moreover have "seed48_lc st ! 3 = seed48_arr st ! 6" using len by (simp add: seed48_lc_def)
  ultimately have "uint step = lcg48 (a48 st) (c48 st) (x48 st)" using step(1) by simp
  moreover have "x48 (set_xi st xi) = uint step"
    using step(2,3) by (simp add: set_xi_def halves_def nth_append)
  ultimately show ?thesis
    using that [OF e] step(3) len assms
    by (simp add: set_xi_def rand48_wf_def seed48_lc_def nth_append)
qed

lemma lcg48_bound: "0 \<le> lcg48 a c x" "lcg48 a c x < 2 ^ 48"
  by (simp_all add: lcg48_def)

text \<open>The bit pattern of \<open>erand48\<close> is \<open>1 + step / 2\<^sup>4\<^sup>8\<close>.\<close>

lemma erand48_bits:
  assumes "uint step < 2 ^ 48"
  shows "f64_from_bits (0x3ff0000000000000 OR push_bit 4 step) - 1 = of_int (uint step) / 2 ^ 48"
proof -
  have s: "uint (push_bit 4 step) = uint step * 16"
    using assms by (simp add: push_bit_eq_mult uint_word_ariths)
  have "uint step * 16 OR push_bit 52 0x3ff = uint step * 16 + 2 ^ 52 * 0x3ff"
    using assms by (intro or_push_add) simp_all
  then have bits: "uint (0x3ff0000000000000 OR push_bit 4 step) = uint step * 16 + 0x3ff * 2 ^ 52"
    by (simp add: uint_or s or.commute)
  have "(y :: int) AND 0xfffffffffffff = y mod 2 ^ 52" for y
    using take_bit_eq_mask [of 52 y] by (simp add: take_bit_eq_mod mask_eq_exp_minus_1)
  then have m: "uint ((0x3ff0000000000000 OR push_bit 4 step) AND 0xfffffffffffff) = uint step * 16"
    using assms mod_mult_self1 [of "uint step * 16" "0x3ff" "2 ^ 52"] by (simp add: uint_and bits)
  have "uint (drop_bit 52 (0x3ff0000000000000 OR push_bit 4 step)) = 0x3ff"
    using assms div_mult_self1 [of "2 ^ 52" "uint step * 16" "0x3ff"]
    by (simp add: drop_bit_eq_div uint_div bits)
  then have e: "uint (drop_bit 52 (0x3ff0000000000000 OR push_bit 4 step) AND 0x7ff) - 1023 = 0"
    by (simp add: uint_and)
  show ?thesis unfolding f64_from_bits_def m e by simp
qed


text \<open>The upper half of the seed: the arithmetic shift of the signed \<open>long\<close>.\<close>

lemma srand48_half:
  "uint (ucast (signed_drop_bit 16 (seed :: c_long)) :: c_ushort) = uint seed div 2 ^ 16 mod 2 ^ 16"
proof -
  have "(ucast (signed_drop_bit 16 seed) :: c_ushort) = ucast (drop_bit 16 seed)"
    by (rule bit_word_eqI)
       (simp add: bit_ucast_iff bit_signed_drop_bit_iff bit_drop_bit_eq add.commute)
  then show ?thesis
    by (simp add: unsigned_ucast_eq drop_bit_eq_div uint_div take_bit_eq_mod)
qed


subsection \<open>Tempering is a bijection\<close>

text \<open>A shift and an exclusive or can be undone: bit by bit from the end the shift vacates.\<close>

lemma xor_shift_right_inject:
  assumes "x XOR drop_bit k x = y XOR drop_bit k (y :: u32)" "0 < k"
  shows "x = y"
proof (rule bit_eqI)
  fix n
  show "bit x n \<longleftrightarrow> bit y n"
  proof (induction "32 - n" arbitrary: n rule: less_induct)
    case less
    show ?case
    proof (cases "n < 32")
      case True
      then have "bit x (n + k) \<longleftrightarrow> bit y (n + k)"
        using assms(2) by (intro less.hyps) linarith
      moreover have "bit (x XOR drop_bit k x) n \<longleftrightarrow> bit (y XOR drop_bit k y) n"
        using assms(1) by (simp only:)
      ultimately show ?thesis by (auto simp: bit_xor_iff bit_drop_bit_eq add.commute)
    next
      case False
      then show ?thesis by (auto dest: bit_imp_le_length)
    qed
  qed
qed

lemma xor_shift_left_inject:
  assumes "x XOR (push_bit k x AND c) = y XOR (push_bit k y AND (c :: u32))" "0 < k"
  shows "x = y"
proof (rule bit_word_eqI)
  fix n
  show "n < LENGTH(32) \<Longrightarrow> bit x n \<longleftrightarrow> bit y n"
  proof (induction n rule: less_induct)
    case (less n)
    have "k \<le> n \<Longrightarrow> bit x (n - k) \<longleftrightarrow> bit y (n - k)"
      using less assms(2) by simp
    moreover have "bit (x XOR (push_bit k x AND c)) n \<longleftrightarrow> bit (y XOR (push_bit k y AND c)) n"
      using assms(1) by simp
    ultimately show ?case by (auto simp: bit_xor_iff bit_and_iff bit_push_bit_iff)
  qed
qed

lemma inj_temper: "inj temper"
proof (rule injI)
  fix x y
  assume eq: "temper x = temper y"
  define x1 where "x1 = x XOR drop_bit 11 x"
  define y1 where "y1 = y XOR drop_bit 11 y"
  define x2 where "x2 = x1 XOR (push_bit 7 x1 AND 0x9D2C5680)"
  define y2 where "y2 = y1 XOR (push_bit 7 y1 AND 0x9D2C5680)"
  define x3 where "x3 = x2 XOR (push_bit 15 x2 AND 0xEFC60000)"
  define y3 where "y3 = y2 XOR (push_bit 15 y2 AND 0xEFC60000)"
  have "x3 XOR drop_bit 18 x3 = y3 XOR drop_bit 18 y3"
    using eq unfolding temper_def Let_def x3_def x2_def x1_def y3_def y2_def y1_def .
  then have "x3 = y3" by (rule xor_shift_right_inject) simp
  then have "x2 = y2" unfolding x3_def y3_def by (rule xor_shift_left_inject) simp
  then have "x1 = y1" unfolding x2_def y2_def by (rule xor_shift_left_inject) simp
  then show "x = y" unfolding x1_def y1_def by (rule xor_shift_right_inject) simp
qed

lemma temper_bij: "bij temper"
  using inj_temper by (intro bijI finite_UNIV_inj_surj) simp_all


subsection \<open>The congruential steps are bijections\<close>

lemma affine_bij:
  fixes a b c :: "'a::len word"
  assumes "b * a = 1"
  shows "bij (\<lambda>x. a * x + c)"
proof -
  have "inj (\<lambda>x. a * x + c)"
  proof (rule injI)
    fix x y
    assume "a * x + c = a * y + c"
    then have "b * (a * x) = b * (a * y)" by simp
    then show "x = y" using assms by (simp flip: mult.assoc)
  qed
  then show ?thesis by (intro bijI finite_UNIV_inj_surj) simp_all
qed

lemma rand_step_bij: "bij (\<lambda>seed. snd (rand seed))"
proof -
  have "(13877824140714322085 :: u64) * 6364136223846793005 = 1" by simp
  from affine_bij [OF this, of 1] show ?thesis by (simp add: rand_def Let_def)
qed

lemma rand_r_step_bij: "bij (\<lambda>seed. snd (rand_r seed))"
proof -
  have "(4005161829 :: u32) * 1103515245 = 1" by simp
  from affine_bij [OF this, of 12345] show ?thesis by (simp add: rand_r_def Let_def mult.commute)
qed


subsection \<open>Properties\<close>

lemma rand_correct_laws:
  "uint (snd (rand seed)) = (6364136223846793005 * uint seed + 1) mod 2 ^ 64"
  "sint (fst (rand seed)) = uint (snd (rand seed)) div 2 ^ 33"
  "0 \<le> sint (fst (rand seed))"
  "bij (\<lambda>seed. snd (rand seed))"
proof -
  let ?s = "snd (rand seed)"
  show "uint ?s = (6364136223846793005 * uint seed + 1) mod 2 ^ 64"
    by (simp add: rand_def Let_def uint_word_ariths mod_simps)
  have top: "0 \<le> k div 2 ^ 33 \<and> k div 2 ^ 33 < 2 ^ 31" if "0 \<le> k" "k < 2 ^ 64" for k :: int
    using that zdiv_mono1 [of k "2 ^ 64 - 1" "2 ^ 33"] by (simp add: pos_imp_zdiv_nonneg_iff)
  have b: "0 \<le> uint ?s div 2 ^ 33 \<and> uint ?s div 2 ^ 33 < 2 ^ 31"
    using uint_lt2p [of ?s] by (intro top) simp_all
  have "uint (fst (rand seed)) = uint ?s div 2 ^ 33"
    using b by (simp add: rand_def Let_def unsigned_ucast_eq drop_bit_eq_div uint_div take_bit_eq_mod)
  then show "sint (fst (rand seed)) = uint ?s div 2 ^ 33"
    using b by (simp add: sint_32)
  then show "0 \<le> sint (fst (rand seed))" using b by simp
  show "bij (\<lambda>seed. snd (rand seed))" by (rule rand_step_bij)
qed

text \<open>
  \<open>rand\<close> returns the upper 31 bits of the new seed, so a value from 0 to
  \<open>2\<^sup>3\<^sup>1 - 1\<close>, and its step permutes the \<open>2\<^sup>6\<^sup>4\<close> seeds: no two seeds merge.
\<close>

theorem rand_correct:
  "(uint (snd (rand seed)) = (6364136223846793005 * uint seed + 1) mod 2 ^ 64)
   \<and> (sint (fst (rand seed)) = uint (snd (rand seed)) div 2 ^ 33)
   \<and> (0 \<le> sint (fst (rand seed)))
   \<and> (bij (\<lambda>seed. snd (rand seed)))"
  by (intro conjI allI impI rand_correct_laws)

lemma srand_correct_laws:
  "uint (srand s) = (if s = 0 then 2 ^ 64 - 1 else uint s - 1)"
  "inj srand"
proof -
  have widen: "uint (ucast s :: u64) = uint s" for s :: u32
  proof -
    have "take_bit 64 (uint s) = uint s"
      using uint_lt2p [of s] by (intro take_bit_int_eq_self) simp_all
    then show ?thesis by (simp add: unsigned_ucast_eq)
  qed
  show "uint (srand s) = (if s = 0 then 2 ^ 64 - 1 else uint s - 1)"
  proof (cases "s = 0")
    case False
    then have "1 \<le> uint s" by (metis uint_ge_0 uint_0_iff int_one_le_iff_zero_less order_le_less)
    with False show ?thesis by (simp add: srand_def uint_sub_if' widen)
  qed (simp add: srand_def unsigned_minus_1_eq_mask mask_eq_exp_minus_1)
  show "inj srand"
  proof (rule injI)
    fix x y
    assume "srand x = srand y"
    then have "(ucast x :: u64) = ucast y" by (simp add: srand_def)
    then have "uint (ucast x :: u64) = uint (ucast y :: u64)" by simp
    then show "x = y" by (simp only: widen word_uint_eq_iff)
  qed
qed

text \<open>
  C40. \<open>srand\<close> subtracts 1 after widening the seed to 64 bits: every seed but 0 gives the
  seed less one, and 0 gives \<open>2\<^sup>6\<^sup>4 - 1\<close>, where the C library it follows subtracts in 32
  bits and gives \<open>2\<^sup>3\<^sup>2 - 1\<close>. Distinct seeds give distinct states.
\<close>

theorem srand_correct:
  "(uint (srand s) = (if s = 0 then 2 ^ 64 - 1 else uint s - 1))
   \<and> (inj srand)"
  by (intro conjI allI impI srand_correct_laws)

text \<open>A program that never calls \<open>srand\<close> gets the numbers of \<open>srand(1)\<close>.\<close>

lemma unseeded_rand: "rand RAND_SEED = rand (srand 1)"
  by (simp add: RAND_SEED_def srand_def)

lemma rand_r_correct_laws:
  "0 \<le> sint (fst (rand_r seed))"
  "uint (fst (rand_r seed)) = uint (temper (snd (rand_r seed))) div 2"
  "bij temper"
  "bij (\<lambda>seed. snd (rand_r seed))"
proof -
  show d: "uint (fst (rand_r seed)) = uint (temper (snd (rand_r seed))) div 2"
    by (simp add: rand_r_def Let_def uint_div)
  have "uint (temper (snd (rand_r seed))) < 2 ^ 32"
    using uint_lt2p [of "temper (snd (rand_r seed))"] by simp
  then show "0 \<le> sint (fst (rand_r seed))"
    unfolding sint_nonneg_32 d by simp
qed (rule temper_bij, rule rand_r_step_bij)

text \<open>
  \<open>rand_r\<close> returns a value from 0 to \<open>2\<^sup>3\<^sup>1 - 1\<close>; its step permutes the seeds and
  the tempering permutes the 32-bit words, so that over all seeds every result occurs exactly
  as often as halving a word gives it.
\<close>

theorem rand_r_correct:
  "(0 \<le> sint (fst (rand_r seed)))
   \<and> (uint (fst (rand_r seed)) = uint (temper (snd (rand_r seed))) div 2)
   \<and> (bij temper)
   \<and> (bij (\<lambda>seed. snd (rand_r seed)))"
  by (intro conjI allI impI rand_r_correct_laws)

lemma rand48_family_laws:
  assumes "rand48_wf st" "x' = lcg48 (a48 st) (c48 st) (x48 st)"
  shows "\<exists>st'. drand48 st = (of_int x' / 2 ^ 48, st')
    \<and> (\<exists>l m. lrand48 st = (l, st') \<and> sint l = x' div 2 ^ 17
         \<and> mrand48 st = (m, st') \<and> sint m = signed_take_bit 31 (x' div 2 ^ 16))
    \<and> rand48_wf st' \<and> x48 st' = x' \<and> a48 st' = a48 st \<and> c48 st' = c48 st"
proof -
  obtain step xi where e: "rand48_step (seed48_xi st) (seed48_lc st) = (step, xi)"
    and step: "uint step = x'" and st': "x48 (set_xi st xi) = x'" "rand48_wf (set_xi st xi)"
      "a48 (set_xi st xi) = a48 st" "c48 (set_xi st xi) = c48 st"
    using rand48_global [OF assms(1)] assms(2) by metis
  have b: "0 \<le> x'" "x' < 2 ^ 48" using assms(2) lcg48_bound by simp_all
  have d: "drand48 st = (of_int x' / 2 ^ 48, set_xi st xi)"
    using e step b erand48_bits [of step] by (simp add: drand48_def erand48_def)
  have l: "lrand48 st = (drop_bit 17 step, set_xi st xi)"
    using e by (simp add: lrand48_def nrand48_def)
  have m: "mrand48 st = (scast (ucast (drop_bit 16 step) :: i32), set_xi st xi)"
    using e by (simp add: mrand48_def jrand48_def)
  have "uint (drop_bit 17 step) = x' div 2 ^ 17"
    by (simp add: drop_bit_eq_div uint_div step)
  then have "sint (drop_bit 17 step) = x' div 2 ^ 17" using b by (simp add: sint_64)
  moreover have "sint (scast (ucast (drop_bit 16 step) :: i32) :: i64) = signed_take_bit 31 (x' div 2 ^ 16)"
    unfolding sint_scast_64 by (simp add: signed_ucast_eq drop_bit_eq_div uint_div step)
  ultimately show ?thesis using d l m st' by (intro exI [of _ "set_xi st xi"]) simp
qed

text \<open>
  C20. The 48-bit functions over \<open>__seed48\<close> implement the linear congruential generator: each
  call moves the state to \<open>X' = (a X + c) mod 2\<^sup>4\<^sup>8\<close>, leaves multiplier and addend alone, and
  returns its leading bits: \<open>drand48\<close> the fraction \<open>X' / 2\<^sup>4\<^sup>8\<close> in \<open>[0, 1)\<close>,
  \<open>lrand48\<close> the upper 31 bits, \<open>mrand48\<close> the upper 32 bits as a signed number.
\<close>

theorem rand48_family_correct:
  assumes "rand48_wf st" "x' = lcg48 (a48 st) (c48 st) (x48 st)"
  shows "\<exists>st'. drand48 st = (of_int x' / 2 ^ 48, st')
    \<and> (\<exists>l m. lrand48 st = (l, st') \<and> sint l = x' div 2 ^ 17
         \<and> mrand48 st = (m, st') \<and> sint m = signed_take_bit 31 (x' div 2 ^ 16))
    \<and> rand48_wf st' \<and> x48 st' = x' \<and> a48 st' = a48 st \<and> c48 st' = c48 st"
  by (rule rand48_family_laws [OF assms])

lemma rand48_family_correct_witness:
  "\<exists>st'. drand48 rand48_init = (11 / 2 ^ 48, st') \<and> x48 st' = 11"
proof -
  have "rand48_wf rand48_init" "11 = lcg48 (a48 rand48_init) (c48 rand48_init) (x48 rand48_init)"
    by (simp_all add: rand48_wf_def rand48_init_def lcg48_def halves_def)
  from rand48_family_correct [OF this] show ?thesis by auto
qed

text \<open>
  \<open>nrand48\<close>, \<open>jrand48\<close> and \<open>erand48\<close> run the same generator on the three
  halves of the caller: those move to the next state of the generator with the multiplier and
  addend of \<open>__seed48\<close>, whose own state the call does not read.
\<close>

theorem caller_state_correct:
  assumes "rand48_wf st" "length s = 3"
  defines "x' \<equiv> lcg48 (a48 st) (c48 st) (halves s)"
  shows "\<exists>s'. length s' = 3 \<and> halves s' = x' \<and> erand48 st s = (of_int x' / 2 ^ 48, s')
    \<and> snd (nrand48 st s) = s' \<and> sint (fst (nrand48 st s)) = x' div 2 ^ 17
    \<and> snd (jrand48 st s) = s' \<and> sint (fst (jrand48 st s)) = signed_take_bit 31 (x' div 2 ^ 16)"
proof -
  obtain step s' where e: "rand48_step s (seed48_lc st) = (step, s')"
    by (cases "rand48_step s (seed48_lc st)")
  have "seed48_lc st ! 3 = seed48_arr st ! 6"
    using assms(1) by (simp add: seed48_lc_def rand48_wf_def)
  then have step: "uint step = x'" "halves s' = x'" "length s' = 3"
    using rand48_step_lcg [OF assms(2) e] by (simp_all add: x'_def)
  have b: "0 \<le> x'" "x' < 2 ^ 48" unfolding x'_def by (rule lcg48_bound)+
  have "uint (drop_bit 17 step) = x' div 2 ^ 17"
    by (simp add: drop_bit_eq_div uint_div step)
  then have "sint (drop_bit 17 step) = x' div 2 ^ 17" using b by (simp add: sint_64)
  moreover have "sint (scast (ucast (drop_bit 16 step) :: i32) :: i64) = signed_take_bit 31 (x' div 2 ^ 16)"
    unfolding sint_scast_64 by (simp add: signed_ucast_eq drop_bit_eq_div uint_div step)
  ultimately show ?thesis
    using e step b erand48_bits [of step]
    by (intro exI [of _ s']) (simp add: erand48_def nrand48_def jrand48_def)
qed

lemma caller_state_correct_witness:
  "\<exists>s'. erand48 rand48_init [1, 0, 0] = (0x5deece678 / 2 ^ 48, s') \<and> halves s' = 0x5deece678"
proof -
  have "rand48_wf rand48_init" "length [1, 0, 0 :: c_ushort] = 3"
    by (simp_all add: rand48_wf_def rand48_init_def)
  moreover have "lcg48 (a48 rand48_init) (c48 rand48_init) (halves [1, 0, 0]) = 0x5deece678"
    by (simp add: lcg48_def halves_def rand48_init_def seed48_lc_def)
  ultimately show ?thesis using caller_state_correct [of rand48_init "[1, 0, 0]"] by auto
qed

text \<open>The halves of the state after a write of three halves.\<close>

lemma seed48_state:
  assumes "rand48_wf st" "length s = 3"
  shows "seed48 st (Caller s)
    = (take 3 (seed48_arr st), st\<lparr>prev := take 3 (seed48_arr st), seed48_arr := s @ drop 3 (seed48_arr st)\<rparr>)"
proof -
  obtain s0 s1 s2 where s: "s = [s0, s1, s2]"
    using assms(2) by (auto simp: length_Suc_conv numeral_3_eq_3)
  obtain x0 x1 x2 r where x: "seed48_arr st = x0 # x1 # x2 # r"
    using assms(1) by (auto simp: rand48_wf_def length_Suc_conv eval_nat_numeral)
  show ?thesis by (simp add: seed48_def s x Let_def)
qed

text \<open>
  C38. \<open>seed48\<close> exchanges: it installs the given three halves as the state, keeps multiplier
  and addend, and returns the old state, so that a second call with a copy of the result
  restores the generator. A call on the returned array itself does not restore it: that array
  is overwritten with the current state before it is read.
\<close>

theorem seed48_exchanges:
  assumes "rand48_wf st" "length s = 3" "seed48 st (Caller s) = (old, st')"
  shows "seed48_xi st' = s \<and> seed48_lc st' = seed48_lc st \<and> old = seed48_xi st
    \<and> seed48_arr (snd (seed48 st' (Caller old))) = seed48_arr st
    \<and> seed48_arr (snd (seed48 st' Prev)) = seed48_arr st'"
proof -
  have st': "old = take 3 (seed48_arr st)" "prev st' = old"
    "seed48_arr st' = s @ drop 3 (seed48_arr st)"
    using assms(3) by (auto simp: seed48_state [OF assms(1,2)])
  have wf: "rand48_wf st'" "length old = 3"
    using st' assms(1,2) by (simp_all add: rand48_wf_def)
  have "seed48_arr (snd (seed48 st' (Caller old))) = seed48_arr st"
    unfolding seed48_state [OF wf] using st' assms(2) by simp
  moreover have "seed48_arr (snd (seed48 st' Prev)) = seed48_arr st'"
    by (simp add: seed48_def Let_def)
  ultimately show ?thesis
    using st' assms(1,2) by (simp add: seed48_xi_def seed48_lc_def rand48_wf_def)
qed

lemma seed48_exchanges_witness:
  "seed48_arr (snd (seed48 (snd (seed48 rand48_init (Caller [1, 2, 3]))) (Caller [0, 0, 0])))
   = seed48_arr rand48_init"
proof -
  have "rand48_wf rand48_init" "length [1, 2, 3 :: c_ushort] = 3"
    "seed48 rand48_init (Caller [1, 2, 3]) = ([0, 0, 0], snd (seed48 rand48_init (Caller [1, 2, 3])))"
    by (simp_all add: rand48_wf_def rand48_init_def seed48_def)
  from seed48_exchanges [OF this] show ?thesis by blast
qed

text \<open>
  \<open>srand48\<close> puts the low 32 bits of the seed above the constant \<open>0x330e\<close>, and
  \<open>lcong48\<close> installs state, multiplier and addend from its seven halves.
\<close>

theorem srand48_lcong48_correct:
  assumes "rand48_wf st" "length p = 7"
  shows "x48 (srand48 st seed) = 2 ^ 16 * (uint seed mod 2 ^ 32) + 0x330e
    \<and> seed48_lc (srand48 st seed) = seed48_lc st
    \<and> seed48_arr (lcong48 st p) = p"
proof -
  have "uint (ucast (signed_drop_bit 16 seed) :: c_ushort) = uint seed div 2 ^ 16 mod 2 ^ 16"
    by (rule srand48_half)
  moreover have "uint (ucast seed :: c_ushort) = uint seed mod 2 ^ 16"
    by (simp add: unsigned_ucast_eq take_bit_eq_mod)
  moreover have "uint seed mod (2 ^ 16 * 2 ^ 16) = 2 ^ 16 * (uint seed div 2 ^ 16 mod 2 ^ 16) + uint seed mod 2 ^ 16"
    by (rule zmod_zmult2_eq) simp
  ultimately have "x48 (srand48 st seed) = 2 ^ 16 * (uint seed mod 2 ^ 32) + 0x330e"
    by (simp add: srand48_def seed48_state [OF assms(1)] halves_def)
  moreover obtain p0 p1 p2 p3 p4 p5 p6 where p: "p = [p0, p1, p2, p3, p4, p5, p6]"
    using assms(2) by (auto simp: length_Suc_conv eval_nat_numeral)
  moreover obtain d0 d1 d2 d3 d4 d5 d6 where "seed48_arr st = [d0, d1, d2, d3, d4, d5, d6]"
    using assms(1) by (auto simp: rand48_wf_def length_Suc_conv eval_nat_numeral)
  ultimately show ?thesis
    using assms(1)
    by (simp add: srand48_def seed48_state [OF assms(1)] seed48_lc_def lcong48_def upt_rec)
qed

lemma srand48_lcong48_correct_witness:
  "x48 (srand48 rand48_init 1) = 0x1330e"
proof -
  have "rand48_wf rand48_init" "length (seed48_arr rand48_init) = 7"
    by (simp_all add: rand48_wf_def rand48_init_def)
  from srand48_lcong48_correct [OF this, of 1] show ?thesis by simp
qed

end
