(* ===== verification/Syscall.thy ===== *)
theory Syscall
  imports Memory Errno
begin

section \<open>System calls\<close>

text \<open>
  The system-call layer: \<open>mytilus-sys/src/syscall.rs\<close>, the numbers of
  \<open>mytilus-sys/src/nr.rs\<close> and the TLS slot \<open>ERRNO_VAL\<close> of \<open>mytilus-errno/src/lib.rs\<close>.

  The kernel is not part of the repository: it is the parameter \<open>K\<close> of the definitions, a
  function of the call number, the argument registers that the stub loads, the user memory and
  a kernel state of any type; \<open>None\<close> is a call that does not return to user mode. A wrapper is
  a function of the state \<open>world\<close> with \<open>None\<close> as \<open>control never comes back to the caller\<close>.
  What the theorems assume of the kernel are the predicates \<open>max_errno\<close> and \<open>reads_args\<close>.
\<close>

type_synonym 'k kernel =
  "c_long \<Rightarrow> c_long list \<Rightarrow> mem \<Rightarrow> 'k \<Rightarrow> (c_long \<times> mem \<times> 'k) option"

text \<open>
  The state of a thread: the slot \<open>ERRNO_VAL\<close>, the static \<open>DUMMY_CANCEL\<close>, the user
  memory and the kernel. The slot and the static are separate from the memory: nothing hands
  their addresses to the kernel.
\<close>

record 'k world =
  errno :: c_int
  dummy_cancel :: c_int
  ram :: mem
  kern :: 'k

text \<open>The state of a thread that starts: both statics have the initial value 0.\<close>

definition initial_world :: "mem \<Rightarrow> 'k \<Rightarrow> 'k world" where
  "initial_world m k = \<lparr>errno = 0, dummy_cancel = 0, ram = m, kern = k\<rparr>"

type_synonym ('k, 'a) action = "'k world \<Rightarrow> ('a \<times> 'k world) option"

text \<open>\<open>*__errno_location() = e\<close>.\<close>

definition set_errno :: "c_int \<Rightarrow> 'k world \<Rightarrow> 'k world" where
  "set_errno e w = w\<lparr>errno := e\<rparr>"


subsection \<open>The numbers\<close>

named_theorems nr_defs

definition SYS_munmap :: c_long where [nr_defs]: "SYS_munmap = 215"
definition SYS_mremap :: c_long where [nr_defs]: "SYS_mremap = 216"
definition SYS_mmap :: c_long where [nr_defs]: "SYS_mmap = 222"
definition SYS_mprotect :: c_long where [nr_defs]: "SYS_mprotect = 226"
definition SYS_msync :: c_long where [nr_defs]: "SYS_msync = 227"
definition SYS_mlock :: c_long where [nr_defs]: "SYS_mlock = 228"
definition SYS_munlock :: c_long where [nr_defs]: "SYS_munlock = 229"
definition SYS_mlockall :: c_long where [nr_defs]: "SYS_mlockall = 230"
definition SYS_munlockall :: c_long where [nr_defs]: "SYS_munlockall = 231"
definition SYS_mincore :: c_long where [nr_defs]: "SYS_mincore = 232"
definition SYS_madvise :: c_long where [nr_defs]: "SYS_madvise = 233"
definition SYS_nanosleep :: c_long where [nr_defs]: "SYS_nanosleep = 101"
definition SYS_clock_settime :: c_long where [nr_defs]: "SYS_clock_settime = 112"
definition SYS_clock_gettime :: c_long where [nr_defs]: "SYS_clock_gettime = 113"
definition SYS_clock_getres :: c_long where [nr_defs]: "SYS_clock_getres = 114"
definition SYS_clock_nanosleep :: c_long where [nr_defs]: "SYS_clock_nanosleep = 115"
definition SYS_gettimeofday :: c_long where [nr_defs]: "SYS_gettimeofday = 169"
definition SYS_fcntl :: c_long where [nr_defs]: "SYS_fcntl = 25"
definition SYS_fallocate :: c_long where [nr_defs]: "SYS_fallocate = 47"
definition SYS_openat :: c_long where [nr_defs]: "SYS_openat = 56"
definition SYS_close :: c_long where [nr_defs]: "SYS_close = 57"
definition SYS_fadvise64 :: c_long where [nr_defs]: "SYS_fadvise64 = 223"
definition SYS_dup :: c_long where [nr_defs]: "SYS_dup = 23"
definition SYS_dup3 :: c_long where [nr_defs]: "SYS_dup3 = 24"
definition SYS_lseek :: c_long where [nr_defs]: "SYS_lseek = 62"
definition SYS_read :: c_long where [nr_defs]: "SYS_read = 63"
definition SYS_write :: c_long where [nr_defs]: "SYS_write = 64"
definition SYS_pread64 :: c_long where [nr_defs]: "SYS_pread64 = 67"
definition SYS_pwrite64 :: c_long where [nr_defs]: "SYS_pwrite64 = 68"
definition SYS_ppoll :: c_long where [nr_defs]: "SYS_ppoll = 73"
definition SYS_sync :: c_long where [nr_defs]: "SYS_sync = 81"
definition SYS_fsync :: c_long where [nr_defs]: "SYS_fsync = 82"
definition SYS_fdatasync :: c_long where [nr_defs]: "SYS_fdatasync = 83"
definition SYS_exit :: c_long where [nr_defs]: "SYS_exit = 93"
definition SYS_exit_group :: c_long where [nr_defs]: "SYS_exit_group = 94"
definition SYS_sched_yield :: c_long where [nr_defs]: "SYS_sched_yield = 124"
definition SYS_kill :: c_long where [nr_defs]: "SYS_kill = 129"
definition SYS_setpgid :: c_long where [nr_defs]: "SYS_setpgid = 154"
definition SYS_getpgid :: c_long where [nr_defs]: "SYS_getpgid = 155"
definition SYS_getsid :: c_long where [nr_defs]: "SYS_getsid = 156"
definition SYS_setsid :: c_long where [nr_defs]: "SYS_setsid = 157"
definition SYS_getpid :: c_long where [nr_defs]: "SYS_getpid = 172"
definition SYS_getppid :: c_long where [nr_defs]: "SYS_getppid = 173"
definition SYS_getuid :: c_long where [nr_defs]: "SYS_getuid = 174"
definition SYS_geteuid :: c_long where [nr_defs]: "SYS_geteuid = 175"
definition SYS_getgid :: c_long where [nr_defs]: "SYS_getgid = 176"
definition SYS_getegid :: c_long where [nr_defs]: "SYS_getegid = 177"


subsection \<open>The stubs\<close>

text \<open>\<open>svc #0\<close> with the number in x8, the arguments in x0 up, the result in x0.\<close>

definition svc :: "'k kernel \<Rightarrow> c_long \<Rightarrow> c_long list \<Rightarrow> ('k, c_long) action" where
  "svc K n args w = do {
     (r, m, k) \<leftarrow> K n args (ram w) (kern w);
     Some (r, w\<lparr>ram := m, kern := k\<rparr>)
   }"

definition syscall0 :: "'k kernel \<Rightarrow> c_long \<Rightarrow> ('k, c_long) action" where
  "syscall0 K n w = svc K n [] w"

definition syscall1 :: "'k kernel \<Rightarrow> c_long \<Rightarrow> c_long \<Rightarrow> ('k, c_long) action" where
  "syscall1 K n a0 w = svc K n [a0] w"

definition syscall2 :: "'k kernel \<Rightarrow> c_long \<Rightarrow> c_long \<Rightarrow> c_long \<Rightarrow> ('k, c_long) action" where
  "syscall2 K n a0 a1 w = svc K n [a0, a1] w"

definition syscall3 ::
    "'k kernel \<Rightarrow> c_long \<Rightarrow> c_long \<Rightarrow> c_long \<Rightarrow> c_long \<Rightarrow> ('k, c_long) action" where
  "syscall3 K n a0 a1 a2 w = svc K n [a0, a1, a2] w"

definition syscall4 ::
    "'k kernel \<Rightarrow> c_long \<Rightarrow> c_long \<Rightarrow> c_long \<Rightarrow> c_long \<Rightarrow> c_long \<Rightarrow> ('k, c_long) action" where
  "syscall4 K n a0 a1 a2 a3 w = svc K n [a0, a1, a2, a3] w"

definition syscall5 ::
    "'k kernel \<Rightarrow> c_long \<Rightarrow> c_long \<Rightarrow> c_long \<Rightarrow> c_long \<Rightarrow> c_long \<Rightarrow> c_long
      \<Rightarrow> ('k, c_long) action" where
  "syscall5 K n a0 a1 a2 a3 a4 w = svc K n [a0, a1, a2, a3, a4] w"

definition syscall6 ::
    "'k kernel \<Rightarrow> c_long \<Rightarrow> c_long \<Rightarrow> c_long \<Rightarrow> c_long \<Rightarrow> c_long \<Rightarrow> c_long \<Rightarrow> c_long
      \<Rightarrow> ('k, c_long) action" where
  "syscall6 K n a0 a1 a2 a3 a4 a5 w = svc K n [a0, a1, a2, a3, a4, a5] w"

definition is_err :: "c_long \<Rightarrow> bool" where
  "is_err rc \<longleftrightarrow> rc \<ge> - 4096"

definition ret :: "c_long \<Rightarrow> 'k world \<Rightarrow> c_long \<times> 'k world" where
  "ret r w = (if is_err r then (- 1, set_errno (ucast (- r)) w) else (r, w))"

text \<open>
  \<open>__cancel\<close>: \<open>exit_group(0)\<close>, and the abort instruction behind it if the kernel comes
  back.
\<close>

definition cancel :: "'k kernel \<Rightarrow> ('k, c_long) action" where
  "cancel K w = do { (r, w') \<leftarrow> syscall1 K 94 0 w; None }"

text \<open>
  \<open>__syscall_cp_asm\<close> of \<open>asm/syscall_cp.s\<close>: \<open>ldr w0,[x0]; cbnz w0\<close> on the flag, then
  the \<open>svc\<close> with all six argument registers. The flag is always \<open>DUMMY_CANCEL\<close>.
\<close>

definition syscall_cp_asm :: "'k kernel \<Rightarrow> c_long \<Rightarrow> c_long \<Rightarrow> c_long \<Rightarrow> c_long \<Rightarrow> c_long \<Rightarrow> c_long
    \<Rightarrow> c_long \<Rightarrow> ('k, c_long) action" where
  "syscall_cp_asm K n u v x y z t w =
     (if dummy_cancel w \<noteq> 0 then cancel K w else svc K n [u, v, x, y, z, t] w)"

definition syscall_cp0 :: "'k kernel \<Rightarrow> c_long \<Rightarrow> ('k, c_long) action" where
  "syscall_cp0 K n w = syscall_cp_asm K n 0 0 0 0 0 0 w"

definition syscall_cp1 :: "'k kernel \<Rightarrow> c_long \<Rightarrow> c_long \<Rightarrow> ('k, c_long) action" where
  "syscall_cp1 K n a0 w = syscall_cp_asm K n a0 0 0 0 0 0 w"

definition syscall_cp2 :: "'k kernel \<Rightarrow> c_long \<Rightarrow> c_long \<Rightarrow> c_long \<Rightarrow> ('k, c_long) action" where
  "syscall_cp2 K n a0 a1 w = syscall_cp_asm K n a0 a1 0 0 0 0 w"

definition syscall_cp3 ::
    "'k kernel \<Rightarrow> c_long \<Rightarrow> c_long \<Rightarrow> c_long \<Rightarrow> c_long \<Rightarrow> ('k, c_long) action" where
  "syscall_cp3 K n a0 a1 a2 w = syscall_cp_asm K n a0 a1 a2 0 0 0 w"

definition syscall_cp4 ::
    "'k kernel \<Rightarrow> c_long \<Rightarrow> c_long \<Rightarrow> c_long \<Rightarrow> c_long \<Rightarrow> c_long \<Rightarrow> ('k, c_long) action" where
  "syscall_cp4 K n a0 a1 a2 a3 w = syscall_cp_asm K n a0 a1 a2 a3 0 0 w"

definition syscall_cp5 ::
    "'k kernel \<Rightarrow> c_long \<Rightarrow> c_long \<Rightarrow> c_long \<Rightarrow> c_long \<Rightarrow> c_long \<Rightarrow> c_long
      \<Rightarrow> ('k, c_long) action" where
  "syscall_cp5 K n a0 a1 a2 a3 a4 w = syscall_cp_asm K n a0 a1 a2 a3 a4 0 w"

definition syscall_cp6 ::
    "'k kernel \<Rightarrow> c_long \<Rightarrow> c_long \<Rightarrow> c_long \<Rightarrow> c_long \<Rightarrow> c_long \<Rightarrow> c_long \<Rightarrow> c_long
      \<Rightarrow> ('k, c_long) action" where
  "syscall_cp6 K n a0 a1 a2 a3 a4 a5 w = syscall_cp_asm K n a0 a1 a2 a3 a4 a5 w"

text \<open>\<open>ret(r) as T\<close> for an integer type \<open>T\<close>, and \<open>-r as c_int\<close>.\<close>

definition ret_as :: "c_long \<Rightarrow> 'k world \<Rightarrow> ('c::len word \<times> 'k world) option" where
  "ret_as r w = (let (v, w') = ret r w in Some (ucast v, w'))"

definition neg_as :: "c_long \<Rightarrow> 'k world \<Rightarrow> (c_int \<times> 'k world) option" where
  "neg_as r w = Some (ucast (- r), w)"


subsection \<open>What is assumed of the kernel\<close>

text \<open>
  The ABI of Linux: an error is a number of \<open>-4095 .. -1\<close>, no call returns \<open>-4096\<close>; and a
  call with \<open>ar n\<close> arguments depends on no other argument register.
\<close>

definition max_errno :: "'k kernel \<Rightarrow> bool" where
  "max_errno K \<longleftrightarrow> (\<forall>n args m k r m' k'. K n args m k = Some (r, m', k') \<longrightarrow> r \<noteq> - 4096)"

definition reads_args :: "'k kernel \<Rightarrow> (c_long \<Rightarrow> nat) \<Rightarrow> bool" where
  "reads_args K ar \<longleftrightarrow>
     (\<forall>n as bs m k. take (ar n) as = take (ar n) bs \<longrightarrow> K n as m k = K n bs m k)"

text \<open>
  A kernel for concrete inputs: it replies with the results of a script, each with bytes that it
  writes at an address, and logs every call with its first \<open>ar n\<close> arguments.
\<close>

record script =
  replies :: "(c_long \<times> ptr \<times> u8 list) list"
  calls :: "(c_long \<times> c_long list) list"

definition script_kernel :: "(c_long \<Rightarrow> nat) \<Rightarrow> script kernel" where
  "script_kernel ar n args m k =
     (case replies k of
       [] \<Rightarrow> None
     | (r, p, bs) # rs \<Rightarrow>
         Some (r, put m p bs, k\<lparr>replies := rs, calls := calls k @ [(n, take (ar n) args)]\<rparr>))"

lemma script_kernel_reads_args: "reads_args (script_kernel ar) ar"
  by (auto simp: reads_args_def script_kernel_def fun_eq_iff split: list.splits)


subsection \<open>The convention for results\<close>

lemma uint_minus_4096: "uint (- 4096 :: c_long) = 2 ^ 64 - 4096"
  by simp

lemma is_err_iff: "is_err r \<longleftrightarrow> - 4096 \<le> sint r \<and> sint r < 0"
  using uint_lt2p [of r]
  by (auto simp: is_err_def sint_64 word_le_def uint_minus_4096 split: if_splits)

lemma is_err_minus_1 [simp]: "is_err (- 1)"
  by (simp add: is_err_def)

lemma sint_minus_64: "sint r \<noteq> - (2 ^ 63) \<Longrightarrow> sint (- r :: c_long) = - sint r"
  using sint_64_bounds [of r] signed_take_bit_int_eq_self [of 63 "- sint r"]
  by (simp add: sint_word_ariths)

text \<open>\<open>-r as c_int\<close> is exact on small results.\<close>

lemma sint_ucast_32:
  assumes "- (2 ^ 31) \<le> sint (x :: i64)" "sint x < 2 ^ 31"
  shows "sint (ucast x :: c_int) = sint x"
proof -
  have "sint (ucast x :: c_int) = signed_take_bit 31 (sint x)"
    by (simp add: sint_uint unsigned_ucast_eq signed_take_bit_take_bit signed_take_bit_signed_take_bit)
  with assms show ?thesis by (simp add: signed_take_bit_int_eq_self)
qed

lemma sint_neg_errno:
  assumes "- (2 ^ 31) < sint (r :: c_long)" "sint r \<le> 0"
  shows "sint (ucast (- r) :: c_int) = - sint r"
proof -
  have "sint (- r) = - sint r"
    by (rule sint_minus_64, rule notI) (use assms in simp)
  then show ?thesis using assms by (simp add: sint_ucast_32)
qed

lemma ret_err: "is_err r \<Longrightarrow> ret r w = (- 1, set_errno (ucast (- r)) w)"
  by (simp add: ret_def)

lemma ret_ok: "\<not> is_err r \<Longrightarrow> ret r w = (r, w)"
  by (simp add: ret_def)

lemma set_errno_simps [simp]:
  "errno (set_errno e w) = e" "dummy_cancel (set_errno e w) = dummy_cancel w"
  "ram (set_errno e w) = ram w" "kern (set_errno e w) = kern w"
  by (simp_all add: set_errno_def)

lemma ucast_minus_1:
  assumes "LENGTH('c::len) \<le> 64"
  shows "(ucast (- 1 :: c_long) :: 'c word) = - 1"
proof (rule bit_word_eqI)
  fix n assume "n < LENGTH('c)"
  with assms show "bit (ucast (- 1 :: c_long) :: 'c word) n \<longleftrightarrow> bit (- 1 :: 'c word) n"
    by (simp add: bit_simps)
qed


subsection \<open>The rule for errno\<close>

text \<open>
  What every function of the library promises: the cancel flag stays as it is, and \<open>errno\<close>
  either stays as it is or becomes a number of \<open>1 .. 4096\<close>, never 0; the functions of the
  POSIX convention set it only together with the result -1.
\<close>

definition valid_errno :: "c_int \<Rightarrow> bool" where
  "valid_errno e \<longleftrightarrow> 1 \<le> sint e \<and> sint e \<le> 4096"

definition sane :: "('k, 'a) action \<Rightarrow> bool" where
  "sane f \<longleftrightarrow> (\<forall>w v w'. f w = Some (v, w') \<longrightarrow>
     dummy_cancel w' = dummy_cancel w \<and> (errno w' = errno w \<or> valid_errno (errno w')))"

definition posixy :: "('k, 'c::len word) action \<Rightarrow> bool" where
  "posixy f \<longleftrightarrow> (\<forall>w v w'. f w = Some (v, w') \<longrightarrow>
     dummy_cancel w' = dummy_cancel w \<and>
     (errno w' = errno w \<or> v = - 1 \<and> valid_errno (errno w')))"

lemma posixyI:
  assumes "\<And>w v w'. f w = Some (v, w') \<Longrightarrow> dummy_cancel w' = dummy_cancel w"
    and "\<And>w v w'. f w = Some (v, w') \<Longrightarrow> errno w' = errno w \<or> v = - 1 \<and> valid_errno (errno w')"
  shows "posixy f"
  using assms by (auto simp: posixy_def)

lemma posixy_sane: "posixy f \<Longrightarrow> sane f"
  by (auto simp: posixy_def sane_def)

lemma valid_errno_of_err: "is_err r \<Longrightarrow> valid_errno (ucast (- r))"
  using sint_neg_errno [of r] by (simp add: is_err_iff valid_errno_def)


subsection \<open>What the stubs keep\<close>

text \<open>
  The contract of a raw call towards the wrappers: it leaves \<open>errno\<close> and the cancel flag
  alone.
\<close>

locale raw_call =
  fixes raw :: "('k, c_long) action"
  assumes keeps_errno: "raw w = Some (r, w') \<Longrightarrow> errno w' = errno w"
    and keeps_cancel: "raw w = Some (r, w') \<Longrightarrow> dummy_cancel w' = dummy_cancel w"

text \<open>A wrapper that hands the raw result to \<open>ret\<close>.\<close>

locale posix_call = raw_call raw for raw :: "('k, c_long) action" +
  fixes fn :: "('k, 'c::len word) action"
  assumes via_ret: "fn w = raw w \<bind> (\<lambda>(r, w'). ret_as r w')"
    and narrow: "LENGTH('c) \<le> 64"
begin

lemma minus_1: "(ucast (- 1 :: c_long) :: 'c word) = - 1"
  using narrow by (simp add: ucast_minus_1)

lemma on_error:
  "raw w = Some (r, w') \<Longrightarrow> is_err r \<Longrightarrow> fn w = Some (- 1, set_errno (ucast (- r)) w')"
  by (simp add: via_ret ret_as_def ret_err minus_1)

lemma on_success: "raw w = Some (r, w') \<Longrightarrow> \<not> is_err r \<Longrightarrow> fn w = Some (ucast r, w')"
  by (simp add: via_ret ret_as_def ret_ok)

lemma no_return: "raw w = None \<Longrightarrow> fn w = None"
  by (simp add: via_ret)

lemma fn_cases:
  assumes "fn w = Some (v, w')"
  obtains (error) r w1 where "raw w = Some (r, w1)" "is_err r" "v = - 1"
      "w' = set_errno (ucast (- r)) w1"
    | (success) r where "raw w = Some (r, w')" "\<not> is_err r" "v = ucast r"
  using assms by (auto simp: via_ret ret_as_def ret_def minus_1 split: bind_splits if_splits)

lemma errno_kept: "fn w = Some (v, w') \<Longrightarrow> v \<noteq> - 1 \<Longrightarrow> errno w' = errno w"
  by (erule fn_cases) (auto dest: keeps_errno)

lemma cancel_kept: "fn w = Some (v, w') \<Longrightarrow> dummy_cancel w' = dummy_cancel w"
  by (erule fn_cases) (auto dest: keeps_cancel)

lemma posixy_fn: "posixy fn"
  by (rule posixyI [OF cancel_kept], assumption, erule fn_cases)
    (auto dest: keeps_errno simp: valid_errno_of_err)

end

text \<open>A wrapper that returns the error number itself.\<close>

locale direct_call = raw_call raw for raw :: "('k, c_long) action" +
  fixes fn :: "('k, c_int) action"
  assumes via_neg: "fn w = raw w \<bind> (\<lambda>(r, w'). neg_as r w')"
begin

lemma errno_kept: "fn w = Some (v, w') \<Longrightarrow> errno w' = errno w"
  by (auto simp: via_neg neg_as_def split: bind_splits dest: keeps_errno)

lemma cancel_kept: "fn w = Some (v, w') \<Longrightarrow> dummy_cancel w' = dummy_cancel w"
  by (auto simp: via_neg neg_as_def split: bind_splits dest: keeps_cancel)

lemma posixy_fn: "posixy fn"
  by (rule posixyI) (auto dest: errno_kept cancel_kept)

lemma result:
  assumes "raw w = Some (r, w')" "- (2 ^ 31) < sint r" "sint r \<le> 0"
  obtains v where "fn w = Some (v, w')" "sint v = - sint r"
  using assms sint_neg_errno [of r] by (simp add: via_neg neg_as_def)

end


subsection \<open>The stubs keep the contract\<close>

lemmas syscall_defs =
  syscall0_def syscall1_def syscall2_def syscall3_def syscall4_def syscall5_def syscall6_def

lemmas syscall_cp_defs =
  syscall_cp0_def syscall_cp1_def syscall_cp2_def syscall_cp3_def syscall_cp4_def
  syscall_cp5_def syscall_cp6_def

lemma svc_keeps:
  "svc K n args w = Some (r, w') \<Longrightarrow> errno w' = errno w"
  "svc K n args w = Some (r, w') \<Longrightarrow> dummy_cancel w' = dummy_cancel w"
  by (auto simp: svc_def split: bind_splits)

lemma cancel_never_returns [simp]: "cancel K w = None"
  by (simp add: cancel_def bind_eq_None_conv case_prod_unfold)

lemma syscall_cp_asm_keeps:
  "syscall_cp_asm K n u v x y z t w = Some (r, w') \<Longrightarrow> errno w' = errno w"
  "syscall_cp_asm K n u v x y z t w = Some (r, w') \<Longrightarrow> dummy_cancel w' = dummy_cancel w"
  by (auto simp: syscall_cp_asm_def svc_keeps split: if_splits)

interpretation raw0: raw_call "syscall0 K n" for K n
  by unfold_locales (auto simp: syscall0_def svc_keeps)

interpretation raw1: raw_call "syscall1 K n a" for K n a
  by unfold_locales (auto simp: syscall1_def svc_keeps)

interpretation raw2: raw_call "syscall2 K n a b" for K n a b
  by unfold_locales (auto simp: syscall2_def svc_keeps)

interpretation raw3: raw_call "syscall3 K n a b c" for K n a b c
  by unfold_locales (auto simp: syscall3_def svc_keeps)

interpretation raw4: raw_call "syscall4 K n a b c d" for K n a b c d
  by unfold_locales (auto simp: syscall4_def svc_keeps)

interpretation raw5: raw_call "syscall5 K n a b c d e" for K n a b c d e
  by unfold_locales (auto simp: syscall5_def svc_keeps)

interpretation raw6: raw_call "syscall6 K n a b c d e f" for K n a b c d e f
  by unfold_locales (auto simp: syscall6_def svc_keeps)

interpretation cp0: raw_call "syscall_cp0 K n" for K n
  by unfold_locales (auto simp: syscall_cp0_def syscall_cp_asm_keeps)

interpretation cp1: raw_call "syscall_cp1 K n a" for K n a
  by unfold_locales (auto simp: syscall_cp1_def syscall_cp_asm_keeps)

interpretation cp2: raw_call "syscall_cp2 K n a b" for K n a b
  by unfold_locales (auto simp: syscall_cp2_def syscall_cp_asm_keeps)

interpretation cp3: raw_call "syscall_cp3 K n a b c" for K n a b c
  by unfold_locales (auto simp: syscall_cp3_def syscall_cp_asm_keeps)

interpretation cp4: raw_call "syscall_cp4 K n a b c d" for K n a b c d
  by unfold_locales (auto simp: syscall_cp4_def syscall_cp_asm_keeps)

interpretation cp5: raw_call "syscall_cp5 K n a b c d e" for K n a b c d e
  by unfold_locales (auto simp: syscall_cp5_def syscall_cp_asm_keeps)

interpretation cp6: raw_call "syscall_cp6 K n a b c d e f" for K n a b c d e f
  by unfold_locales (auto simp: syscall_cp6_def syscall_cp_asm_keeps)


subsection \<open>The two families of stubs agree\<close>

lemma cp_asm_eq_svc:
  assumes "dummy_cancel w = 0" "reads_args K ar"
    and "[u, v, x, y, z, t] = as @ bs" "ar n \<le> length as"
  shows "syscall_cp_asm K n u v x y z t w = svc K n as w"
proof -
  have "take (ar n) (as @ bs) = take (ar n) as" using assms(4) by simp
  then have "K n (as @ bs) m k = K n as m k" for m k
    using assms(2) unfolding reads_args_def by blast
  with assms(1, 3) show ?thesis by (simp only: syscall_cp_asm_def svc_def) simp
qed

lemma syscall_cp0_eq:
  "dummy_cancel w = 0 \<Longrightarrow> reads_args K ar \<Longrightarrow> ar n \<le> 0 \<Longrightarrow>
    syscall_cp0 K n w = syscall0 K n w"
  unfolding syscall_cp0_def syscall0_def
  by (rule cp_asm_eq_svc [where ar = ar and bs = "[0, 0, 0, 0, 0, 0]"]) (simp_all, linarith?)

lemma syscall_cp1_eq:
  "dummy_cancel w = 0 \<Longrightarrow> reads_args K ar \<Longrightarrow> ar n \<le> 1 \<Longrightarrow>
    syscall_cp1 K n a w = syscall1 K n a w"
  unfolding syscall_cp1_def syscall1_def
  by (rule cp_asm_eq_svc [where ar = ar and bs = "[0, 0, 0, 0, 0]"]) (simp_all, linarith?)

lemma syscall_cp2_eq:
  "dummy_cancel w = 0 \<Longrightarrow> reads_args K ar \<Longrightarrow> ar n \<le> 2 \<Longrightarrow>
    syscall_cp2 K n a b w = syscall2 K n a b w"
  unfolding syscall_cp2_def syscall2_def
  by (rule cp_asm_eq_svc [where ar = ar and bs = "[0, 0, 0, 0]"]) (simp_all, linarith?)

lemma syscall_cp3_eq:
  "dummy_cancel w = 0 \<Longrightarrow> reads_args K ar \<Longrightarrow> ar n \<le> 3 \<Longrightarrow>
    syscall_cp3 K n a b c w = syscall3 K n a b c w"
  unfolding syscall_cp3_def syscall3_def
  by (rule cp_asm_eq_svc [where ar = ar and bs = "[0, 0, 0]"]) (simp_all, linarith?)

lemma syscall_cp4_eq:
  "dummy_cancel w = 0 \<Longrightarrow> reads_args K ar \<Longrightarrow> ar n \<le> 4 \<Longrightarrow>
    syscall_cp4 K n a b c d w = syscall4 K n a b c d w"
  unfolding syscall_cp4_def syscall4_def
  by (rule cp_asm_eq_svc [where ar = ar and bs = "[0, 0]"]) (simp_all, linarith?)

lemma syscall_cp5_eq:
  "dummy_cancel w = 0 \<Longrightarrow> reads_args K ar \<Longrightarrow> ar n \<le> 5 \<Longrightarrow>
    syscall_cp5 K n a b c d e w = syscall5 K n a b c d e w"
  unfolding syscall_cp5_def syscall5_def
  by (rule cp_asm_eq_svc [where ar = ar and bs = "[0]"]) (simp_all, linarith?)

lemma syscall_cp6_eq:
  "dummy_cancel w = 0 \<Longrightarrow> syscall_cp6 K n a b c d e f w = syscall6 K n a b c d e f w"
  by (simp add: syscall_cp6_def syscall6_def syscall_cp_asm_def)

text \<open>
  As long as the cancel flag is 0, a cancellation-point stub is the plain stub: the padding of
  the unused argument registers with zeros is invisible to a kernel that reads only the
  arguments of the call.
\<close>

theorem syscall_cp_eq_syscall:
  assumes "dummy_cancel w = 0" "reads_args K ar"
  shows "(ar n \<le> 0 \<longrightarrow> syscall_cp0 K n w = syscall0 K n w)
    \<and> (ar n \<le> 1 \<longrightarrow> syscall_cp1 K n a w = syscall1 K n a w)
    \<and> (ar n \<le> 2 \<longrightarrow> syscall_cp2 K n a b w = syscall2 K n a b w)
    \<and> (ar n \<le> 3 \<longrightarrow> syscall_cp3 K n a b c w = syscall3 K n a b c w)
    \<and> (ar n \<le> 4 \<longrightarrow> syscall_cp4 K n a b c d w = syscall4 K n a b c d w)
    \<and> (ar n \<le> 5 \<longrightarrow> syscall_cp5 K n a b c d e w = syscall5 K n a b c d e w)
    \<and> syscall_cp6 K n a b c d e f w = syscall6 K n a b c d e f w"
  using assms
  by (simp add: syscall_cp0_eq syscall_cp1_eq syscall_cp2_eq syscall_cp3_eq syscall_cp4_eq
      syscall_cp5_eq syscall_cp6_eq)

text \<open>
  The documented reading of a raw result: \<open>-4096 .. -1\<close> is an error number, anything else
  is a value.
\<close>

datatype outcome = Success c_long | Failure int

definition outcome :: "c_long \<Rightarrow> outcome" where
  "outcome r = (if - 4096 \<le> sint r \<and> sint r < 0 then Failure (- sint r) else Success r)"

lemma outcome_err: "is_err r \<Longrightarrow> outcome r = Failure (- sint r)"
  by (simp add: outcome_def is_err_iff)

lemma outcome_ok: "\<not> is_err r \<Longrightarrow> outcome r = Success r"
  by (auto simp: outcome_def is_err_iff)

lemma ucast_neg_errno: "is_err r \<Longrightarrow> (ucast (- r) :: c_int) = word_of_int (- sint r)"
proof -
  assume "is_err r"
  then have "sint (ucast (- r) :: c_int) = - sint r"
    by (intro sint_neg_errno) (simp_all add: is_err_iff)
  then show ?thesis by (metis of_int_sint scast_id)
qed

text \<open>
  The POSIX convention: a value is passed on, an error number goes to \<open>errno\<close> and the
  result is -1; no other result touches \<open>errno\<close>.
\<close>

definition posix :: "c_long \<Rightarrow> 'k world \<Rightarrow> 'c::len word \<times> 'k world" where
  "posix r w =
     (case outcome r of
       Success v \<Rightarrow> (ucast v, w)
     | Failure e \<Rightarrow> (- 1, w\<lparr>errno := word_of_int e\<rparr>))"

text \<open>
  C37. \<open>ret\<close> turns the results -4096 to -1 of the kernel into -1, with \<open>errno\<close> the positive error
  number, and hands on every other result, negative ones included, with \<open>errno\<close> as it was.
\<close>

theorem ret_correct:
  "ret r w = (if sint r \<in> {- 4096..- 1} then (- 1, w\<lparr>errno := word_of_int (- sint r)\<rparr>) else (r, w))"
proof (cases "is_err r")
  case True
  then show ?thesis using is_err_iff [of r] by (simp add: ret_err set_errno_def ucast_neg_errno)
next
  case False
  then show ?thesis using is_err_iff [of r] by (auto simp: ret_ok)
qed

lemma ret_as_posix:
  "LENGTH('c::len) \<le> 64 \<Longrightarrow> ret_as r w = Some (posix r w :: 'c word \<times> 'k world)"
  by (cases "is_err r")
    (simp_all add: ret_as_def posix_def ret_err ret_ok outcome_err outcome_ok set_errno_def
      ucast_neg_errno ucast_minus_1)

lemma ret_as_posix_32: "ret_as r w = Some (posix r w :: 32 word \<times> 'k world)"
  by (rule ret_as_posix) simp

lemma ret_as_posix_64: "ret_as r w = Some (posix r w :: 64 word \<times> 'k world)"
  by (rule ret_as_posix) simp

theorem syscall_cp_eq_syscall_witness:
  "syscall_cp2 (script_kernel (\<lambda>_. 2)) SYS_munmap 4096 8192
     (initial_world Map.empty \<lparr>replies = [(0, 0, [])], calls = []\<rparr>)
   = syscall2 (script_kernel (\<lambda>_. 2)) SYS_munmap 4096 8192
     (initial_world Map.empty \<lparr>replies = [(0, 0, [])], calls = []\<rparr>)"
  by (simp add: initial_world_def syscall_cp_eq_syscall [of _ _ "\<lambda>_. 2"]
      script_kernel_reads_args)

end
