(* ===== verification/Mman.thy ===== *)
theory Mman
  imports Syscall
begin

section \<open>Memory mapping\<close>

text \<open>
  \<open>mytilus-mman/src/lib.rs\<close>: the constants, \<open>mmap\<close> and \<open>mremap\<close> with the checks they
  make before the call, and the wrappers. A \<open>void*\<close> result is the 64-bit word of the address,
  \<open>MAP_FAILED\<close> is -1.
\<close>

named_theorems mman_defs

definition MAP_FAILED :: ptr where [mman_defs]: "MAP_FAILED = - 1"
definition MAP_SHARED :: c_int where [mman_defs]: "MAP_SHARED = 0x01"
definition MAP_PRIVATE :: c_int where [mman_defs]: "MAP_PRIVATE = 0x02"
definition MAP_SHARED_VALIDATE :: c_int where [mman_defs]: "MAP_SHARED_VALIDATE = 0x03"
definition MAP_TYPE :: c_int where [mman_defs]: "MAP_TYPE = 0x0f"
definition MAP_FIXED :: c_int where [mman_defs]: "MAP_FIXED = 0x10"
definition MAP_ANON :: c_int where [mman_defs]: "MAP_ANON = 0x20"
definition MAP_ANONYMOUS :: c_int where [mman_defs]: "MAP_ANONYMOUS = MAP_ANON"
definition MAP_NORESERVE :: c_int where [mman_defs]: "MAP_NORESERVE = 0x4000"
definition MAP_GROWSDOWN :: c_int where [mman_defs]: "MAP_GROWSDOWN = 0x0100"
definition MAP_DENYWRITE :: c_int where [mman_defs]: "MAP_DENYWRITE = 0x0800"
definition MAP_EXECUTABLE :: c_int where [mman_defs]: "MAP_EXECUTABLE = 0x1000"
definition MAP_LOCKED :: c_int where [mman_defs]: "MAP_LOCKED = 0x2000"
definition MAP_POPULATE :: c_int where [mman_defs]: "MAP_POPULATE = 0x8000"
definition MAP_NONBLOCK :: c_int where [mman_defs]: "MAP_NONBLOCK = 0x10000"
definition MAP_STACK :: c_int where [mman_defs]: "MAP_STACK = 0x20000"
definition MAP_HUGETLB :: c_int where [mman_defs]: "MAP_HUGETLB = 0x40000"
definition MAP_SYNC :: c_int where [mman_defs]: "MAP_SYNC = 0x80000"
definition MAP_FIXED_NOREPLACE :: c_int where [mman_defs]: "MAP_FIXED_NOREPLACE = 0x100000"
definition MAP_FILE :: c_int where [mman_defs]: "MAP_FILE = 0"
definition PROT_NONE :: c_int where [mman_defs]: "PROT_NONE = 0"
definition PROT_READ :: c_int where [mman_defs]: "PROT_READ = 1"
definition PROT_WRITE :: c_int where [mman_defs]: "PROT_WRITE = 2"
definition PROT_EXEC :: c_int where [mman_defs]: "PROT_EXEC = 4"
definition PROT_GROWSDOWN :: c_int where [mman_defs]: "PROT_GROWSDOWN = 0x01000000"
definition PROT_GROWSUP :: c_int where [mman_defs]: "PROT_GROWSUP = 0x02000000"
definition MS_ASYNC :: c_int where [mman_defs]: "MS_ASYNC = 1"
definition MS_INVALIDATE :: c_int where [mman_defs]: "MS_INVALIDATE = 2"
definition MS_SYNC :: c_int where [mman_defs]: "MS_SYNC = 4"
definition MCL_CURRENT :: c_int where [mman_defs]: "MCL_CURRENT = 1"
definition MCL_FUTURE :: c_int where [mman_defs]: "MCL_FUTURE = 2"
definition MCL_ONFAULT :: c_int where [mman_defs]: "MCL_ONFAULT = 4"
definition POSIX_MADV_NORMAL :: c_int where [mman_defs]: "POSIX_MADV_NORMAL = 0"
definition POSIX_MADV_RANDOM :: c_int where [mman_defs]: "POSIX_MADV_RANDOM = 1"
definition POSIX_MADV_SEQUENTIAL :: c_int where [mman_defs]: "POSIX_MADV_SEQUENTIAL = 2"
definition POSIX_MADV_WILLNEED :: c_int where [mman_defs]: "POSIX_MADV_WILLNEED = 3"
definition POSIX_MADV_DONTNEED :: c_int where [mman_defs]: "POSIX_MADV_DONTNEED = 4"
definition MADV_NORMAL :: c_int where [mman_defs]: "MADV_NORMAL = 0"
definition MADV_RANDOM :: c_int where [mman_defs]: "MADV_RANDOM = 1"
definition MADV_SEQUENTIAL :: c_int where [mman_defs]: "MADV_SEQUENTIAL = 2"
definition MADV_WILLNEED :: c_int where [mman_defs]: "MADV_WILLNEED = 3"
definition MADV_DONTNEED :: c_int where [mman_defs]: "MADV_DONTNEED = 4"
definition MADV_FREE :: c_int where [mman_defs]: "MADV_FREE = 8"
definition MADV_REMOVE :: c_int where [mman_defs]: "MADV_REMOVE = 9"
definition MADV_DONTFORK :: c_int where [mman_defs]: "MADV_DONTFORK = 10"
definition MADV_DOFORK :: c_int where [mman_defs]: "MADV_DOFORK = 11"
definition MADV_HUGEPAGE :: c_int where [mman_defs]: "MADV_HUGEPAGE = 14"
definition MADV_NOHUGEPAGE :: c_int where [mman_defs]: "MADV_NOHUGEPAGE = 15"
definition MADV_DONTDUMP :: c_int where [mman_defs]: "MADV_DONTDUMP = 16"
definition MADV_DODUMP :: c_int where [mman_defs]: "MADV_DODUMP = 17"
definition MREMAP_MAYMOVE :: c_int where [mman_defs]: "MREMAP_MAYMOVE = 1"
definition MREMAP_FIXED :: c_int where [mman_defs]: "MREMAP_FIXED = 2"
definition MREMAP_DONTUNMAP :: c_int where [mman_defs]: "MREMAP_DONTUNMAP = 4"
definition PTRDIFF_MAX :: size_t where [mman_defs]: "PTRDIFF_MAX = 0x7fffffffffffffff"
definition PAGE_SIZE :: u64 where [mman_defs]: "PAGE_SIZE = 4096"
definition OFF_MASK :: u64 where [mman_defs]: "OFF_MASK = PAGE_SIZE - 1"


subsection \<open>The operations\<close>

definition mmap ::
    "'k kernel \<Rightarrow> ptr \<Rightarrow> size_t \<Rightarrow> c_int \<Rightarrow> c_int \<Rightarrow> c_int \<Rightarrow> off_t \<Rightarrow> ('k, ptr) action" where
  "mmap K addr len prot flags fd offset w =
     (if offset AND OFF_MASK \<noteq> 0 then Some (MAP_FAILED, set_errno EINVAL w)
      else if len \<ge> PTRDIFF_MAX then Some (MAP_FAILED, set_errno ENOMEM w)
      else do {
        (r, w1) \<leftarrow> syscall6 K SYS_mmap addr len (scast prot) (scast flags) (scast fd) offset w;
        let r' = (if r = - scast EPERM \<and> addr = 0 \<and> flags AND MAP_ANON \<noteq> 0
                    \<and> flags AND MAP_FIXED = 0
                  then - scast ENOMEM else r);
        ret_as r' w1
      })"

definition munmap :: "'k kernel \<Rightarrow> ptr \<Rightarrow> size_t \<Rightarrow> ('k, c_int) action" where
  "munmap K addr len w = do {
     (r, w1) \<leftarrow> syscall2 K SYS_munmap addr len w;
     ret_as r w1
   }"

definition mprotect :: "'k kernel \<Rightarrow> ptr \<Rightarrow> size_t \<Rightarrow> c_int \<Rightarrow> ('k, c_int) action" where
  "mprotect K addr len prot w = do {
     (r, w1) \<leftarrow> syscall3 K SYS_mprotect addr len (scast prot) w;
     ret_as r w1
   }"

definition mremap ::
    "'k kernel \<Rightarrow> ptr \<Rightarrow> size_t \<Rightarrow> size_t \<Rightarrow> c_int \<Rightarrow> ptr \<Rightarrow> ('k, ptr) action" where
  "mremap K old_addr old_len new_len flags new_addr w =
     (if new_len \<ge> PTRDIFF_MAX then Some (MAP_FAILED, set_errno ENOMEM w)
      else do {
        (r, w1) \<leftarrow> syscall5 K SYS_mremap old_addr old_len new_len (scast flags) new_addr w;
        ret_as r w1
      })"

definition msync :: "'k kernel \<Rightarrow> ptr \<Rightarrow> size_t \<Rightarrow> c_int \<Rightarrow> ('k, c_int) action" where
  "msync K addr len flags w = do {
     (r, w1) \<leftarrow> syscall_cp3 K SYS_msync addr len (scast flags) w;
     ret_as r w1
   }"

definition madvise :: "'k kernel \<Rightarrow> ptr \<Rightarrow> size_t \<Rightarrow> c_int \<Rightarrow> ('k, c_int) action" where
  "madvise K addr len advice w = do {
     (r, w1) \<leftarrow> syscall3 K SYS_madvise addr len (scast advice) w;
     ret_as r w1
   }"

definition posix_madvise :: "'k kernel \<Rightarrow> ptr \<Rightarrow> size_t \<Rightarrow> c_int \<Rightarrow> ('k, c_int) action" where
  "posix_madvise K addr len advice w =
     (if advice = MADV_DONTNEED then Some (0, w)
      else do {
        (r, w1) \<leftarrow> syscall3 K SYS_madvise addr len (scast advice) w;
        neg_as r w1
      })"

definition mincore :: "'k kernel \<Rightarrow> ptr \<Rightarrow> size_t \<Rightarrow> ptr \<Rightarrow> ('k, c_int) action" where
  "mincore K addr len vec w = do {
     (r, w1) \<leftarrow> syscall3 K SYS_mincore addr len vec w;
     ret_as r w1
   }"

definition mlock :: "'k kernel \<Rightarrow> ptr \<Rightarrow> size_t \<Rightarrow> ('k, c_int) action" where
  "mlock K addr len w = do {
     (r, w1) \<leftarrow> syscall2 K SYS_mlock addr len w;
     ret_as r w1
   }"

definition munlock :: "'k kernel \<Rightarrow> ptr \<Rightarrow> size_t \<Rightarrow> ('k, c_int) action" where
  "munlock K addr len w = do {
     (r, w1) \<leftarrow> syscall2 K SYS_munlock addr len w;
     ret_as r w1
   }"

definition mlockall :: "'k kernel \<Rightarrow> c_int \<Rightarrow> ('k, c_int) action" where
  "mlockall K flags w = do {
     (r, w1) \<leftarrow> syscall1 K SYS_mlockall (scast flags) w;
     ret_as r w1
   }"

definition munlockall :: "'k kernel \<Rightarrow> ('k, c_int) action" where
  "munlockall K w = do {
     (r, w1) \<leftarrow> syscall0 K SYS_munlockall w;
     ret_as r w1
   }"


subsection \<open>The wrappers keep the convention\<close>

interpretation munmap: posix_call "syscall2 K SYS_munmap addr len" "munmap K addr len" for K addr len
  by unfold_locales (simp_all add: munmap_def)

interpretation mprotect: posix_call
  "syscall3 K SYS_mprotect addr len (scast prot)" "mprotect K addr len prot" for K addr len prot
  by unfold_locales (simp_all add: mprotect_def)

interpretation msync: posix_call
  "syscall_cp3 K SYS_msync addr len (scast flags)" "msync K addr len flags" for K addr len flags
  by unfold_locales (simp_all add: msync_def)

interpretation madvise: posix_call
  "syscall3 K SYS_madvise addr len (scast advice)" "madvise K addr len advice" for K addr len advice
  by unfold_locales (simp_all add: madvise_def)

interpretation mincore: posix_call
  "syscall3 K SYS_mincore addr len vec" "mincore K addr len vec" for K addr len vec
  by unfold_locales (simp_all add: mincore_def)

interpretation mlock: posix_call "syscall2 K SYS_mlock addr len" "mlock K addr len" for K addr len
  by unfold_locales (simp_all add: mlock_def)

interpretation munlock: posix_call "syscall2 K SYS_munlock addr len" "munlock K addr len" for K addr len
  by unfold_locales (simp_all add: munlock_def)

interpretation mlockall: posix_call
  "syscall1 K SYS_mlockall (scast flags)" "mlockall K flags" for K flags
  by unfold_locales (simp_all add: mlockall_def)

interpretation munlockall: posix_call "syscall0 K SYS_munlockall" "munlockall K" for K
  by unfold_locales (simp_all add: munlockall_def)

text \<open>
  The functions with a guard: a rejected request is a raw result that never reaches the
  kernel.
\<close>

definition mmap_raw ::
    "'k kernel \<Rightarrow> ptr \<Rightarrow> size_t \<Rightarrow> c_int \<Rightarrow> c_int \<Rightarrow> c_int \<Rightarrow> i64 \<Rightarrow> ('k, c_long) action" where
  "mmap_raw K addr len prot flags fd offset w =
     (if offset AND OFF_MASK \<noteq> 0 then Some (- scast EINVAL, w)
      else if len \<ge> PTRDIFF_MAX then Some (- scast ENOMEM, w)
      else do {
        (r, w1) \<leftarrow> syscall6 K SYS_mmap addr len (scast prot) (scast flags) (scast fd) offset w;
        Some (if r = - scast EPERM \<and> addr = 0 \<and> flags AND MAP_ANON \<noteq> 0 \<and> flags AND MAP_FIXED = 0
              then - scast ENOMEM else r, w1)
      })"

definition mremap_raw ::
    "'k kernel \<Rightarrow> ptr \<Rightarrow> size_t \<Rightarrow> size_t \<Rightarrow> c_int \<Rightarrow> ptr \<Rightarrow> ('k, c_long) action" where
  "mremap_raw K old_addr old_len new_len flags new_addr w =
     (if new_len \<ge> PTRDIFF_MAX then Some (- scast ENOMEM, w)
      else syscall5 K SYS_mremap old_addr old_len new_len (scast flags) new_addr w)"

definition posix_madvise_raw :: "'k kernel \<Rightarrow> ptr \<Rightarrow> size_t \<Rightarrow> c_int \<Rightarrow> ('k, c_long) action" where
  "posix_madvise_raw K addr len advice w =
     (if advice = MADV_DONTNEED then Some (0, w)
      else syscall3 K SYS_madvise addr len (scast advice) w)"

lemma ret_as_EINVAL: "ret_as (- scast EINVAL) w = Some (- 1 :: 64 word, set_errno EINVAL w)"
  by (simp add: ret_as_def ret_def is_err_def EINVAL_def)

lemma ret_as_ENOMEM: "ret_as (- scast ENOMEM) w = Some (- 1 :: 64 word, set_errno ENOMEM w)"
  by (simp add: ret_as_def ret_def is_err_def ENOMEM_def)

interpretation mmap: posix_call
  "mmap_raw K addr len prot flags fd offset" "mmap K addr len prot flags fd offset"
  for K addr len prot flags fd offset
proof unfold_locales
  fix w
  show "mmap K addr len prot flags fd offset w =
      mmap_raw K addr len prot flags fd offset w \<bind> (\<lambda>(r, w'). ret_as r w')"
    by (cases "syscall6 K SYS_mmap addr len (scast prot) (scast flags) (scast fd) offset w")
      (simp_all add: mmap_def mmap_raw_def ret_as_EINVAL ret_as_ENOMEM MAP_FAILED_def split_beta)
qed (auto simp: mmap_raw_def raw6.keeps_errno raw6.keeps_cancel split: if_splits bind_splits)

interpretation mremap: posix_call
  "mremap_raw K old_addr old_len new_len flags new_addr"
  "mremap K old_addr old_len new_len flags new_addr" for K old_addr old_len new_len flags new_addr
  by unfold_locales
    (auto simp: mremap_def mremap_raw_def ret_as_ENOMEM MAP_FAILED_def raw5.keeps_errno
      raw5.keeps_cancel split: if_splits)

interpretation posix_madvise: direct_call
  "posix_madvise_raw K addr len advice" "posix_madvise K addr len advice" for K addr len advice
  by unfold_locales
    (auto simp: posix_madvise_def posix_madvise_raw_def neg_as_def raw3.keeps_errno
      raw3.keeps_cancel split: if_splits)


subsection \<open>mmap and mremap\<close>

lemma off_mask: "x AND OFF_MASK = 0 \<longleftrightarrow> 4096 dvd uint x"
proof -
  have "OFF_MASK = mask 12" by (simp add: OFF_MASK_def PAGE_SIZE_def mask_eq_exp_minus_1)
  then have "x AND OFF_MASK = take_bit 12 x" by (simp only: take_bit_eq_mask)
  then have "uint (x AND OFF_MASK) = take_bit 12 (uint x)" by (simp only: unsigned_take_bit_eq)
  then have "uint (x AND OFF_MASK) = uint x mod 4096" by (simp add: take_bit_eq_mod)
  then show ?thesis by (metis dvd_eq_mod_eq_0 unsigned_0 word_uint_eq_iff)
qed

lemma ptrdiff_max: "x \<ge> PTRDIFF_MAX \<longleftrightarrow> uint x \<ge> 2 ^ 63 - 1"
  by (simp add: PTRDIFF_MAX_def word_le_def)

lemma map_flags:
  "flags AND MAP_ANON \<noteq> 0 \<longleftrightarrow> bit flags 5" "flags AND MAP_FIXED = 0 \<longleftrightarrow> \<not> bit flags 4"
  using and_bit [of flags 5] and_bit [of flags 4]
  by (auto simp: MAP_ANON_def MAP_FIXED_def push_bit_of_1)

text \<open>The correction of the error number: EPERM of an anonymous mapping is ENOMEM.\<close>

definition mmap_errno :: "ptr \<Rightarrow> c_int \<Rightarrow> int \<Rightarrow> int" where
  "mmap_errno addr flags e =
     (if e = 1 \<and> addr = 0 \<and> bit flags 5 \<and> \<not> bit flags 4 then 12 else e)"

lemma outcome_fixup:
  "outcome (if r = - scast EPERM \<and> P then - scast ENOMEM else r) =
    (case outcome r of Success v \<Rightarrow> Success v | Failure e \<Rightarrow> Failure (if e = 1 \<and> P then 12 else e))"
proof (cases "r = - scast EPERM")
  case True
  then show ?thesis by (simp add: outcome_def EPERM_def ENOMEM_def)
next
  case False
  have "sint r \<noteq> - 1"
  proof
    assume "sint r = - 1"
    then have "sint r = sint (- 1 :: c_long)" by simp
    then have "r = - 1" by (rule signed_word_eqI)
    with False show False by (simp add: EPERM_def)
  qed
  with False show ?thesis by (auto simp: outcome_def)
qed

text \<open>
  C16. \<open>mmap\<close> rejects an offset that is not a multiple of 4096 with \<open>EINVAL\<close> and a length of
  at least \<open>PTRDIFF_MAX\<close> with \<open>ENOMEM\<close>, in this order and without entering the kernel;
  otherwise its result is that of the one call it makes, an error \<open>EPERM\<close> of an anonymous
  mapping at an address of the kernel's choice turned into \<open>ENOMEM\<close>.
\<close>

theorem mmap_correct:
  "mmap K addr len prot flags fd offset w =
    (if \<not> 4096 dvd uint offset then Some (- 1, w\<lparr>errno := 22\<rparr>)
     else if uint len \<ge> 2 ^ 63 - 1 then Some (- 1, w\<lparr>errno := 12\<rparr>)
     else case K 222 [addr, len, scast prot, scast flags, scast fd, offset] (ram w) (kern w) of
       None \<Rightarrow> None
     | Some (r, m, k) \<Rightarrow>
         Some (case outcome r of
           Success v \<Rightarrow> (v, w\<lparr>ram := m, kern := k\<rparr>)
         | Failure e \<Rightarrow>
             (- 1, w\<lparr>ram := m, kern := k, errno := word_of_int (mmap_errno addr flags e)\<rparr>)))"
proof -
  have *: "ret_as (if r = - scast EPERM \<and> addr = 0 \<and> flags AND MAP_ANON \<noteq> 0
        \<and> flags AND MAP_FIXED = 0 then - scast ENOMEM else r) w1 =
      Some (case outcome r of
           Success v \<Rightarrow> (v, w1)
         | Failure e \<Rightarrow> (- 1, w1\<lparr>errno := word_of_int (mmap_errno addr flags e)\<rparr>))"
    for r and w1 :: "'a world"
    by (simp only: ret_as_posix_64 posix_def map_flags outcome_fixup)
      (simp add: mmap_errno_def split: outcome.splits)
  show ?thesis
    by (simp add: mmap_def off_mask ptrdiff_max syscall6_def svc_def * set_errno_def MAP_FAILED_def
        EINVAL_def ENOMEM_def SYS_mmap_def Let_def split: option.splits)
qed

text \<open>\<open>mremap\<close> checks only the new length.\<close>

theorem mremap_correct:
  "mremap K old_addr old_len new_len flags new_addr w =
    (if uint new_len \<ge> 2 ^ 63 - 1 then Some (- 1, w\<lparr>errno := 12\<rparr>)
     else case K 216 [old_addr, old_len, new_len, scast flags, new_addr] (ram w) (kern w) of
       None \<Rightarrow> None
     | Some (r, m, k) \<Rightarrow> Some (posix r (w\<lparr>ram := m, kern := k\<rparr>)))"
  by (simp add: mremap_def ptrdiff_max syscall5_def svc_def ret_as_posix_64 set_errno_def
      MAP_FAILED_def ENOMEM_def SYS_mremap_def split: option.splits)

end
