(* ===== verification/Fcntl.thy ===== *)
theory Fcntl
  imports Syscall
begin

section \<open>File control\<close>

text \<open>
  \<open>mytilus-fcntl/src/lib.rs\<close>: the constants, the open family, \<open>fcntl\<close> and the two
  functions that return the error number. The variadic arguments of a call are the list
  \<open>va\<close> of the values the caller passed; reading an argument that is not there is \<open>None\<close>.
\<close>

named_theorems fcntl_defs

definition O_RDONLY :: c_int where [fcntl_defs]: "O_RDONLY = 0"
definition O_WRONLY :: c_int where [fcntl_defs]: "O_WRONLY = 1"
definition O_RDWR :: c_int where [fcntl_defs]: "O_RDWR = 2"
definition O_CREAT :: c_int where [fcntl_defs]: "O_CREAT = 0x40"
definition O_EXCL :: c_int where [fcntl_defs]: "O_EXCL = 0x80"
definition O_NOCTTY :: c_int where [fcntl_defs]: "O_NOCTTY = 0x100"
definition O_TRUNC :: c_int where [fcntl_defs]: "O_TRUNC = 0x200"
definition O_APPEND :: c_int where [fcntl_defs]: "O_APPEND = 0x400"
definition O_NONBLOCK :: c_int where [fcntl_defs]: "O_NONBLOCK = 0x800"
definition O_NDELAY :: c_int where [fcntl_defs]: "O_NDELAY = O_NONBLOCK"
definition O_DSYNC :: c_int where [fcntl_defs]: "O_DSYNC = 0x1000"
definition O_SYNC :: c_int where [fcntl_defs]: "O_SYNC = 0x101000"
definition O_RSYNC :: c_int where [fcntl_defs]: "O_RSYNC = 0x101000"
definition O_DIRECTORY :: c_int where [fcntl_defs]: "O_DIRECTORY = 0x4000"
definition O_NOFOLLOW :: c_int where [fcntl_defs]: "O_NOFOLLOW = 0x8000"
definition O_CLOEXEC :: c_int where [fcntl_defs]: "O_CLOEXEC = 0x80000"
definition O_ASYNC :: c_int where [fcntl_defs]: "O_ASYNC = 0x2000"
definition O_DIRECT :: c_int where [fcntl_defs]: "O_DIRECT = 0x10000"
definition O_LARGEFILE :: c_int where [fcntl_defs]: "O_LARGEFILE = 0x20000"
definition O_NOATIME :: c_int where [fcntl_defs]: "O_NOATIME = 0x40000"
definition O_PATH :: c_int where [fcntl_defs]: "O_PATH = 0x200000"
definition O_TMPFILE :: c_int where [fcntl_defs]: "O_TMPFILE = 0x404000"
definition O_SEARCH :: c_int where [fcntl_defs]: "O_SEARCH = O_PATH"
definition O_EXEC :: c_int where [fcntl_defs]: "O_EXEC = O_PATH"
definition O_ACCMODE :: c_int where [fcntl_defs]: "O_ACCMODE = 3 OR O_SEARCH"
definition F_DUPFD :: c_int where [fcntl_defs]: "F_DUPFD = 0"
definition F_GETFD :: c_int where [fcntl_defs]: "F_GETFD = 1"
definition F_SETFD :: c_int where [fcntl_defs]: "F_SETFD = 2"
definition F_GETFL :: c_int where [fcntl_defs]: "F_GETFL = 3"
definition F_SETFL :: c_int where [fcntl_defs]: "F_SETFL = 4"
definition F_GETLK :: c_int where [fcntl_defs]: "F_GETLK = 5"
definition F_SETLK :: c_int where [fcntl_defs]: "F_SETLK = 6"
definition F_SETLKW :: c_int where [fcntl_defs]: "F_SETLKW = 7"
definition F_SETOWN :: c_int where [fcntl_defs]: "F_SETOWN = 8"
definition F_GETOWN :: c_int where [fcntl_defs]: "F_GETOWN = 9"
definition F_SETSIG :: c_int where [fcntl_defs]: "F_SETSIG = 10"
definition F_GETSIG :: c_int where [fcntl_defs]: "F_GETSIG = 11"
definition F_SETOWN_EX :: c_int where [fcntl_defs]: "F_SETOWN_EX = 15"
definition F_GETOWN_EX :: c_int where [fcntl_defs]: "F_GETOWN_EX = 16"
definition F_DUPFD_CLOEXEC :: c_int where [fcntl_defs]: "F_DUPFD_CLOEXEC = 1030"
definition F_RDLCK :: c_int where [fcntl_defs]: "F_RDLCK = 0"
definition F_WRLCK :: c_int where [fcntl_defs]: "F_WRLCK = 1"
definition F_UNLCK :: c_int where [fcntl_defs]: "F_UNLCK = 2"
definition FD_CLOEXEC :: c_int where [fcntl_defs]: "FD_CLOEXEC = 1"
definition AT_FDCWD :: c_int where [fcntl_defs]: "AT_FDCWD = - 100"
definition AT_SYMLINK_NOFOLLOW :: c_int where [fcntl_defs]: "AT_SYMLINK_NOFOLLOW = 0x100"
definition AT_REMOVEDIR :: c_int where [fcntl_defs]: "AT_REMOVEDIR = 0x200"
definition AT_SYMLINK_FOLLOW :: c_int where [fcntl_defs]: "AT_SYMLINK_FOLLOW = 0x400"
definition AT_EACCESS :: c_int where [fcntl_defs]: "AT_EACCESS = 0x200"
definition AT_NO_AUTOMOUNT :: c_int where [fcntl_defs]: "AT_NO_AUTOMOUNT = 0x800"
definition AT_EMPTY_PATH :: c_int where [fcntl_defs]: "AT_EMPTY_PATH = 0x1000"
definition POSIX_FADV_NORMAL :: c_int where [fcntl_defs]: "POSIX_FADV_NORMAL = 0"
definition POSIX_FADV_RANDOM :: c_int where [fcntl_defs]: "POSIX_FADV_RANDOM = 1"
definition POSIX_FADV_SEQUENTIAL :: c_int where [fcntl_defs]: "POSIX_FADV_SEQUENTIAL = 2"
definition POSIX_FADV_WILLNEED :: c_int where [fcntl_defs]: "POSIX_FADV_WILLNEED = 3"
definition POSIX_FADV_DONTNEED :: c_int where [fcntl_defs]: "POSIX_FADV_DONTNEED = 4"
definition POSIX_FADV_NOREUSE :: c_int where [fcntl_defs]: "POSIX_FADV_NOREUSE = 5"


subsection \<open>The operations\<close>

text \<open>\<open>args.arg()\<close>, the first variadic argument.\<close>

definition va_arg :: "'a list \<Rightarrow> 'a option" where
  "va_arg va = (case va of [] \<Rightarrow> None | a # _ \<Rightarrow> Some a)"

definition openat_inner :: "'k kernel \<Rightarrow> c_int \<Rightarrow> ptr \<Rightarrow> c_int \<Rightarrow> mode_t \<Rightarrow> ('k, c_int) action" where
  "openat_inner K dirfd filename flags mode w = do {
     (fd, w1) \<leftarrow> syscall_cp4 K SYS_openat (scast dirfd) filename
        (scast (flags OR O_LARGEFILE)) (ucast mode) w;
     (_, w2) \<leftarrow> (if sint fd \<ge> 0 \<and> flags AND O_CLOEXEC \<noteq> 0
                 then syscall3 K SYS_fcntl fd (scast F_SETFD) (scast FD_CLOEXEC) w1
                 else Some (0, w1));
     ret_as fd w2
   }"

definition open_mode :: "c_int \<Rightarrow> mode_t list \<Rightarrow> mode_t option" where
  "open_mode flags va =
     (if flags AND O_CREAT \<noteq> 0 \<or> flags AND O_TMPFILE = O_TMPFILE then va_arg va else Some 0)"

definition open_fn :: "'k kernel \<Rightarrow> ptr \<Rightarrow> c_int \<Rightarrow> mode_t list \<Rightarrow> ('k, c_int) action" where
  "open_fn K filename flags va w = do {
     mode \<leftarrow> open_mode flags va;
     openat_inner K AT_FDCWD filename flags mode w
   }"

definition openat :: "'k kernel \<Rightarrow> c_int \<Rightarrow> ptr \<Rightarrow> c_int \<Rightarrow> mode_t list \<Rightarrow> ('k, c_int) action" where
  "openat K dirfd filename flags va w = do {
     mode \<leftarrow> open_mode flags va;
     openat_inner K dirfd filename flags mode w
   }"

definition creat :: "'k kernel \<Rightarrow> ptr \<Rightarrow> mode_t \<Rightarrow> ('k, c_int) action" where
  "creat K filename mode w =
     openat_inner K AT_FDCWD filename (O_CREAT OR O_WRONLY OR O_TRUNC) mode w"

definition fcntl :: "'k kernel \<Rightarrow> c_int \<Rightarrow> c_int \<Rightarrow> c_ulong list \<Rightarrow> ('k, c_int) action" where
  "fcntl K fd cmd va w = do {
     arg0 \<leftarrow> va_arg va;
     let arg = (if cmd = F_SETFL then arg0 OR scast O_LARGEFILE else arg0);
     (r, w1) \<leftarrow> (if cmd = F_SETLKW then syscall_cp3 K SYS_fcntl (scast fd) (scast cmd) arg w
                else syscall3 K SYS_fcntl (scast fd) (scast cmd) arg w);
     ret_as r w1
   }"

definition posix_fadvise :: "'k kernel \<Rightarrow> c_int \<Rightarrow> off_t \<Rightarrow> off_t \<Rightarrow> c_int \<Rightarrow> ('k, c_int) action" where
  "posix_fadvise K fd base len advice w = do {
     (r, w1) \<leftarrow> syscall4 K SYS_fadvise64 (scast fd) base len (scast advice) w;
     neg_as r w1
   }"

definition posix_fallocate :: "'k kernel \<Rightarrow> c_int \<Rightarrow> off_t \<Rightarrow> off_t \<Rightarrow> ('k, c_int) action" where
  "posix_fallocate K fd base len w = do {
     (r, w1) \<leftarrow> syscall4 K SYS_fallocate (scast fd) 0 base len w;
     neg_as r w1
   }"


subsection \<open>The open family\<close>

lemma open_flags:
  "flags AND O_CLOEXEC \<noteq> 0 \<longleftrightarrow> bit flags 19" "flags AND O_CREAT \<noteq> 0 \<longleftrightarrow> bit flags 6"
  "flags AND O_TMPFILE = O_TMPFILE \<longleftrightarrow> bit flags 14 \<and> bit flags 22"
  using and_bit [of flags 19] and_bit [of flags 6] and_two_bits [of 14 22 flags]
  by (auto simp: fcntl_defs push_bit_of_1)

lemma is_err_negative: "is_err r \<Longrightarrow> \<not> 0 \<le> sint r"
  by (simp add: is_err_iff)

text \<open>
  C22. The shared body makes one \<open>openat\<close> call with \<open>O_LARGEFILE\<close> added. On failure there is
  no further call; on success with \<open>O_CLOEXEC\<close> it sets \<open>FD_CLOEXEC\<close> and the outcome of
  that second call changes neither the result nor \<open>errno\<close>.
\<close>

theorem openat_inner_correct:
  assumes "dummy_cancel w = 0" "reads_args K ar" "ar 56 \<le> 4"
  shows "openat_inner K dirfd filename flags mode w =
    (case K 56 [scast dirfd, filename, scast (flags OR 0x20000), ucast mode] (ram w) (kern w) of
       None \<Rightarrow> None
     | Some (fd, m, k) \<Rightarrow>
         (if sint fd \<ge> 0 \<and> bit flags 19
          then case K 25 [fd, 2, 1] m k of
              None \<Rightarrow> None
            | Some (_, m', k') \<Rightarrow> Some (ucast fd, w\<lparr>ram := m', kern := k'\<rparr>)
          else Some (posix fd (w\<lparr>ram := m, kern := k\<rparr>))))"
proof -
  have ok: "(posix fd w1 :: c_int \<times> 'a world) = (ucast fd, w1)" if "sint fd \<ge> 0" for fd w1
    using that by (simp add: posix_def outcome_def)
  show ?thesis
    using assms
    by (simp add: openat_inner_def syscall_cp4_eq syscall4_def syscall3_def svc_def ret_as_posix_32
        open_flags SYS_openat_def SYS_fcntl_def O_LARGEFILE_def F_SETFD_def FD_CLOEXEC_def ok
        split: option.splits)
qed

text \<open>
  The members of the family are one function: \<open>open\<close> is \<open>openat\<close> at \<open>AT_FDCWD\<close>,
  \<open>creat\<close> is \<open>open\<close> with \<open>O_CREAT | O_WRONLY | O_TRUNC\<close>, and the mode argument is read
  exactly when bit 6 (\<open>O_CREAT\<close>) or both bits 14 and 22 (all of \<open>O_TMPFILE\<close>) are set; the
  directory bit 14 alone does not read it.
\<close>

theorem open_family_correct:
  "open_fn K filename flags va w = openat K (- 100) filename flags va w
   \<and> creat K filename mode w = open_fn K filename 0x241 [mode] w
   \<and> openat K dirfd filename flags va w =
      (if bit flags 6 \<or> bit flags 14 \<and> bit flags 22
       then case va of [] \<Rightarrow> None | md # _ \<Rightarrow> openat_inner K dirfd filename flags md w
       else openat_inner K dirfd filename flags 0 w)"
proof -
  have creat_mode: "open_mode 0x241 [mode] = Some mode"
    by (simp add: open_mode_def open_flags va_arg_def bit_iff_odd)
  have creat_flags: "O_CREAT OR O_WRONLY OR O_TRUNC = 0x241"
    by (simp add: O_CREAT_def O_WRONLY_def O_TRUNC_def)
  have "open_mode flags va = (if bit flags 6 \<or> bit flags 14 \<and> bit flags 22
      then case va of [] \<Rightarrow> None | md # _ \<Rightarrow> Some md else Some 0)"
    by (simp add: open_mode_def open_flags va_arg_def)
  then show ?thesis
    by (simp add: open_fn_def openat_def creat_def creat_mode creat_flags AT_FDCWD_def
        split: list.splits)
qed

text \<open>
  \<open>fcntl\<close> passes its argument on, with \<open>O_LARGEFILE\<close> added for \<open>F_SETFL\<close>; the
  cancellation point \<open>F_SETLKW\<close> makes the same call as the other commands.
\<close>

theorem fcntl_correct:
  assumes "dummy_cancel w = 0" "reads_args K ar" "ar 25 \<le> 3"
  shows "fcntl K fd cmd [arg] w =
    (case K 25 [scast fd, scast cmd, if cmd = 4 then arg OR 0x20000 else arg] (ram w) (kern w) of
       None \<Rightarrow> None
     | Some (r, m, k) \<Rightarrow> Some (posix r (w\<lparr>ram := m, kern := k\<rparr>)))"
  using assms
  by (simp add: fcntl_def va_arg_def syscall_cp3_eq syscall3_def svc_def ret_as_posix_32 F_SETFL_def
      F_SETLKW_def SYS_fcntl_def O_LARGEFILE_def Let_def split: option.splits)

theorem openat_inner_correct_witness:
  "openat_inner (script_kernel (\<lambda>_. 4)) (- 100) 4096 0x80000 0
     (initial_world Map.empty \<lparr>replies = [(3, 0, []), (0, 0, [])], calls = []\<rparr>) =
   Some (3, initial_world Map.empty
     \<lparr>replies = [], calls = [(56, [- 100, 4096, 0xA0000, 0]), (25, [3, 2, 1])]\<rparr>)"
  by (subst openat_inner_correct [where ar = "\<lambda>_. 4"])
    (simp_all add: script_kernel_reads_args script_kernel_def initial_world_def bit_iff_odd)

theorem fcntl_correct_witness:
  "fcntl (script_kernel (\<lambda>_. 3)) 7 4 [0x800]
     (initial_world Map.empty \<lparr>replies = [(- 9, 0, [])], calls = []\<rparr>) =
   Some (- 1, (initial_world Map.empty
     \<lparr>replies = [], calls = [(25, [7, 4, 0x20800])]\<rparr>)\<lparr>errno := 9\<rparr>)"
  by (subst fcntl_correct [where ar = "\<lambda>_. 3"])
    (simp_all add: script_kernel_reads_args script_kernel_def initial_world_def posix_def
      outcome_def)


subsection \<open>The wrappers keep the convention\<close>

interpretation posix_fadvise: direct_call
  "syscall4 K SYS_fadvise64 (scast fd) base len (scast advice)" "posix_fadvise K fd base len advice"
  for K fd base len advice
  by unfold_locales (simp_all add: posix_fadvise_def)

interpretation posix_fallocate: direct_call
  "syscall4 K SYS_fallocate (scast fd) 0 base len" "posix_fallocate K fd base len" for K fd base len
  by unfold_locales (simp_all add: posix_fallocate_def)

text \<open>The open family and \<open>fcntl\<close> hand one raw result to \<open>ret\<close>.\<close>

definition openat_raw :: "'k kernel \<Rightarrow> c_int \<Rightarrow> ptr \<Rightarrow> c_int \<Rightarrow> u32 \<Rightarrow> ('k, c_long) action" where
  "openat_raw K dirfd filename flags mode w = do {
     (fd, w1) \<leftarrow> syscall_cp4 K SYS_openat (scast dirfd) filename
        (scast (flags OR O_LARGEFILE)) (ucast mode) w;
     (_, w2) \<leftarrow> (if sint fd \<ge> 0 \<and> flags AND O_CLOEXEC \<noteq> 0
                 then syscall3 K SYS_fcntl fd (scast F_SETFD) (scast FD_CLOEXEC) w1
                 else Some (0, w1));
     Some (fd, w2)
   }"

lemma openat_raw_errno:
  "openat_raw K dirfd filename flags mode w = Some (r, w') \<Longrightarrow> errno w' = errno w"
  by (auto simp: openat_raw_def split: bind_splits if_splits dest!: cp4.keeps_errno raw3.keeps_errno)

lemma openat_raw_cancel:
  "openat_raw K dirfd filename flags mode w = Some (r, w') \<Longrightarrow> dummy_cancel w' = dummy_cancel w"
  by (auto simp: openat_raw_def split: bind_splits if_splits
      dest!: cp4.keeps_cancel raw3.keeps_cancel)

lemmas openat_raw_keeps = openat_raw_errno openat_raw_cancel

definition openat_va_raw ::
    "'k kernel \<Rightarrow> c_int \<Rightarrow> ptr \<Rightarrow> c_int \<Rightarrow> u32 list \<Rightarrow> ('k, c_long) action" where
  "openat_va_raw K dirfd filename flags va w =
     open_mode flags va \<bind> (\<lambda>mode. openat_raw K dirfd filename flags mode w)"

lemma openat_inner_raw:
  "openat_inner K dirfd filename flags mode w =
    openat_raw K dirfd filename flags mode w \<bind> (\<lambda>(r, w'). ret_as r w')"
  by (simp add: openat_inner_def openat_raw_def case_prod_unfold)

interpretation openat: posix_call
  "openat_va_raw K dirfd filename flags va" "openat K dirfd filename flags va"
  for K dirfd filename flags va
  by unfold_locales
    (auto simp: openat_va_raw_def openat_def openat_inner_raw split: bind_splits
      dest: openat_raw_keeps)

interpretation open_fn: posix_call
  "openat_va_raw K AT_FDCWD filename flags va" "open_fn K filename flags va"
  for K filename flags va
  by unfold_locales
    (auto simp: openat_va_raw_def open_fn_def openat_inner_raw split: bind_splits
      dest: openat_raw_keeps)

interpretation creat: posix_call
  "openat_raw K AT_FDCWD filename (O_CREAT OR O_WRONLY OR O_TRUNC) mode" "creat K filename mode"
  for K filename mode
  by unfold_locales (auto simp: creat_def openat_inner_raw dest: openat_raw_keeps)

definition fcntl_raw :: "'k kernel \<Rightarrow> c_int \<Rightarrow> c_int \<Rightarrow> c_ulong list \<Rightarrow> ('k, c_long) action" where
  "fcntl_raw K fd cmd va w = do {
     arg0 \<leftarrow> va_arg va;
     let arg = (if cmd = F_SETFL then arg0 OR scast O_LARGEFILE else arg0);
     (if cmd = F_SETLKW then syscall_cp3 K SYS_fcntl (scast fd) (scast cmd) arg w
      else syscall3 K SYS_fcntl (scast fd) (scast cmd) arg w)
   }"

interpretation fcntl: posix_call "fcntl_raw K fd cmd va" "fcntl K fd cmd va" for K fd cmd va
  by unfold_locales
    (auto simp: fcntl_raw_def fcntl_def Let_def cp3.keeps_errno raw3.keeps_errno cp3.keeps_cancel
      raw3.keeps_cancel split: bind_splits if_splits)

end
