(* ===== verification/Process.thy ===== *)
theory Process
  imports Syscall
begin

section \<open>Process identity and control\<close>

text \<open>
  \<open>mytilus-process/src/lib.rs\<close>: the identity calls that take the raw result, process groups
  and sessions, \<open>kill\<close>, the exit functions and \<open>sched_yield\<close>.
\<close>

text \<open>The functions that cannot fail cast the raw result.\<close>

definition raw_as :: "c_long \<Rightarrow> 'k world \<Rightarrow> (c_int \<times> 'k world) option" where
  "raw_as r w = Some (ucast r, w)"

definition getpid :: "'k kernel \<Rightarrow> ('k, pid_t) action" where
  "getpid K w = do { (r, w1) \<leftarrow> syscall0 K SYS_getpid w; raw_as r w1 }"

definition getppid :: "'k kernel \<Rightarrow> ('k, pid_t) action" where
  "getppid K w = do { (r, w1) \<leftarrow> syscall0 K SYS_getppid w; raw_as r w1 }"

definition getuid :: "'k kernel \<Rightarrow> ('k, uid_t) action" where
  "getuid K w = do { (r, w1) \<leftarrow> syscall0 K SYS_getuid w; raw_as r w1 }"

definition geteuid :: "'k kernel \<Rightarrow> ('k, uid_t) action" where
  "geteuid K w = do { (r, w1) \<leftarrow> syscall0 K SYS_geteuid w; raw_as r w1 }"

definition getgid :: "'k kernel \<Rightarrow> ('k, gid_t) action" where
  "getgid K w = do { (r, w1) \<leftarrow> syscall0 K SYS_getgid w; raw_as r w1 }"

definition getegid :: "'k kernel \<Rightarrow> ('k, gid_t) action" where
  "getegid K w = do { (r, w1) \<leftarrow> syscall0 K SYS_getegid w; raw_as r w1 }"

definition getsid :: "'k kernel \<Rightarrow> pid_t \<Rightarrow> ('k, pid_t) action" where
  "getsid K pid w = do { (r, w1) \<leftarrow> syscall1 K SYS_getsid (scast pid) w; ret_as r w1 }"

definition getpgid :: "'k kernel \<Rightarrow> pid_t \<Rightarrow> ('k, pid_t) action" where
  "getpgid K pid w = do { (r, w1) \<leftarrow> syscall1 K SYS_getpgid (scast pid) w; ret_as r w1 }"

definition getpgrp :: "'k kernel \<Rightarrow> ('k, pid_t) action" where
  "getpgrp K w = do { (r, w1) \<leftarrow> syscall1 K SYS_getpgid 0 w; raw_as r w1 }"

definition setpgid :: "'k kernel \<Rightarrow> pid_t \<Rightarrow> pid_t \<Rightarrow> ('k, c_int) action" where
  "setpgid K pid pgid w = do {
     (r, w1) \<leftarrow> syscall2 K SYS_setpgid (scast pid) (scast pgid) w;
     ret_as r w1
   }"

definition setsid :: "'k kernel \<Rightarrow> ('k, pid_t) action" where
  "setsid K w = do { (r, w1) \<leftarrow> syscall0 K SYS_setsid w; ret_as r w1 }"

definition kill :: "'k kernel \<Rightarrow> pid_t \<Rightarrow> c_int \<Rightarrow> ('k, c_int) action" where
  "kill K pid sig w = do {
     (r, w1) \<leftarrow> syscall2 K SYS_kill (scast pid) (scast sig) w;
     ret_as r w1
   }"

definition sched_yield :: "'k kernel \<Rightarrow> ('k, c_int) action" where
  "sched_yield K w = do { (r, w1) \<leftarrow> syscall0 K SYS_sched_yield w; ret_as r w1 }"


subsection \<open>Termination\<close>

text \<open>
  \<open>_Exit\<close>: \<open>exit_group\<close>, and if the kernel comes back \<open>exit\<close> in a loop without end.
  None is a call that does not return.
\<close>

partial_function (option) exit_loop :: "'k kernel \<Rightarrow> c_int \<Rightarrow> 'k world \<Rightarrow> unit option" where
  "exit_loop K status w = do {
     (r, w1) \<leftarrow> syscall1 K SYS_exit (scast status) w;
     exit_loop K status w1
   }"

definition Exit :: "'k kernel \<Rightarrow> c_int \<Rightarrow> 'k world \<Rightarrow> unit option" where
  "Exit K status w = do {
     (r, w1) \<leftarrow> syscall1 K SYS_exit_group (scast status) w;
     exit_loop K status w1
   }"

definition exit_fn :: "'k kernel \<Rightarrow> c_int \<Rightarrow> 'k world \<Rightarrow> unit option" where
  "exit_fn K status w = Exit K status w"


subsection \<open>The wrappers keep the convention\<close>

interpretation getsid: posix_call "syscall1 K SYS_getsid (scast pid)" "getsid K pid" for K pid
  by unfold_locales (simp_all add: getsid_def)

interpretation getpgid: posix_call "syscall1 K SYS_getpgid (scast pid)" "getpgid K pid" for K pid
  by unfold_locales (simp_all add: getpgid_def)

interpretation setpgid: posix_call
  "syscall2 K SYS_setpgid (scast pid) (scast pgid)" "setpgid K pid pgid" for K pid pgid
  by unfold_locales (simp_all add: setpgid_def)

interpretation setsid: posix_call "syscall0 K SYS_setsid" "setsid K" for K
  by unfold_locales (simp_all add: setsid_def)

interpretation kill: posix_call
  "syscall2 K SYS_kill (scast pid) (scast sig)" "kill K pid sig" for K pid sig
  by unfold_locales (simp_all add: kill_def)

interpretation sched_yield: posix_call "syscall0 K SYS_sched_yield" "sched_yield K" for K
  by unfold_locales (simp_all add: sched_yield_def)


subsection \<open>Exit\<close>

lemma exit_loop_None: "exit_loop K status w = None"
proof -
  have False if "exit_loop K status w = Some u" for u
    by (rule exit_loop.raw_induct [where P = "\<lambda>_ _ _ _. False", OF _ that])
      (auto split: bind_splits)
  then show ?thesis by (cases "exit_loop K status w") auto
qed

text \<open>
  C33. The exit functions never give control back to their caller, whatever the kernel does: not
  even a kernel that returns from \<open>exit_group\<close> and from \<open>exit\<close> makes them return.
\<close>

theorem exit_never_returns: "Exit K status w = None \<and> exit_fn K status w = None"
  by (simp add: Exit_def exit_fn_def exit_loop_None bind_eq_None_conv case_prod_unfold)

definition cast_result ::
    "(c_long \<times> mem \<times> 'k) option \<Rightarrow> 'k world \<Rightarrow> (c_int \<times> 'k world) option" where
  "cast_result x w = map_option (\<lambda>(r, m, k). (ucast r, w\<lparr>ram := m, kern := k\<rparr>)) x"

lemma raw_as_svc: "svc K n args w \<bind> (\<lambda>(r, w1). raw_as r w1) = cast_result (K n args (ram w) (kern w)) w"
  by (cases "K n args (ram w) (kern w)") (auto simp: svc_def raw_as_def cast_result_def)

text \<open>
  The identity functions cast the raw result: they return it for every value of the kernel,
  also where the convention of \<open>ret\<close> would see an error, and never touch \<open>errno\<close>.
\<close>

theorem identity_calls_correct:
  "getpid K w = cast_result (K 172 [] (ram w) (kern w)) w
    \<and> getppid K w = cast_result (K 173 [] (ram w) (kern w)) w
    \<and> getuid K w = cast_result (K 174 [] (ram w) (kern w)) w
    \<and> geteuid K w = cast_result (K 175 [] (ram w) (kern w)) w
    \<and> getgid K w = cast_result (K 176 [] (ram w) (kern w)) w
    \<and> getegid K w = cast_result (K 177 [] (ram w) (kern w)) w
    \<and> getpgrp K w = cast_result (K 155 [0] (ram w) (kern w)) w"
  by (simp add: getpid_def getppid_def getuid_def geteuid_def getgid_def getegid_def getpgrp_def
      syscall0_def syscall1_def raw_as_svc nr_defs)

text \<open>\<open>getpgrp()\<close> is \<open>getpgid(0)\<close> whenever the kernel does not fail.\<close>

theorem getpgrp_eq_getpgid:
  assumes "K 155 [0] (ram w) (kern w) = Some (r, m, k)" "outcome r = Success r"
  shows "getpgrp K w = getpgid K 0 w"
  using assms
  by (simp add: getpgrp_def getpgid_def syscall1_def svc_def raw_as_def nr_defs ret_as_posix_32
      posix_def)

theorem getpgrp_eq_getpgid_witness:
  "getpgrp (script_kernel (\<lambda>_. 1)) (initial_world Map.empty \<lparr>replies = [(77, 0, [])], calls = []\<rparr>) =
   getpgid (script_kernel (\<lambda>_. 1)) 0
     (initial_world Map.empty \<lparr>replies = [(77, 0, [])], calls = []\<rparr>)"
  by (rule getpgrp_eq_getpgid [where r = 77 and m = Map.empty
      and k = "\<lparr>replies = [], calls = [(155, [0])]\<rparr>"])
    (simp_all add: script_kernel_def initial_world_def outcome_def sint_64)

end
