(* ===== verification/Words.thy ===== *)
theory Words
  imports Memory
begin

section \<open>Words and structures in the memory\<close>

text \<open>
  Objects wider than a byte: the little-endian representation of a word, aligned or not, as the
  aarch64 loads and stores of the compiled code use it. \<open>rd32\<close>, \<open>rd64\<close>, \<open>wr32\<close>,
  \<open>wr64\<close> are None when a byte of the object is not mapped.
\<close>

definition to_le :: "nat \<Rightarrow> 'a::len word \<Rightarrow> u8 list" where
  "to_le n x = map (\<lambda>i. ucast (drop_bit (8 * i) x)) [0..<n]"

fun of_le :: "u8 list \<Rightarrow> 'a::len word" where
  "of_le [] = 0"
| "of_le (b # bs) = ucast b OR push_bit 8 (of_le bs)"

definition load_bytes :: "mem \<Rightarrow> ptr \<Rightarrow> nat \<Rightarrow> u8 list option" where
  "load_bytes m p n =
     (if mapped m p n then Some (map (\<lambda>i. the (m (p + of_nat i))) [0..<n]) else None)"

definition store_bytes :: "mem \<Rightarrow> ptr \<Rightarrow> u8 list \<Rightarrow> mem option" where
  "store_bytes m p bs = (if mapped m p (length bs) then Some (put m p bs) else None)"

definition rd32 :: "mem \<Rightarrow> ptr \<Rightarrow> u32 option" where
  "rd32 m p = map_option of_le (load_bytes m p 4)"

definition rd64 :: "mem \<Rightarrow> ptr \<Rightarrow> u64 option" where
  "rd64 m p = map_option of_le (load_bytes m p 8)"

definition wr32 :: "mem \<Rightarrow> ptr \<Rightarrow> u32 \<Rightarrow> mem option" where
  "wr32 m p v = store_bytes m p (to_le 4 v)"

definition wr64 :: "mem \<Rightarrow> ptr \<Rightarrow> u64 \<Rightarrow> mem option" where
  "wr64 m p v = store_bytes m p (to_le 8 v)"


subsection \<open>The representation\<close>

lemma length_to_le [simp]: "length (to_le n x) = n"
  by (simp add: to_le_def)

lemma bit_of_le:
  "bit (of_le bs :: 'a::len word) k \<longleftrightarrow>
     k < LENGTH('a) \<and> k div 8 < length bs \<and> bit (bs ! (k div 8)) (k mod 8)"
proof (induction bs arbitrary: k)
  case Nil
  then show ?case by simp
next
  case (Cons b bs)
  show ?case
  proof (cases "k < 8")
    case True
    then show ?thesis by (auto simp: bit_simps)
  next
    case False
    then have k: "k div 8 = Suc ((k - 8) div 8)" "k mod 8 = (k - 8) mod 8"
      by (simp_all add: le_div_geq le_mod_geq)
    have "\<not> bit b k" using False by (simp add: impossible_bit)
    with False show ?thesis by (auto simp: bit_simps Cons.IH k)
  qed
qed

lemma of_le_to_le:
  assumes "LENGTH('a::len) = 8 * n"
  shows "of_le (to_le n (x :: 'a word)) = x"
proof (rule bit_word_eqI)
  fix k assume "k < LENGTH('a)"
  then have k: "k div 8 < n" using assms by auto
  then have "bit (to_le n x ! (k div 8)) (k mod 8) \<longleftrightarrow> bit x k"
    using \<open>k < LENGTH('a)\<close> by (simp add: to_le_def bit_simps)
  with k \<open>k < LENGTH('a)\<close> show "bit (of_le (to_le n x) :: 'a word) k \<longleftrightarrow> bit x k"
    by (simp add: bit_of_le)
qed

lemma to_le_inject: "LENGTH('a::len) = 8 * n \<Longrightarrow> to_le n (x :: 'a word) = to_le n y \<longleftrightarrow> x = y"
  by (metis of_le_to_le)

lemma load_bytes_iff: "load_bytes m p n = Some bs \<longleftrightarrow> length bs = n \<and> bytes_at m p bs"
proof
  assume "load_bytes m p n = Some bs"
  then have "mapped m p n" "bs = map (\<lambda>i. the (m (p + of_nat i))) [0..<n]"
    by (simp_all add: load_bytes_def split: if_splits)
  then show "length bs = n \<and> bytes_at m p bs"
    by (auto simp: bytes_at_def mapped_def)
next
  assume *: "length bs = n \<and> bytes_at m p bs"
  then have "mapped m p n" by (auto dest: bytes_at_mapped)
  moreover have "map (\<lambda>i. the (m (p + of_nat i))) [0..<n] = bs"
    using * by (intro nth_equalityI) (simp_all add: bytes_at_def)
  ultimately show "load_bytes m p n = Some bs" by (simp add: load_bytes_def)
qed

lemma load_bytes_put: "length bs \<le> 2 ^ 64 \<Longrightarrow> n = length bs \<Longrightarrow> load_bytes (put m p bs) p n = Some bs"
  by (simp add: load_bytes_iff bytes_at_put)

lemma to_le_of_le:
  assumes "LENGTH('a::len) = 8 * length bs"
  shows "to_le (length bs) (of_le bs :: 'a word) = bs"
proof (rule nth_equalityI)
  fix i assume i: "i < length (to_le (length bs) (of_le bs :: 'a word))"
  show "to_le (length bs) (of_le bs :: 'a word) ! i = bs ! i"
  proof (rule bit_word_eqI)
    fix k assume "k < LENGTH(8)"
    with i assms show "bit (to_le (length bs) (of_le bs :: 'a word) ! i) k \<longleftrightarrow> bit (bs ! i) k"
      by (simp add: to_le_def bit_simps bit_of_le)
  qed
qed simp

lemma of_le_load:
  assumes "LENGTH('a::len) = 8 * n"
  shows "map_option of_le (load_bytes m p n) = Some (v :: 'a word) \<longleftrightarrow> bytes_at m p (to_le n v)"
proof
  assume "map_option of_le (load_bytes m p n) = Some v"
  then obtain bs where "length bs = n" "bytes_at m p bs" "v = of_le bs"
    by (auto simp: load_bytes_iff)
  with assms show "bytes_at m p (to_le n v)" by (metis to_le_of_le)
next
  assume "bytes_at m p (to_le n v)"
  then have "load_bytes m p n = Some (to_le n v)" by (simp add: load_bytes_iff)
  with assms show "map_option of_le (load_bytes m p n) = Some v" by (simp add: of_le_to_le)
qed

lemma rd32_iff: "rd32 m p = Some v \<longleftrightarrow> bytes_at m p (to_le 4 v)"
  unfolding rd32_def by (rule of_le_load) simp

lemma rd64_iff: "rd64 m p = Some v \<longleftrightarrow> bytes_at m p (to_le 8 v)"
  unfolding rd64_def by (rule of_le_load) simp

lemma mapped_shift: "mapped m p n \<Longrightarrow> i + k \<le> n \<Longrightarrow> mapped m (p + of_nat i) k"
  unfolding mapped_def by (metis add.assoc add_less_cancel_left less_le_trans of_nat_add)

lemma rd32_mapped: "mapped m p 4 \<Longrightarrow> \<exists>v. rd32 m p = Some v"
  by (simp add: rd32_def load_bytes_def)

lemma rd64_mapped: "mapped m p 8 \<Longrightarrow> \<exists>v. rd64 m p = Some v"
  by (simp add: rd64_def load_bytes_def)

lemma wr32_eq: "mapped m p 4 \<Longrightarrow> wr32 m p v = Some (put m p (to_le 4 v))"
  by (simp add: wr32_def store_bytes_def)

lemma wr64_eq: "mapped m p 8 \<Longrightarrow> wr64 m p v = Some (put m p (to_le 8 v))"
  by (simp add: wr64_def store_bytes_def)

lemma rd32_put: "rd32 (put m p (to_le 4 v)) p = Some v"
  by (simp add: rd32_iff bytes_at_put)

lemma rd64_put: "rd64 (put m p (to_le 8 v)) p = Some v"
  by (simp add: rd64_iff bytes_at_put)


subsection \<open>Arrays of 32-bit words\<close>

definition enc32 :: "u32 list \<Rightarrow> u8 list" where
  "enc32 xs = concat (map (to_le 4) xs)"

lemma length_enc32 [simp]: "length (enc32 xs) = 4 * length xs"
  by (induction xs) (simp_all add: enc32_def)

lemma enc32_append: "enc32 (xs @ ys) = enc32 xs @ enc32 ys"
  by (simp add: enc32_def)

lemma enc32_Cons: "enc32 (x # xs) = to_le 4 x @ enc32 xs"
  by (simp add: enc32_def)

lemma enc32_Nil [simp]: "enc32 [] = []"
  by (simp add: enc32_def)

lemma enc32_split:
  "i < length xs \<Longrightarrow> enc32 xs = enc32 (take i xs) @ to_le 4 (xs ! i) @ enc32 (drop (Suc i) xs)"
  by (metis enc32_append enc32_Cons id_take_nth_drop)

lemma enc32_inject: "length xs = length ys \<Longrightarrow> enc32 xs = enc32 ys \<longleftrightarrow> xs = ys"
  by (induction xs ys rule: list_induct2) (auto simp: enc32_Cons to_le_inject)

lemma rd32_array:
  assumes "bytes_at m p (enc32 xs)" "i < length xs"
  shows "rd32 m (p + 4 * of_nat i) = Some (xs ! i)"
proof -
  have "bytes_at m (p + of_nat (4 * i)) (to_le 4 (xs ! i))"
    using assms by (simp add: enc32_split [of i xs] bytes_at_append min_absorb2)
  then show ?thesis by (simp add: rd32_iff)
qed

lemma wr32_array:
  assumes "mapped m p (4 * length xs)" "i < length xs" "4 * length xs \<le> 2 ^ 64"
  shows "wr32 (put m p (enc32 xs)) (p + 4 * of_nat i) v = Some (put m p (enc32 (xs[i := v])))"
proof -
  have upd: "enc32 (xs[i := v]) = enc32 (take i xs) @ to_le 4 v @ enc32 (drop (Suc i) xs)"
    using assms(2) by (simp add: upd_conv_take_nth_drop enc32_append enc32_Cons)
  have "put (put m p (enc32 xs)) (p + of_nat (length (enc32 (take i xs)))) (to_le 4 v) =
      put m p (enc32 (xs[i := v]))"
    unfolding upd enc32_split [OF assms(2)] using assms(2, 3) by (intro put_over) simp_all
  moreover have "mapped (put m p (enc32 xs)) (p + of_nat (4 * i)) 4"
    using assms(1, 2) by (intro mapped_put mapped_shift [OF assms(1)]) linarith
  ultimately show ?thesis using assms(2) by (simp add: wr32_eq min_absorb2)
qed

end
