(* ===== verification/Layout.thy ===== *)
theory Layout
  imports Words
begin

section \<open>The layout of the C structures\<close>

text \<open>
  The types that cross the C interface are \<open>#[repr(C)]\<close>. This theory has the layout that Rust
  documents for them: fields in the order of the declaration, each at the next multiple of its
  alignment, and the size a multiple of the alignment. The code names the fields of a structure
  behind a pointer, not their addresses: \<open>rd_field\<close>, \<open>wr_field\<close> and, for a field that is an
  array, \<open>rd_elem\<close>, \<open>wr_elem\<close> find the address from the type. The types of the crates are in
  the theories that model the crates, and in \<open>Structures\<close>.
\<close>

subsection \<open>Layout of \<open>repr(C)\<close> types\<close>

text \<open>
  A scalar of \<open>n\<close> bytes, an array, and a structure with the alignment that its attribute demands
  (1 for a plain \<open>repr(C)\<close>).
\<close>

datatype c_type = Scalar nat | Array c_type nat | Struct nat fields
and fields = No_Field | Field string c_type fields

definition scalar :: "'a::len word itself \<Rightarrow> c_type" where
  "scalar T = Scalar (LENGTH('a) div 8)"

definition round_up :: "nat \<Rightarrow> nat \<Rightarrow> nat" where
  "round_up k a = (k + a - 1) div a * a"

primrec align_of :: "c_type \<Rightarrow> nat" and fields_align :: "fields \<Rightarrow> nat" where
  "align_of (Scalar n) = n"
| "align_of (Array t k) = align_of t"
| "align_of (Struct a fs) = max a (fields_align fs)"
| "fields_align No_Field = 1"
| "fields_align (Field f t fs) = max (align_of t) (fields_align fs)"

text \<open>\<open>fields_end k fs\<close> is the first byte behind the fields when they start at the offset \<open>k\<close>.\<close>

primrec size_of :: "c_type \<Rightarrow> nat" and fields_end :: "fields \<Rightarrow> nat \<Rightarrow> nat" where
  "size_of (Scalar n) = n"
| "size_of (Array t k) = k * size_of t"
| "size_of (Struct a fs) = round_up (fields_end fs 0) (max a (fields_align fs))"
| "fields_end No_Field k = k"
| "fields_end (Field f t fs) k = fields_end fs (round_up k (align_of t) + size_of t)"

text \<open>Where a field is, with its type.\<close>

fun field_in :: "nat \<Rightarrow> fields \<Rightarrow> string \<Rightarrow> (nat \<times> c_type) option" where
  "field_in k No_Field g = None"
| "field_in k (Field f t fs) g =
     (let off = round_up k (align_of t)
      in if f = g then Some (off, t) else field_in (off + size_of t) fs g)"

fun field_of :: "c_type \<Rightarrow> string \<Rightarrow> (nat \<times> c_type) option" where
  "field_of (Struct a fs) g = field_in 0 fs g"
| "field_of _ g = None"

definition offset_of :: "c_type \<Rightarrow> string \<Rightarrow> nat option" where [simp]:
  "offset_of t g = map_option fst (field_of t g)"

text \<open>Alignments are powers of two.\<close>

primrec wf_type :: "c_type \<Rightarrow> bool" and wf_fields :: "fields \<Rightarrow> bool" where
  "wf_type (Scalar n) = (\<exists>i. n = 2 ^ i)"
| "wf_type (Array t k) = wf_type t"
| "wf_type (Struct a fs) = ((\<exists>i. a = 2 ^ i) \<and> wf_fields fs)"
| "wf_fields No_Field = True"
| "wf_fields (Field f t fs) = (wf_type t \<and> wf_fields fs)"

lemma round_up_bounds:
  assumes "0 < a"
  shows "k \<le> round_up k a" "a dvd round_up k a"
proof -
  have "(k + a - 1) mod a < a" using assms by simp
  moreover have "(k + a - 1) div a * a + (k + a - 1) mod a = k + a - 1" by simp
  ultimately show "k \<le> round_up k a" unfolding round_up_def using assms by linarith
  show "a dvd round_up k a" by (simp add: round_up_def)
qed

lemma max_power: "max (2 ^ i) (2 ^ j) = (2 :: nat) ^ max i j"
  by (simp add: max_def power_increasing_iff)

lemma align_power:
  "wf_type t \<Longrightarrow> \<exists>i. align_of t = 2 ^ i"
  "wf_fields fs \<Longrightarrow> \<exists>i. fields_align fs = 2 ^ i"
proof (induction t and fs)
  case No_Field
  show ?case by (simp add: exI [of _ 0])
qed (auto simp: max_power)

lemma power_dvd_max: "i \<le> j \<Longrightarrow> (2 :: nat) ^ i dvd 2 ^ j"
  by (rule le_imp_power_dvd)

lemma align_dvd_max:
  assumes "a = 2 ^ i" "b = 2 ^ j"
  shows "a dvd max a (b :: nat)" "b dvd max a b"
  using assms by (simp_all add: max_power power_dvd_max)

lemma align_pos: "wf_type t \<Longrightarrow> 0 < align_of t"
  using align_power(1) [of t] by auto

text \<open>The size is a multiple of the alignment, so that the elements of an array are aligned.\<close>

lemma align_dvd_size: "wf_type t \<Longrightarrow> align_of t dvd size_of t"
proof (induction t rule: c_type.induct [where ?P2.0 = "\<lambda>_. True"])
  case (Struct a fs)
  then have "0 < align_of (Struct a fs)" by (intro align_pos)
  then show ?case by (simp add: round_up_bounds(2))
qed auto

lemma fields_end_ge: "wf_fields fs \<Longrightarrow> k \<le> fields_end fs k"
proof (induction fs arbitrary: k rule: fields.induct [where ?P1.0 = "\<lambda>_. True"])
  case (Field f t fs)
  have "k \<le> round_up k (align_of t)" using Field.prems by (intro round_up_bounds align_pos) simp
  also have "\<dots> \<le> fields_end fs (round_up k (align_of t) + size_of t)"
    using Field.IH [of "round_up k (align_of t) + size_of t"] Field.prems by simp
  finally show ?case by simp
qed auto

text \<open>A field is aligned, behind the start and before the end; its alignment divides that of the whole.\<close>

lemma field_in_bounds:
  assumes "wf_fields fs" "field_in k fs g = Some (off, t)"
  shows "wf_type t \<and> align_of t dvd off \<and> k \<le> off \<and> off + size_of t \<le> fields_end fs k
    \<and> align_of t dvd fields_align fs"
  using assms
proof (induction k fs g rule: field_in.induct)
  case (2 k f u fs g)
  let ?off = "round_up k (align_of u)"
  have u: "wf_type u" "wf_fields fs" "0 < align_of u"
    using "2.prems" align_pos by simp_all
  obtain i j where ij: "align_of u = 2 ^ i" "fields_align fs = 2 ^ j"
    using align_power u by blast
  note dvd = align_dvd_max [OF ij]
  show ?case
  proof (cases "f = g")
    case True
    then show ?thesis
      using "2.prems"(2) u dvd round_up_bounds [OF u(3), of k] fields_end_ge [OF u(2), of "?off + size_of u"]
      by auto
  next
    case False
    then have "field_in (?off + size_of u) fs g = Some (off, t)" using "2.prems"(2) by (simp add: Let_def)
    from "2.IH" [OF refl False u(2) this] show ?thesis
      using round_up_bounds(1) [OF u(3), of k] dvd_trans [OF _ dvd(2)] by auto
  qed
qed simp

lemma fields_disjoint:
  assumes "wf_fields fs" "field_in k fs f = Some (off, t)" "field_in k fs g = Some (off', t')" "f \<noteq> g"
  shows "off + size_of t \<le> off' \<or> off' + size_of t' \<le> off"
  using assms
proof (induction k fs f rule: field_in.induct)
  case (2 k h u fs f)
  let ?off = "round_up k (align_of u)" and ?k = "round_up k (align_of u) + size_of u"
  consider "h = f" | "h = g" | "h \<noteq> f" "h \<noteq> g" by blast
  then show ?case
  proof cases
    case 1
    then have "off = ?off" "t = u" "field_in ?k fs g = Some (off', t')"
      using "2.prems" by (auto simp: Let_def)
    then show ?thesis using field_in_bounds [of fs ?k g off' t'] "2.prems"(1) by simp
  next
    case 2
    then have "off' = ?off" "t' = u" "field_in ?k fs f = Some (off, t)"
      using "2.prems" by (auto simp: Let_def)
    then show ?thesis using field_in_bounds [of fs ?k f off t] "2.prems"(1) by simp
  next
    case 3
    then show ?thesis using "2.IH" [of ?off] "2.prems" by (simp add: Let_def)
  qed
qed simp

text \<open>
  The laws of a layout: sizes are multiples of alignments; a field is aligned and inside the
  structure; two fields do not overlap.
\<close>

lemma layout_laws:
  assumes "wf_type (Struct a fs)"
  shows "align_of (Struct a fs) dvd size_of (Struct a fs)"
    and "field_in 0 fs f = Some (off, t) \<Longrightarrow> align_of t dvd off \<and> off + size_of t \<le> size_of (Struct a fs)"
    and "field_in 0 fs f = Some (off, t) \<Longrightarrow> field_in 0 fs g = Some (off', t') \<Longrightarrow> f \<noteq> g \<Longrightarrow>
      off + size_of t \<le> off' \<or> off' + size_of t' \<le> off"
proof -
  have wf: "wf_fields fs" "0 < align_of (Struct a fs)" using assms align_pos [OF assms] by simp_all
  show "align_of (Struct a fs) dvd size_of (Struct a fs)" using assms by (rule align_dvd_size)
  have "fields_end fs 0 \<le> size_of (Struct a fs)" using round_up_bounds(1) [OF wf(2)] by simp
  then show "field_in 0 fs f = Some (off, t) \<Longrightarrow> align_of t dvd off \<and> off + size_of t \<le> size_of (Struct a fs)"
    using field_in_bounds [OF wf(1), of 0 f off t] by linarith
  show "field_in 0 fs f = Some (off, t) \<Longrightarrow> field_in 0 fs g = Some (off', t') \<Longrightarrow> f \<noteq> g \<Longrightarrow>
      off + size_of t \<le> off' \<or> off' + size_of t' \<le> off"
    by (rule fields_disjoint [OF wf(1)])
qed


subsection \<open>Access to fields\<close>

text \<open>The fields of a structure, with their names and types, in the order of the source.\<close>

abbreviation repr_C :: "fields \<Rightarrow> c_type" where
  "repr_C fs \<equiv> Struct 1 fs"

named_theorems layout_types

lemmas layout_eval = scalar_def round_up_def

text \<open>\<open>(*p).f\<close> of a structure of type \<open>t\<close> at \<open>p\<close>, for a field of 64 bits.\<close>

definition rd_field :: "mem \<Rightarrow> ptr \<Rightarrow> c_type \<Rightarrow> string \<Rightarrow> u64 option" where
  "rd_field m p t f = do {
     off \<leftarrow> offset_of t f;
     rd64 m (p + of_nat off)
   }"

definition wr_field :: "mem \<Rightarrow> ptr \<Rightarrow> c_type \<Rightarrow> string \<Rightarrow> u64 \<Rightarrow> mem option" where
  "wr_field m p t f v = do {
     off \<leftarrow> offset_of t f;
     wr64 m (p + of_nat off) v
   }"

text \<open>\<open>(*p).f[i]\<close>, where an index out of the array panics.\<close>

fun elem_offset :: "(nat \<times> c_type) option \<Rightarrow> u64 \<Rightarrow> u64 option" where
  "elem_offset (Some (off, Array t k)) i =
     (if unat i < k then Some (of_nat off + of_nat (size_of t) * i) else None)"
| "elem_offset _ i = None"

definition rd_elem :: "mem \<Rightarrow> ptr \<Rightarrow> c_type \<Rightarrow> string \<Rightarrow> u64 \<Rightarrow> u64 option" where
  "rd_elem m p t f i = do {
     off \<leftarrow> elem_offset (field_of t f) i;
     rd64 m (p + off)
   }"

definition wr_elem :: "mem \<Rightarrow> ptr \<Rightarrow> c_type \<Rightarrow> string \<Rightarrow> u64 \<Rightarrow> u64 \<Rightarrow> mem option" where
  "wr_elem m p t f i v = do {
     off \<leftarrow> elem_offset (field_of t f) i;
     wr64 m (p + off) v
   }"

lemmas field_access = rd_field_def wr_field_def rd_elem_def wr_elem_def

end
