(* ===== verification/Int_Ops.thy ===== *)
theory Int_Ops
  imports Prelude "HOL-Library.Signed_Division"
begin

section \<open>Integer helpers\<close>

text \<open>
  \<open>mytilus-stdlib/src/int_ops.rs\<close>: the \<open>abs\<close> and \<open>div\<close> families. Rust's \<open>/\<close>
  and \<open>%\<close> on signed integers truncate towards zero (\<open>sdiv\<close> and \<open>smod\<close> on
  \<open>int\<close>) and panic, whatever the build profile, when the divisor is 0 or the quotient does
  not fit: the panic is \<open>None\<close>.
\<close>

subsection \<open>Definitions\<close>

type_synonym intmax_t = i64

definition abs_fn :: "c_int \<Rightarrow> c_int" where
  "abs_fn a = (if 0 <s a then a else - a)"

definition labs :: "c_long \<Rightarrow> c_long" where
  "labs a = (if 0 <s a then a else - a)"

definition llabs :: "c_longlong \<Rightarrow> c_longlong" where
  "llabs a = (if 0 <s a then a else - a)"

definition imaxabs :: "intmax_t \<Rightarrow> intmax_t" where
  "imaxabs a = (if 0 <s a then a else - a)"

record div_t =
  div_quot :: c_int
  div_rem :: c_int

record ldiv_t =
  ldiv_quot :: c_long
  ldiv_rem :: c_long

record lldiv_t =
  lldiv_quot :: c_longlong
  lldiv_rem :: c_longlong

record imaxdiv_t =
  imaxdiv_quot :: intmax_t
  imaxdiv_rem :: intmax_t

text \<open>Rust's \<open>/\<close> and \<open>%\<close> on a signed word, with their panics.\<close>

definition div_panics :: "'a::len word \<Rightarrow> 'a word \<Rightarrow> bool" where
  "div_panics num den \<longleftrightarrow> den = 0 \<or> sint num = - (2 ^ (LENGTH('a) - 1)) \<and> sint den = - 1"

definition rust_div :: "'a::len word \<Rightarrow> 'a word \<Rightarrow> 'a word option" where
  "rust_div num den = (if div_panics num den then None else Some (word_of_int (sint num sdiv sint den)))"

definition rust_rem :: "'a::len word \<Rightarrow> 'a word \<Rightarrow> 'a word option" where
  "rust_rem num den = (if div_panics num den then None else Some (word_of_int (sint num smod sint den)))"

definition div_fn :: "c_int \<Rightarrow> c_int \<Rightarrow> div_t option" where
  "div_fn num den = do {
     q \<leftarrow> rust_div num den;
     r \<leftarrow> rust_rem num den;
     Some \<lparr>div_quot = q, div_rem = r\<rparr>
   }"

definition ldiv :: "c_long \<Rightarrow> c_long \<Rightarrow> ldiv_t option" where
  "ldiv num den = do {
     q \<leftarrow> rust_div num den;
     r \<leftarrow> rust_rem num den;
     Some \<lparr>ldiv_quot = q, ldiv_rem = r\<rparr>
   }"

definition lldiv :: "c_longlong \<Rightarrow> c_longlong \<Rightarrow> lldiv_t option" where
  "lldiv num den = do {
     q \<leftarrow> rust_div num den;
     r \<leftarrow> rust_rem num den;
     Some \<lparr>lldiv_quot = q, lldiv_rem = r\<rparr>
   }"

definition imaxdiv :: "intmax_t \<Rightarrow> intmax_t \<Rightarrow> imaxdiv_t option" where
  "imaxdiv num den = do {
     q \<leftarrow> rust_div num den;
     r \<leftarrow> rust_rem num den;
     Some \<lparr>imaxdiv_quot = q, imaxdiv_rem = r\<rparr>
   }"


subsection \<open>Negation and division at a width\<close>

lemma sint_range_len: "- (2 ^ (LENGTH('a) - 1)) \<le> sint (a :: 'a::len word)"
  "sint a < 2 ^ (LENGTH('a) - 1)"
  by (rule sint_ge, rule sint_lt)

lemma sint_word_of_int_fit:
  "- (2 ^ (LENGTH('a) - 1)) \<le> k \<Longrightarrow> k < 2 ^ (LENGTH('a) - 1) \<Longrightarrow> sint (word_of_int k :: 'a::len word) = k"
  by (simp add: sint_sbintrunc' signed_take_bit_int_eq_self)

text \<open>\<open>wrapping_neg\<close> is negation, except on the least value, which it keeps.\<close>

lemma sint_minus:
  "sint (- a :: 'a::len word)
    = (if sint a = - (2 ^ (LENGTH('a) - 1)) then sint a else - sint a)"
proof (cases "sint a = - (2 ^ (LENGTH('a) - 1))")
  case True
  have a: "a = word_of_int (sint a)" by simp
  have "- a = word_of_int (2 ^ (LENGTH('a) - 1))"
    by (subst a, subst True) simp
  also have "\<dots> = word_of_int (- (2 ^ (LENGTH('a) - 1)))"
  proof (rule word_of_int_eq_iff [THEN iffD2])
    obtain n where "LENGTH('a) = Suc n" by (metis len_not_eq_0 not0_implies_Suc)
    then show "take_bit LENGTH('a) (2 ^ (LENGTH('a) - 1) :: int)
        = take_bit LENGTH('a) (- (2 ^ (LENGTH('a) - 1)))"
      unfolding take_bit_eq_mod mod_eq_dvd_iff by simp
  qed
  also have "\<dots> = a" using a True by simp
  finally have "- a = a" .
  with True show ?thesis by (simp only: simp_thms if_True)
next
  case False
  have "- a = word_of_int (- sint a)" by simp
  moreover have "sint (word_of_int (- sint a) :: 'a word) = - sint a"
    using False sint_range_len [of a] by (intro sint_word_of_int_fit) linarith+
  ultimately show ?thesis using False by simp
qed

lemma sdiv_bound:
  fixes k l :: int
  assumes "\<bar>l\<bar> \<ge> 2" "k \<noteq> 0"
  shows "\<bar>k sdiv l\<bar> < \<bar>k\<bar>"
proof -
  have "\<bar>k sdiv l\<bar> = \<bar>k\<bar> div \<bar>l\<bar>"
    using assms by (auto simp: signed_divide_int_def abs_mult abs_sgn_eq pos_imp_zdiv_nonneg_iff)
  also have "\<dots> < \<bar>k\<bar>" using assms by (intro int_div_less_self) auto
  finally show ?thesis .
qed

text \<open>The quotient of a division that does not panic fits.\<close>

lemma quotient_fits:
  fixes num den :: "'a::len word"
  assumes "\<not> div_panics num den"
  shows "sint (word_of_int (sint num sdiv sint den) :: 'a word) = sint num sdiv sint den"
proof (rule sint_word_of_int_fit)
  have d: "sint den \<noteq> 0" "sint num = - (2 ^ (LENGTH('a) - 1)) \<Longrightarrow> sint den \<noteq> - 1"
    using assms by (auto simp: div_panics_def signed_eq_0_iff)
  consider "sint den = 1" | "sint den = - 1" | "\<bar>sint den\<bar> \<ge> 2" using d(1) by linarith
  then have "- (2 ^ (LENGTH('a) - 1)) \<le> sint num sdiv sint den
      \<and> sint num sdiv sint den < 2 ^ (LENGTH('a) - 1)"
  proof cases
    case 1
    then show ?thesis using sint_range_len [of num] by simp
  next
    case 2
    then have "sint num \<noteq> - (2 ^ (LENGTH('a) - 1))" using d(2) by blast
    with 2 show ?thesis using sint_range_len [of num] by simp
  next
    case 3
    then show ?thesis
      using sdiv_bound [OF 3, of "sint num"] sint_range_len [of num]
      by (cases "sint num = 0") (auto simp: abs_if split: if_splits)
  qed
  then show "- (2 ^ (LENGTH('a) - 1)) \<le> sint num sdiv sint den"
    and "sint num sdiv sint den < 2 ^ (LENGTH('a) - 1)" by simp_all
qed

lemma remainder_fits:
  fixes num den :: "'a::len word"
  assumes "den \<noteq> 0"
  shows "sint (word_of_int (sint num smod sint den) :: 'a word) = sint num smod sint den"
proof (rule sint_word_of_int_fit)
  have "sint den \<noteq> 0" using assms by (simp add: signed_eq_0_iff)
  moreover have "sint num smod sint den \<in> {- \<bar>sint den\<bar> + 1..\<bar>sint den\<bar> - 1}"
    using calculation by (rule smod_int_range)
  ultimately show "- (2 ^ (LENGTH('a) - 1)) \<le> sint num smod sint den"
    and "sint num smod sint den < 2 ^ (LENGTH('a) - 1)"
    using sint_range_len [of den] by (auto simp: abs_if split: if_splits)
qed

lemma div_rem_value:
  fixes num den :: "'a::len word"
  assumes "\<not> div_panics num den"
  obtains q r where "rust_div num den = Some q" "rust_rem num den = Some r"
    "sint q = sint num sdiv sint den" "sint r = sint num smod sint den"
proof -
  have "den \<noteq> 0" using assms by (simp add: div_panics_def)
  with assms show ?thesis
    using that quotient_fits [OF assms] remainder_fits [of den num]
    by (simp add: rust_div_def rust_rem_def)
qed

text \<open>Truncated division, as C states it.\<close>

lemma truncated_division:
  fixes a b :: int
  assumes "b \<noteq> 0"
  shows "a = (a sdiv b) * b + a smod b" and "\<bar>a smod b\<bar> < \<bar>b\<bar>"
    and "a smod b = 0 \<or> sgn (a smod b) = sgn a"
proof -
  show "a = (a sdiv b) * b + a smod b" by (simp add: sdiv_mult_smod_eq)
  show "\<bar>a smod b\<bar> < \<bar>b\<bar>" using smod_int_range [OF assms, of a] by auto
  have "0 \<le> \<bar>a\<bar> mod \<bar>b\<bar>" using assms by simp
  then show "a smod b = 0 \<or> sgn (a smod b) = sgn a"
    by (auto simp: signed_modulo_int_def sgn_mult less_le)
qed


subsection \<open>Properties\<close>

lemma abs_family_correct_laws:
  "sint (abs_fn i) = (if sint i = - (2 ^ 31) then - (2 ^ 31) else \<bar>sint i\<bar>)"
  "sint (labs l) = (if sint l = - (2 ^ 63) then - (2 ^ 63) else \<bar>sint l\<bar>)"
  "llabs l = labs l"
  "imaxabs l = labs l"
  by (simp_all add: abs_fn_def labs_def llabs_def imaxabs_def word_sless_alt sint_minus)

text \<open>
  The four functions of the \<open>abs\<close> family return the absolute value, except on the
  least value of the type, whose absolute value does not fit: they return that value itself.
\<close>

theorem abs_family_correct:
  "(sint (abs_fn i) = (if sint i = - (2 ^ 31) then - (2 ^ 31) else \<bar>sint i\<bar>))
   \<and> (sint (labs l) = (if sint l = - (2 ^ 63) then - (2 ^ 63) else \<bar>sint l\<bar>))
   \<and> (llabs l = labs l)
   \<and> (imaxabs l = labs l)"
  by (intro conjI allI impI abs_family_correct_laws)

lemma div_correct_laws:
  "div_fn num den = None \<longleftrightarrow> sint den = 0 \<or> (sint num = - (2 ^ 31) \<and> sint den = - 1)"
  "div_fn num den = Some d \<Longrightarrow>
     sint num = sint (div_quot d) * sint den + sint (div_rem d)
     \<and> \<bar>sint (div_rem d)\<bar> < \<bar>sint den\<bar>
     \<and> (sint (div_rem d) = 0 \<or> sgn (sint (div_rem d)) = sgn (sint num))"
proof -
  show "div_fn num den = None \<longleftrightarrow> sint den = 0 \<or> (sint num = - (2 ^ 31) \<and> sint den = - 1)"
    by (simp add: div_fn_def rust_div_def rust_rem_def div_panics_def signed_eq_0_iff)
  assume d: "div_fn num den = Some d"
  then have "\<not> div_panics num den" by (auto simp: div_fn_def rust_div_def)
  moreover from this have "sint den \<noteq> 0" by (simp add: div_panics_def signed_eq_0_iff)
  ultimately show "sint num = sint (div_quot d) * sint den + sint (div_rem d)
     \<and> \<bar>sint (div_rem d)\<bar> < \<bar>sint den\<bar>
     \<and> (sint (div_rem d) = 0 \<or> sgn (sint (div_rem d)) = sgn (sint num))"
    using d truncated_division [of "sint den" "sint num"]
    by (elim div_rem_value) (auto simp: div_fn_def)
qed

text \<open>
  C30. The \<open>div\<close> family panics exactly on a zero divisor and on the least value divided by
  \<open>-1\<close>; otherwise the quotient and the remainder are those of C: the numerator is the
  quotient times the divisor plus the remainder, the remainder is smaller than the divisor and
  has the sign of the numerator.
\<close>

theorem div_correct:
  "(div_fn num den = None \<longleftrightarrow> sint den = 0 \<or> (sint num = - (2 ^ 31) \<and> sint den = - 1))
   \<and> (\<forall>d. div_fn num den = Some d \<longrightarrow>
        sint num = sint (div_quot d) * sint den + sint (div_rem d)
        \<and> \<bar>sint (div_rem d)\<bar> < \<bar>sint den\<bar>
        \<and> (sint (div_rem d) = 0 \<or> sgn (sint (div_rem d)) = sgn (sint num)))"
  using div_correct_laws(1) div_correct_laws(2) by blast

lemma div_correct_witness:
  "div_fn (- 7) 2 = Some \<lparr>div_quot = - 3, div_rem = - 1\<rparr>
   \<and> (- 7 :: int) = sint (- 3 :: c_int) * 2 + sint (- 1 :: c_int)"
proof -
  have d: "div_fn (- 7) 2 = Some \<lparr>div_quot = - 3, div_rem = - 1\<rparr>"
    by code_simp
  then show ?thesis using div_correct [of "- 7" 2] by auto
qed

lemma ldiv_family_correct_laws:
  "ldiv num den = None \<longleftrightarrow> sint den = 0 \<or> (sint num = - (2 ^ 63) \<and> sint den = - 1)"
  "ldiv num den = Some d \<Longrightarrow>
     lldiv num den = Some \<lparr>lldiv_quot = ldiv_quot d, lldiv_rem = ldiv_rem d\<rparr>
     \<and> imaxdiv num den = Some \<lparr>imaxdiv_quot = ldiv_quot d, imaxdiv_rem = ldiv_rem d\<rparr>
     \<and> sint num = sint (ldiv_quot d) * sint den + sint (ldiv_rem d)
     \<and> \<bar>sint (ldiv_rem d)\<bar> < \<bar>sint den\<bar>
     \<and> (sint (ldiv_rem d) = 0 \<or> sgn (sint (ldiv_rem d)) = sgn (sint num))"
proof -
  show "ldiv num den = None \<longleftrightarrow> sint den = 0 \<or> (sint num = - (2 ^ 63) \<and> sint den = - 1)"
    by (simp add: ldiv_def rust_div_def rust_rem_def div_panics_def signed_eq_0_iff)
  assume d: "ldiv num den = Some d"
  then have "\<not> div_panics num den" by (auto simp: ldiv_def rust_div_def)
  moreover from this have "sint den \<noteq> 0" by (simp add: div_panics_def signed_eq_0_iff)
  ultimately show "lldiv num den = Some \<lparr>lldiv_quot = ldiv_quot d, lldiv_rem = ldiv_rem d\<rparr>
     \<and> imaxdiv num den = Some \<lparr>imaxdiv_quot = ldiv_quot d, imaxdiv_rem = ldiv_rem d\<rparr>
     \<and> sint num = sint (ldiv_quot d) * sint den + sint (ldiv_rem d)
     \<and> \<bar>sint (ldiv_rem d)\<bar> < \<bar>sint den\<bar>
     \<and> (sint (ldiv_rem d) = 0 \<or> sgn (sint (ldiv_rem d)) = sgn (sint num))"
    using d truncated_division [of "sint den" "sint num"]
    by (elim div_rem_value) (auto simp: ldiv_def lldiv_def imaxdiv_def)
qed

text \<open>
  The wider variants \<open>ldiv\<close>, \<open>lldiv\<close> and \<open>imaxdiv\<close> agree with each other
  and satisfy the same division law at 64 bits.
\<close>

theorem ldiv_family_correct:
  "(ldiv num den = None \<longleftrightarrow> sint den = 0 \<or> (sint num = - (2 ^ 63) \<and> sint den = - 1))
   \<and> (\<forall>d. ldiv num den = Some d \<longrightarrow>
        lldiv num den = Some \<lparr>lldiv_quot = ldiv_quot d, lldiv_rem = ldiv_rem d\<rparr>
        \<and> imaxdiv num den = Some \<lparr>imaxdiv_quot = ldiv_quot d, imaxdiv_rem = ldiv_rem d\<rparr>
        \<and> sint num = sint (ldiv_quot d) * sint den + sint (ldiv_rem d)
        \<and> \<bar>sint (ldiv_rem d)\<bar> < \<bar>sint den\<bar>
        \<and> (sint (ldiv_rem d) = 0 \<or> sgn (sint (ldiv_rem d)) = sgn (sint num)))"
  using ldiv_family_correct_laws(1) ldiv_family_correct_laws(2) by blast

lemma ldiv_family_correct_witness:
  "lldiv 7 (- 2) = Some \<lparr>lldiv_quot = - 3, lldiv_rem = 1\<rparr>"
proof -
  have "ldiv 7 (- 2) = Some \<lparr>ldiv_quot = - 3, ldiv_rem = 1\<rparr>"
    by code_simp
  then show ?thesis using ldiv_family_correct [of 7 "- 2"] by auto
qed

end
