(* ===== verification/Time.thy ===== *)
theory Time
  imports Syscall Layout Int_Ops
begin

section \<open>Clocks and sleeping\<close>

text \<open>
  \<open>mytilus-time/src/lib.rs\<close>. A \<open>timespec\<close> or \<open>timeval\<close> behind a pointer is two
  64-bit fields in the memory; a local that a function passes to the kernel has an address, the
  argument \<open>ts\<close> of the definition, which the compiler chooses. An access to memory that is
  not mapped is None.
\<close>

named_theorems time_defs

definition CLOCK_REALTIME :: clockid_t where [time_defs]: "CLOCK_REALTIME = 0"
definition CLOCK_MONOTONIC :: clockid_t where [time_defs]: "CLOCK_MONOTONIC = 1"
definition CLOCK_PROCESS_CPUTIME_ID :: clockid_t where [time_defs]: "CLOCK_PROCESS_CPUTIME_ID = 2"
definition CLOCK_THREAD_CPUTIME_ID :: clockid_t where [time_defs]: "CLOCK_THREAD_CPUTIME_ID = 3"
definition CLOCK_MONOTONIC_RAW :: clockid_t where [time_defs]: "CLOCK_MONOTONIC_RAW = 4"
definition CLOCK_REALTIME_COARSE :: clockid_t where [time_defs]: "CLOCK_REALTIME_COARSE = 5"
definition CLOCK_MONOTONIC_COARSE :: clockid_t where [time_defs]: "CLOCK_MONOTONIC_COARSE = 6"
definition CLOCK_BOOTTIME :: clockid_t where [time_defs]: "CLOCK_BOOTTIME = 7"
definition CLOCK_REALTIME_ALARM :: clockid_t where [time_defs]: "CLOCK_REALTIME_ALARM = 8"
definition CLOCK_BOOTTIME_ALARM :: clockid_t where [time_defs]: "CLOCK_BOOTTIME_ALARM = 9"
definition CLOCK_TAI :: clockid_t where [time_defs]: "CLOCK_TAI = 11"
definition TIMER_ABSTIME :: c_int where [time_defs]: "TIMER_ABSTIME = 1"


subsection \<open>The structures\<close>

record timespec =
  tv_sec :: time_t
  tv_nsec :: c_long

definition timespec_type :: c_type where [layout_types]:
  "timespec_type = repr_C (Field ''tv_sec'' (scalar TYPE(time_t))
     (Field ''tv_nsec'' (scalar TYPE(c_long)) No_Field))"

definition timeval_type :: c_type where [layout_types]:
  "timeval_type = repr_C (Field ''tv_sec'' (scalar TYPE(time_t))
     (Field ''tv_usec'' (scalar TYPE(suseconds_t)) No_Field))"

text \<open>The initialisation of a local with a structure literal.\<close>

definition put_timespec :: "mem \<Rightarrow> ptr \<Rightarrow> timespec \<Rightarrow> mem option" where
  "put_timespec m p ts = do {
     m1 \<leftarrow> wr_field m p timespec_type ''tv_sec'' (tv_sec ts);
     wr_field m1 p timespec_type ''tv_nsec'' (tv_nsec ts)
   }"


subsection \<open>The operations\<close>

definition clock_gettime_internal :: "'k kernel \<Rightarrow> clockid_t \<Rightarrow> ptr \<Rightarrow> ('k, c_int) action" where
  "clock_gettime_internal K clk ts w = do {
     (r, w1) \<leftarrow> syscall2 K SYS_clock_gettime (scast clk) ts w;
     ret_as r w1
   }"

definition clock_gettime :: "'k kernel \<Rightarrow> clockid_t \<Rightarrow> ptr \<Rightarrow> ('k, c_int) action" where
  "clock_gettime K clk ts w = clock_gettime_internal K clk ts w"

definition clock_settime :: "'k kernel \<Rightarrow> clockid_t \<Rightarrow> ptr \<Rightarrow> ('k, c_int) action" where
  "clock_settime K clk ts w = do {
     (r, w1) \<leftarrow> syscall2 K SYS_clock_settime (scast clk) ts w;
     ret_as r w1
   }"

definition clock_getres :: "'k kernel \<Rightarrow> clockid_t \<Rightarrow> ptr \<Rightarrow> ('k, c_int) action" where
  "clock_getres K clk ts w = do {
     (r, w1) \<leftarrow> syscall2 K SYS_clock_getres (scast clk) ts w;
     ret_as r w1
   }"

definition clock_nanosleep_internal ::
    "'k kernel \<Rightarrow> clockid_t \<Rightarrow> c_int \<Rightarrow> ptr \<Rightarrow> ptr \<Rightarrow> ('k, c_int) action" where
  "clock_nanosleep_internal K clk flags req rem w =
     (if clk = CLOCK_THREAD_CPUTIME_ID then Some (EINVAL, w)
      else do {
        (r, w1) \<leftarrow> syscall_cp4 K SYS_clock_nanosleep (scast clk) (scast flags) req rem w;
        neg_as r w1
      })"

definition clock_nanosleep ::
    "'k kernel \<Rightarrow> clockid_t \<Rightarrow> c_int \<Rightarrow> ptr \<Rightarrow> ptr \<Rightarrow> ('k, c_int) action" where
  "clock_nanosleep K clk flags req rem w = clock_nanosleep_internal K clk flags req rem w"

definition nanosleep :: "'k kernel \<Rightarrow> ptr \<Rightarrow> ptr \<Rightarrow> ('k, c_int) action" where
  "nanosleep K req rem w = do {
     (positive, w1) \<leftarrow> clock_nanosleep_internal K CLOCK_REALTIME 0 req rem w;
     ret_as (- scast positive) w1
   }"

text \<open>The signed quotient by 1000 truncates towards zero, as \<open>/\<close> of Rust does.\<close>

definition gettimeofday :: "'k kernel \<Rightarrow> ptr \<Rightarrow> ptr \<Rightarrow> ptr \<Rightarrow> ('k, c_int) action" where
  "gettimeofday K ts tv tz w =
     (if tv = 0 then Some (0, w)
      else do {
        m0 \<leftarrow> put_timespec (ram w) ts \<lparr>tv_sec = 0, tv_nsec = 0\<rparr>;
        (_, w1) \<leftarrow> clock_gettime K CLOCK_REALTIME ts (w\<lparr>ram := m0\<rparr>);
        s \<leftarrow> rd_field (ram w1) ts timespec_type ''tv_sec'';
        m1 \<leftarrow> wr_field (ram w1) tv timeval_type ''tv_sec'' s;
        n \<leftarrow> rd_field m1 ts timespec_type ''tv_nsec'';
        m2 \<leftarrow> wr_field m1 tv timeval_type ''tv_usec'' (word_of_int (sint n sdiv 1000));
        Some (0, w1\<lparr>ram := m2\<rparr>)
      })"

definition time :: "'k kernel \<Rightarrow> ptr \<Rightarrow> ptr \<Rightarrow> ('k, time_t) action" where
  "time K ts t w = do {
     m0 \<leftarrow> put_timespec (ram w) ts \<lparr>tv_sec = 0, tv_nsec = 0\<rparr>;
     (_, w1) \<leftarrow> clock_gettime_internal K CLOCK_REALTIME ts (w\<lparr>ram := m0\<rparr>);
     m1 \<leftarrow> (if t \<noteq> 0
            then do { s \<leftarrow> rd_field (ram w1) ts timespec_type ''tv_sec''; wr64 (ram w1) t s }
            else Some (ram w1));
     s \<leftarrow> rd_field m1 ts timespec_type ''tv_sec'';
     Some (s, w1\<lparr>ram := m1\<rparr>)
   }"


subsection \<open>Structures as bytes\<close>

text \<open>Where the fields are: the layout that the kernel has.\<close>

lemma time_fields [simp]:
  "rd_field m p timespec_type ''tv_sec'' = rd64 m p"
  "rd_field m p timespec_type ''tv_nsec'' = rd64 m (p + 8)"
  "wr_field m p timespec_type ''tv_sec'' v = wr64 m p v"
  "wr_field m p timespec_type ''tv_nsec'' v = wr64 m (p + 8) v"
  "wr_field m p timeval_type ''tv_sec'' v = wr64 m p v"
  "wr_field m p timeval_type ''tv_usec'' v = wr64 m (p + 8) v"
  by (simp_all add: field_access layout_types layout_eval)

definition enc_pair :: "u64 \<Rightarrow> u64 \<Rightarrow> u8 list" where
  "enc_pair a b = to_le 8 a @ to_le 8 b"

lemma length_enc_pair [simp]: "length (enc_pair a b) = 16"
  by (simp add: enc_pair_def)

lemma put_pair: "put (put m p (to_le 8 a)) (p + 8) (to_le 8 b) = put m p (enc_pair a b)"
  using put_append [of "to_le 8 a" "to_le 8 b" m p] by (simp add: enc_pair_def)

lemma mapped_second: "mapped m p 16 \<Longrightarrow> mapped (put m q xs) (p + 8) 8"
  using mapped_put [OF mapped_shift [of m p 16 8 8]] by simp

lemma put_timespec_eq:
  assumes "mapped m p 16"
  shows "put_timespec m p ts = Some (put m p (enc_pair (tv_sec ts) (tv_nsec ts)))"
proof -
  have "mapped m p 8" using assms by (rule mapped_mono) simp
  then show ?thesis
    using assms by (simp add: put_timespec_def wr64_eq mapped_second put_pair)
qed

lemma bytes_at_enc_pair:
  "bytes_at m p (enc_pair a b) \<longleftrightarrow> rd64 m p = Some a \<and> rd64 m (p + 8) = Some b"
  by (simp add: enc_pair_def bytes_at_append rd64_iff)


subsection \<open>Clock calls\<close>

interpretation clock_gettime: posix_call
  "syscall2 K SYS_clock_gettime (scast clk) ts" "clock_gettime K clk ts" for K clk ts
  by unfold_locales (simp_all add: clock_gettime_def clock_gettime_internal_def)

interpretation clock_settime: posix_call
  "syscall2 K SYS_clock_settime (scast clk) ts" "clock_settime K clk ts" for K clk ts
  by unfold_locales (simp_all add: clock_settime_def)

interpretation clock_getres: posix_call
  "syscall2 K SYS_clock_getres (scast clk) ts" "clock_getres K clk ts" for K clk ts
  by unfold_locales (simp_all add: clock_getres_def)

text \<open>The thread CPU clock is refused as the kernel would refuse it.\<close>

definition nanosleep_raw :: "'k kernel \<Rightarrow> c_int \<Rightarrow> c_int \<Rightarrow> ptr \<Rightarrow> ptr \<Rightarrow> ('k, c_long) action" where
  "nanosleep_raw K clk flags req rem w =
     (if clk = CLOCK_THREAD_CPUTIME_ID then Some (- scast EINVAL, w)
      else syscall_cp4 K SYS_clock_nanosleep (scast clk) (scast flags) req rem w)"

interpretation clock_nanosleep: direct_call
  "nanosleep_raw K clk flags req rem" "clock_nanosleep K clk flags req rem" for K clk flags req rem
  by unfold_locales
    (auto simp: nanosleep_raw_def clock_nanosleep_def clock_nanosleep_internal_def neg_as_def
      EINVAL_def cp4.keeps_errno cp4.keeps_cancel split: if_splits)

definition nanosleep_neg :: "'k kernel \<Rightarrow> ptr \<Rightarrow> ptr \<Rightarrow> ('k, c_long) action" where
  "nanosleep_neg K req rem w = do {
     (positive, w1) \<leftarrow> clock_nanosleep_internal K CLOCK_REALTIME 0 req rem w;
     Some (- scast positive, w1)
   }"

interpretation nanosleep: posix_call "nanosleep_neg K req rem" "nanosleep K req rem" for K req rem
  by unfold_locales
    (auto simp: nanosleep_neg_def nanosleep_def split_beta split: bind_splits
      dest: clock_nanosleep.errno_kept [unfolded clock_nanosleep_def]
        clock_nanosleep.cancel_kept [unfolded clock_nanosleep_def])

lemma neg_errno:
  assumes "- 4095 \<le> sint (r :: c_long)" "sint r \<le> 0"
  obtains v :: c_int where "v = ucast (- r)" "v = word_of_int (- sint r)" "- scast v = r"
proof -
  have v: "sint (ucast (- r) :: c_int) = - sint r"
    using assms by (intro sint_neg_errno) simp_all
  then have "sint (scast (ucast (- r) :: c_int) :: c_long) = - sint r"
    by (simp only: sint_scast_64)
  then have "(scast (ucast (- r) :: c_int) :: c_long) = word_of_int (- sint r)"
    by (metis of_int_sint scast_id)
  then have "- scast (ucast (- r) :: c_int) = r" by simp
  moreover have "(ucast (- r) :: c_int) = word_of_int (- sint r)"
    using v by (metis of_int_sint scast_id)
  ultimately show ?thesis using that by blast
qed

lemma nanosleep_result:
  assumes "dummy_cancel w = 0" "reads_args K ar" "ar 115 \<le> 4"
    and "K 115 [0, 0, req, rem] (ram w) (kern w) = Some (r, m, k)"
    and "- 4095 \<le> sint r" "sint r \<le> 0"
  shows "clock_nanosleep K 0 0 req rem w =
      Some (word_of_int (- sint r), w\<lparr>ram := m, kern := k\<rparr>)
    \<and> nanosleep K req rem w =
      Some (if r = 0 then (0, w\<lparr>ram := m, kern := k\<rparr>)
            else (- 1, w\<lparr>ram := m, kern := k, errno := word_of_int (- sint r)\<rparr>))"
proof -
  let ?w = "w\<lparr>ram := m, kern := k\<rparr>"
  have raw: "syscall_cp4 K 115 0 0 req rem w = Some (r, ?w)"
    using assms(1-4) by (simp add: syscall_cp4_eq syscall4_def svc_def)
  obtain v :: c_int where v: "v = ucast (- r)" "v = word_of_int (- sint r)" "- scast v = r"
    using neg_errno [OF assms(5, 6)] .
  have inner: "clock_nanosleep_internal K 0 0 req rem w = Some (v, ?w)"
    using raw by (simp add: clock_nanosleep_internal_def time_defs SYS_clock_nanosleep_def neg_as_def v(1))
  have "posix r ?w = (if r = 0 then (0 :: c_int, ?w) else (- 1, ?w\<lparr>errno := v\<rparr>))"
  proof (cases "r = 0")
    case False
    then have "sint r \<noteq> 0" by (metis of_int_0 of_int_sint scast_id)
    with False assms(5, 6) show ?thesis by (simp add: posix_def outcome_def v(2) del: of_int_minus)
  qed (simp add: posix_def outcome_def)
  with inner show ?thesis
    by (simp add: clock_nanosleep_def nanosleep_def CLOCK_REALTIME_def v(3) ret_as_posix_32
        del: of_int_minus) (simp add: v(2))
qed

text \<open>
  The two conventions of sleeping: \<open>clock_nanosleep\<close> returns the error number and leaves
  \<open>errno\<close> alone, \<open>nanosleep\<close> turns it back into -1 and \<open>errno\<close>.
\<close>

theorem nanosleep_correct:
  assumes "dummy_cancel w = 0" "reads_args K ar" "ar 115 \<le> 4"
    and "K 115 [0, 0, req, rem] (ram w) (kern w) = Some (r, m, k)"
    and "- 4095 \<le> sint r" "sint r \<le> 0"
  shows "clock_nanosleep K 0 0 req rem w =
      Some (word_of_int (- sint r), w\<lparr>ram := m, kern := k\<rparr>)
    \<and> nanosleep K req rem w =
      Some (if r = 0 then (0, w\<lparr>ram := m, kern := k\<rparr>)
            else (- 1, w\<lparr>ram := m, kern := k, errno := word_of_int (- sint r)\<rparr>))"
  using nanosleep_result [OF assms] .


subsection \<open>The time of day\<close>

lemma sdiv_1000: "0 \<le> a \<Longrightarrow> a sdiv 1000 = a div (1000 :: int)"
  by (cases "a = 0") (simp_all add: signed_divide_int_def)

lemma usec_of_nsec:
  assumes "0 \<le> sint (n :: i64)" "sint n < 10 ^ 9"
  obtains u :: i64 where "word_of_int (sint n sdiv 1000) = u" "sint u = sint n div 1000"
    "0 \<le> sint u" "sint u < 10 ^ 6"
proof -
  have "0 \<le> sint n div 1000" "sint n div 1000 < 10 ^ 6" using assms by simp_all
  moreover from this have "sint (word_of_int (sint n div 1000) :: i64) = sint n div 1000"
    by (subst signed_of_int, subst signed_take_bit_int_eq_self) simp_all
  ultimately show ?thesis using that sdiv_1000 [OF assms(1)] by simp
qed

text \<open>
  C28. \<open>gettimeofday\<close> stores the seconds of the clock and its nanoseconds divided by 1000, which
  are below a million, and \<open>time\<close> returns and stores the seconds. Each writes its local
  and the object of the caller and nothing else; a null pointer is not written.
\<close>

theorem time_of_day_correct:
  assumes "mapped (ram w) ts 16" "mapped (ram w) tv 16" "disjoint_spans ts 16 tv 16" "tv \<noteq> 0"
    and clock: "K 113 [0, ts] (put (ram w) ts (enc_pair 0 0)) (kern w) =
      Some (0, put (ram w) ts (enc_pair s n), k)"
    and nsec: "0 \<le> sint n" "sint n < 10 ^ 9"
  shows "(\<exists>u. gettimeofday K ts tv tz w =
        Some (0, w\<lparr>ram := put (put (ram w) ts (enc_pair s n)) tv (enc_pair s u), kern := k\<rparr>)
      \<and> sint u = sint n div 1000 \<and> 0 \<le> sint u \<and> sint u < 10 ^ 6)
    \<and> gettimeofday K ts 0 tz w = Some (0, w)
    \<and> time K ts tv w =
      Some (s, w\<lparr>ram := put (put (ram w) ts (enc_pair s n)) tv (to_le 8 s), kern := k\<rparr>)
    \<and> time K ts 0 w = Some (s, w\<lparr>ram := put (ram w) ts (enc_pair s n), kern := k\<rparr>)"
proof -
  let ?m = "put (ram w) ts (enc_pair s n)"
  obtain u :: i64 where u: "word_of_int (sint n sdiv 1000) = u" "sint u = sint n div 1000"
      "0 \<le> sint u" "sint u < 10 ^ 6"
    using usec_of_nsec [OF nsec] .
  have init: "put_timespec (ram w) ts \<lparr>tv_sec = 0, tv_nsec = 0\<rparr> =
      Some (put (ram w) ts (enc_pair 0 0))"
    using assms(1) by (simp add: put_timespec_eq)
  have call: "clock_gettime_internal K CLOCK_REALTIME ts
      (w\<lparr>ram := put (ram w) ts (enc_pair 0 0)\<rparr>) = Some (0, w\<lparr>ram := ?m, kern := k\<rparr>)"
    using clock by (simp add: clock_gettime_internal_def syscall2_def svc_def CLOCK_REALTIME_def
        SYS_clock_gettime_def ret_as_posix_32 posix_def outcome_def)
  have here: "bytes_at ?m ts (enc_pair s n)" by (simp add: bytes_at_put)
  have "disjoint_spans tv 8 ts 16"
    using assms(3) span_mono [of 8 16 tv] by auto
  then have "bytes_at (put ?m tv (to_le 8 s)) ts (enc_pair s n)"
    using here by (simp add: bytes_at_put_disjoint)
  then have read: "rd64 ?m ts = Some s" "rd64 (put ?m tv (to_le 8 s)) ts = Some s"
      "rd64 (put ?m tv (to_le 8 s)) (ts + 8) = Some n"
    using here by (simp_all add: bytes_at_enc_pair)
  have "mapped ?m tv 16" using assms(2) by (rule mapped_put)
  then have tv: "mapped ?m tv 8" "mapped (put ?m q xs) (tv + 8) 8" for q xs
    by (auto intro: mapped_mono mapped_second)
  have "gettimeofday K ts tv tz w =
      Some (0, w\<lparr>ram := put ?m tv (enc_pair s u), kern := k\<rparr>)"
    using assms(4) by (simp add: gettimeofday_def clock_gettime_def init call read tv wr64_eq
        put_pair u(1))
  moreover have "time K ts tv w = Some (s, w\<lparr>ram := put ?m tv (to_le 8 s), kern := k\<rparr>)"
    using assms(4) by (simp add: time_def init call read tv wr64_eq)
  moreover have "time K ts 0 w = Some (s, w\<lparr>ram := ?m, kern := k\<rparr>)"
    by (simp add: time_def init call read)
  moreover have "gettimeofday K ts 0 tz w = Some (0, w)" by (simp add: gettimeofday_def)
  ultimately show ?thesis using u by blast
qed

text \<open>A memory of 64 bytes at 4096 for concrete inputs.\<close>

definition demo_mem :: mem where
  "demo_mem = mem_of 4096 (replicate 64 0)"

lemma demo_mapped: "i + n \<le> 64 \<Longrightarrow> mapped demo_mem (4096 + of_nat i) n"
  unfolding demo_mem_def
  by (rule mapped_shift [of _ _ 64])
    (use bytes_at_mapped [OF bytes_at_mem_of [of "replicate 64 (0 :: u8)" 4096]] in simp_all)

lemma demo_mapped_at: "mapped demo_mem 4096 16" "mapped demo_mem 4112 16"
  using demo_mapped [of 0 16] demo_mapped [of 16 16] by simp_all

lemma demo_disjoint: "disjoint_spans (4096 :: ptr) 16 4112 16"
  by (rule disjoint_spans_le) simp_all

definition demo_world :: "(c_long \<times> ptr \<times> u8 list) list \<Rightarrow> script world" where
  "demo_world rs = initial_world demo_mem \<lparr>replies = rs, calls = []\<rparr>"

lemma demo_world_simps [simp]:
  "ram (demo_world rs) = demo_mem" "dummy_cancel (demo_world rs) = 0" "errno (demo_world rs) = 0"
  "kern (demo_world rs) = \<lparr>replies = rs, calls = []\<rparr>"
  by (simp_all add: demo_world_def initial_world_def)

theorem nanosleep_correct_witness:
  "nanosleep (script_kernel (\<lambda>_. 4)) 4096 4096 (demo_world [(- 4, 4096, enc_pair 2 7)]) =
   Some (- 1, (demo_world [])\<lparr>ram := put demo_mem 4096 (enc_pair 2 7),
     kern := \<lparr>replies = [], calls = [(115, [0, 0, 4096, 4096])]\<rparr>, errno := 4\<rparr>)"
  using nanosleep_correct [where K = "script_kernel (\<lambda>_. 4)" and ar = "\<lambda>_. 4" and req = 4096
      and rem = 4096 and w = "demo_world [(- 4, 4096, enc_pair 2 7)]" and r = "- 4"
      and m = "put demo_mem 4096 (enc_pair 2 7)"
      and k = "\<lparr>replies = [], calls = [(115, [0, 0, 4096, 4096])]\<rparr>"]
  by (simp add: script_kernel_reads_args script_kernel_def demo_world_def initial_world_def)

theorem time_of_day_correct_witness:
  "\<exists>u w'. gettimeofday (script_kernel (\<lambda>_. 2)) 4096 4112 0 (demo_world [(0, 4096, enc_pair 5 123456)]) =
      Some (0, w') \<and> ram w' = put (put demo_mem 4096 (enc_pair 5 123456)) 4112 (enc_pair 5 u)
      \<and> sint u = 123"
proof -
  let ?w = "demo_world [(0, 4096, enc_pair 5 123456)]"
  have "script_kernel (\<lambda>_. 2) 113 [0, 4096] (put (ram ?w) 4096 (enc_pair 0 0)) (kern ?w) =
      Some (0, put (ram ?w) 4096 (enc_pair 5 123456), \<lparr>replies = [], calls = [(113, [0, 4096])]\<rparr>)"
    by (simp add: script_kernel_def put_put_same)
  from time_of_day_correct [where w = ?w and ts = 4096 and tv = 4112 and tz = 0
      and K = "script_kernel (\<lambda>_. 2)", OF _ _ demo_disjoint _ this]
  obtain u where u: "gettimeofday (script_kernel (\<lambda>_. 2)) 4096 4112 0 ?w =
      Some (0, ?w\<lparr>ram := put (put (ram ?w) 4096 (enc_pair 5 123456)) 4112 (enc_pair 5 u),
        kern := \<lparr>replies = [], calls = [(113, [0, 4096])]\<rparr>\<rparr>)" "sint u = 123"
    by (auto simp: demo_mapped_at sint_64)
  have "ram (?w\<lparr>ram := m, kern := k\<rparr>) = m" for m k by simp
  with u show ?thesis by (metis demo_world_simps(1))
qed

end
