(* ===== verification/Unistd.thy ===== *)
theory Unistd
  imports Time
begin

section \<open>POSIX I/O and sleep\<close>

text \<open>
  \<open>mytilus-unistd/src/lib.rs\<close>: \<open>sleep\<close> and \<open>usleep\<close> over \<open>nanosleep\<close> of theory
  \<open>Time\<close>, with the address \<open>tv\<close> of their local, the descriptor calls with the special
  cases of \<open>dup2\<close> and \<open>close\<close>, and the plain wrappers.
\<close>

definition sleep :: "'k kernel \<Rightarrow> ptr \<Rightarrow> c_uint \<Rightarrow> ('k, c_uint) action" where
  "sleep K tv seconds w = do {
     m0 \<leftarrow> put_timespec (ram w) tv \<lparr>tv_sec = ucast seconds, tv_nsec = 0\<rparr>;
     (r, w1) \<leftarrow> nanosleep K tv tv (w\<lparr>ram := m0\<rparr>);
     if r \<noteq> 0 then do {
       s \<leftarrow> rd_field (ram w1) tv timespec_type ''tv_sec'';
       Some (ucast s, w1)
     } else Some (0, w1)
   }"

definition usleep :: "'k kernel \<Rightarrow> ptr \<Rightarrow> c_uint \<Rightarrow> ('k, c_int) action" where
  "usleep K tv useconds w = do {
     let us = (ucast useconds :: u64);
     m0 \<leftarrow> put_timespec (ram w) tv
       \<lparr>tv_sec = us div 1000000, tv_nsec = (us mod 1000000) * 1000\<rparr>;
     nanosleep K tv tv (w\<lparr>ram := m0\<rparr>)
   }"

definition pause :: "'k kernel \<Rightarrow> ('k, c_int) action" where
  "pause K w = do { (r, w1) \<leftarrow> syscall_cp4 K SYS_ppoll 0 0 0 0 w; ret_as r w1 }"

definition dup :: "'k kernel \<Rightarrow> c_int \<Rightarrow> ('k, c_int) action" where
  "dup K fd w = do { (r, w1) \<leftarrow> syscall1 K SYS_dup (scast fd) w; ret_as r w1 }"

definition dup3_internal :: "'k kernel \<Rightarrow> c_int \<Rightarrow> c_int \<Rightarrow> c_int \<Rightarrow> ('k, c_int) action" where
  "dup3_internal K old new flags w = do {
     (r, w1) \<leftarrow> syscall3 K SYS_dup3 (scast old) (scast new) (scast flags) w;
     ret_as r w1
   }"

definition dup3 :: "'k kernel \<Rightarrow> c_int \<Rightarrow> c_int \<Rightarrow> c_int \<Rightarrow> ('k, c_int) action" where
  "dup3 K old new flags w = dup3_internal K old new flags w"

definition dup2 :: "'k kernel \<Rightarrow> c_int \<Rightarrow> c_int \<Rightarrow> ('k, c_int) action" where
  "dup2 K old new w =
     (if old = new then do {
        (r, w1) \<leftarrow> syscall2 K SYS_fcntl (scast old) 1 w;
        if \<not> is_err r then Some (old, w1) else ret_as r w1
      }
      else do {
        (r, w1) \<leftarrow> syscall3 K SYS_dup3 (scast old) (scast new) 0 w;
        ret_as r w1
      })"

definition getpagesize :: c_int where
  "getpagesize = 4096"

definition sync :: "'k kernel \<Rightarrow> ('k, unit) action" where
  "sync K w = do { (_, w1) \<leftarrow> syscall0 K SYS_sync w; Some ((), w1) }"

definition fsync :: "'k kernel \<Rightarrow> c_int \<Rightarrow> ('k, c_int) action" where
  "fsync K fd w = do { (r, w1) \<leftarrow> syscall_cp1 K SYS_fsync (scast fd) w; ret_as r w1 }"

definition fdatasync :: "'k kernel \<Rightarrow> c_int \<Rightarrow> ('k, c_int) action" where
  "fdatasync K fd w = do { (r, w1) \<leftarrow> syscall_cp1 K SYS_fdatasync (scast fd) w; ret_as r w1 }"

definition read_fn :: "'k kernel \<Rightarrow> c_int \<Rightarrow> ptr \<Rightarrow> size_t \<Rightarrow> ('k, ssize_t) action" where
  "read_fn K fd buf count w = do {
     (r, w1) \<leftarrow> syscall_cp3 K SYS_read (scast fd) buf count w;
     ret_as r w1
   }"

definition write_fn :: "'k kernel \<Rightarrow> c_int \<Rightarrow> ptr \<Rightarrow> size_t \<Rightarrow> ('k, ssize_t) action" where
  "write_fn K fd buf count w = do {
     (r, w1) \<leftarrow> syscall_cp3 K SYS_write (scast fd) buf count w;
     ret_as r w1
   }"

definition close :: "'k kernel \<Rightarrow> c_int \<Rightarrow> ('k, c_int) action" where
  "close K fd w = do {
     (r, w1) \<leftarrow> syscall_cp1 K SYS_close (scast fd) w;
     if r = - scast EINTR then Some (0, w1) else ret_as r w1
   }"

definition lseek_internal :: "'k kernel \<Rightarrow> c_int \<Rightarrow> off_t \<Rightarrow> c_int \<Rightarrow> ('k, off_t) action" where
  "lseek_internal K fd offset whence w = do {
     (r, w1) \<leftarrow> syscall3 K SYS_lseek (scast fd) offset (scast whence) w;
     ret_as r w1
   }"

definition lseek :: "'k kernel \<Rightarrow> c_int \<Rightarrow> off_t \<Rightarrow> c_int \<Rightarrow> ('k, off_t) action" where
  "lseek K fd offset whence w = lseek_internal K fd offset whence w"


subsection \<open>The wrappers keep the convention\<close>

interpretation pause: posix_call "syscall_cp4 K SYS_ppoll 0 0 0 0" "pause K" for K
  by unfold_locales (simp_all add: pause_def)

interpretation dup: posix_call "syscall1 K SYS_dup (scast fd)" "dup K fd" for K fd
  by unfold_locales (simp_all add: dup_def)

interpretation dup3: posix_call
  "syscall3 K SYS_dup3 (scast old) (scast new) (scast flags)" "dup3 K old new flags"
  for K old new flags
  by unfold_locales (simp_all add: dup3_def dup3_internal_def)

interpretation fsync: posix_call "syscall_cp1 K SYS_fsync (scast fd)" "fsync K fd" for K fd
  by unfold_locales (simp_all add: fsync_def)

interpretation fdatasync: posix_call "syscall_cp1 K SYS_fdatasync (scast fd)" "fdatasync K fd"
  for K fd
  by unfold_locales (simp_all add: fdatasync_def)

interpretation read_fd: posix_call
  "syscall_cp3 K SYS_read (scast fd) buf count" "read_fn K fd buf count" for K fd buf count
  by unfold_locales (simp_all add: read_fn_def)

interpretation write_fd: posix_call
  "syscall_cp3 K SYS_write (scast fd) buf count" "write_fn K fd buf count" for K fd buf count
  by unfold_locales (simp_all add: write_fn_def)

interpretation lseek: posix_call
  "syscall3 K SYS_lseek (scast fd) offset (scast whence)" "lseek K fd offset whence"
  for K fd offset whence
  by unfold_locales (simp_all add: lseek_def lseek_internal_def)

text \<open>An interrupted \<open>close\<close> is the raw result 0.\<close>

definition close_raw :: "'k kernel \<Rightarrow> c_int \<Rightarrow> ('k, c_long) action" where
  "close_raw K fd w = do {
     (r, w1) \<leftarrow> syscall_cp1 K SYS_close (scast fd) w;
     Some (if r = - scast EINTR then 0 else r, w1)
   }"

interpretation close: posix_call "close_raw K fd" "close K fd" for K fd
  by unfold_locales
    (auto simp: close_raw_def close_def ret_as_def ret_def is_err_def split: bind_splits
      dest: cp1.keeps_errno cp1.keeps_cancel)


subsection \<open>Descriptors\<close>

text \<open>
  \<open>dup2\<close> of a descriptor to itself makes only the validating \<open>fcntl(F_GETFD)\<close> call and
  returns the descriptor when it is open; of different descriptors it is \<open>dup3\<close> with no
  flags.
\<close>

theorem dup2_correct:
  "dup2 K old new w =
    (if old = new then
       case K 25 [scast old, 1] (ram w) (kern w) of
         None \<Rightarrow> None
       | Some (r, m, k) \<Rightarrow>
           Some (case outcome r of
             Success _ \<Rightarrow> (old, w\<lparr>ram := m, kern := k\<rparr>)
           | Failure e \<Rightarrow> (- 1, w\<lparr>ram := m, kern := k, errno := word_of_int e\<rparr>))
     else dup3 K old new 0 w)"
proof -
  have *: "(if \<not> is_err r then Some (old, w1) else ret_as r w1) =
      Some (case outcome r of Success _ \<Rightarrow> (old, w1)
        | Failure e \<Rightarrow> (- 1, w1\<lparr>errno := word_of_int e\<rparr>))" for r and w1 :: "'a world"
    by (cases "is_err r") (simp_all add: outcome_err outcome_ok ret_as_posix_32 posix_def)
  show ?thesis
    by (simp add: dup2_def dup3_def dup3_internal_def syscall2_def svc_def SYS_fcntl_def *
        split: option.splits del: if_not_P)
qed

text \<open>
  C35. \<open>close\<close> reports success when the call was interrupted, because the descriptor is closed
  all the same, and leaves \<open>errno\<close> as it was; every other result follows the convention.
\<close>

theorem close_correct:
  assumes "dummy_cancel w = 0" "reads_args K ar" "ar 57 \<le> 1"
  shows "close K fd w =
    (case K 57 [scast fd] (ram w) (kern w) of
       None \<Rightarrow> None
     | Some (r, m, k) \<Rightarrow>
         Some (if sint r = - 4 then (0, w\<lparr>ram := m, kern := k\<rparr>)
               else posix r (w\<lparr>ram := m, kern := k\<rparr>)))"
proof -
  have "r = - scast EINTR \<longleftrightarrow> sint r = - 4" for r :: c_long
  proof
    assume "sint r = - 4"
    then have "r = word_of_int (- 4)" by (metis of_int_sint scast_id)
    then show "r = - scast EINTR" by (simp add: EINTR_def)
  qed (simp add: EINTR_def)
  with assms show ?thesis
    by (simp add: close_def syscall_cp1_eq syscall1_def svc_def SYS_close_def ret_as_posix_32
        split: option.splits)
qed

theorem close_correct_witness:
  "close (script_kernel (\<lambda>_. 1)) 5 (demo_world [(- 4, 0, [])]) =
   Some (0, (demo_world [])\<lparr>kern := \<lparr>replies = [], calls = [(57, [5])]\<rparr>\<rparr>)"
  by (subst close_correct [where ar = "\<lambda>_. 1"])
    (simp_all add: script_kernel_reads_args script_kernel_def demo_world_def initial_world_def)


subsection \<open>Sleeping\<close>

lemma uint_ucast_small:
  assumes "0 \<le> sint (s :: i64)" "sint s \<le> uint (x :: c_uint)"
  shows "uint (ucast s :: c_uint) = sint s"
proof -
  have "uint s < 2 ^ 32" using assms sint_eq_uint_64 [of s] uint_lt2p [of x] by simp
  then have "uint (ucast s :: c_uint) = uint s"
    by (simp add: unsigned_ucast_eq take_bit_int_eq_self)
  with assms(1) show ?thesis by (simp add: sint_eq_uint_64)
qed

text \<open>
  C27. \<open>sleep\<close> asks for the given seconds with its local as request and as place for the rest,
  and returns 0 after a full sleep and otherwise the whole seconds that the kernel says are
  left, never more than were asked for.
\<close>

theorem sleep_correct:
  assumes "dummy_cancel w = 0" "reads_args K ar" "ar 115 \<le> 4" "mapped (ram w) tv 16"
    and "K 115 [0, 0, tv, tv] (put (ram w) tv (enc_pair (ucast seconds) 0)) (kern w) =
      Some (r, put (ram w) tv (enc_pair s n), k)"
    and "- 4095 \<le> sint r" "sint r \<le> 0" "0 \<le> sint s" "sint s \<le> uint seconds"
  shows "\<exists>v w'. sleep K tv seconds w = Some (v, w')
    \<and> uint v = (if r = 0 then 0 else sint s) \<and> uint v \<le> uint seconds
    \<and> errno w' = (if r = 0 then errno w else word_of_int (- sint r))"
proof -
  let ?w0 = "w\<lparr>ram := put (ram w) tv (enc_pair (ucast seconds) 0)\<rparr>"
  let ?w1 = "w\<lparr>ram := put (ram w) tv (enc_pair s n), kern := k\<rparr>"
  have init: "put_timespec (ram w) tv \<lparr>tv_sec = ucast seconds, tv_nsec = 0\<rparr> =
      Some (put (ram w) tv (enc_pair (ucast seconds) 0))"
    using assms(4) by (simp add: put_timespec_eq)
  have "dummy_cancel ?w0 = 0"
    "K 115 [0, 0, tv, tv] (ram ?w0) (kern ?w0) = Some (r, put (ram w) tv (enc_pair s n), k)"
    using assms(1, 5) by simp_all
  note nanosleep_result [OF this(1) assms(2, 3) this(2) assms(6, 7)]
  then have sleep: "nanosleep K tv tv ?w0 =
      Some (if r = 0 then (0, ?w1) else (- 1, ?w1\<lparr>errno := word_of_int (- sint r)\<rparr>))"
    by simp
  have "bytes_at (put (ram w) tv (enc_pair s n)) tv (enc_pair s n)" by (simp add: bytes_at_put)
  then have rest: "rd64 (put (ram w) tv (enc_pair s n)) tv = Some s"
    by (simp add: bytes_at_enc_pair)
  show ?thesis
    using uint_ucast_small [OF assms(8, 9)] assms(8, 9)
    by (cases "r = 0") (simp_all add: sleep_def init sleep rest)
qed

theorem sleep_correct_witness:
  "\<exists>v w'. sleep (script_kernel (\<lambda>_. 4)) 4096 10 (demo_world [(- 4, 4096, enc_pair 3 500)]) = Some (v, w')
    \<and> uint v = 3 \<and> errno w' = 4"
proof -
  let ?w = "demo_world [(- 4, 4096, enc_pair 3 500)]"
  have "script_kernel (\<lambda>_. 4) 115 [0, 0, 4096, 4096]
      (put (ram ?w) 4096 (enc_pair (ucast (10 :: c_uint)) 0)) (kern ?w) =
    Some (- 4, put (ram ?w) 4096 (enc_pair 3 500),
      \<lparr>replies = [], calls = [(115, [0, 0, 4096, 4096])]\<rparr>)"
    by (simp add: script_kernel_def put_put_same)
  from sleep_correct [where w = ?w and tv = 4096 and seconds = 10 and K = "script_kernel (\<lambda>_. 4)"
      and ar = "\<lambda>_. 4", OF _ _ _ _ this]
  show ?thesis by (simp add: script_kernel_reads_args demo_mapped_at sint_64) blast
qed

lemma usec_split:
  fixes u :: int
  assumes "0 \<le> u"
  shows "u div 1000000 * 1000000000 + u mod 1000000 * 1000 = u * 1000 \<and> 0 \<le> u div 1000000"
proof -
  have "q * 1000000000 + r * 1000 = u * 1000" if "1000000 * q + r = u" for q r
    using that by simp
  moreover have "0 \<le> u div 1000000" using assms by (simp add: pos_imp_zdiv_nonneg_iff)
  ultimately show ?thesis by (blast intro: mult_div_mod_eq)
qed

text \<open>
  \<open>usleep\<close> sleeps for exactly the microseconds it is given: the request is a valid
  \<open>timespec\<close>, with less than \<open>10\<^sup>9\<close> nanoseconds, and no product overflows.
\<close>

theorem usleep_correct:
  assumes "mapped (ram w) tv 16"
  shows "\<exists>s n. usleep K tv us w = nanosleep K tv tv (w\<lparr>ram := put (ram w) tv (enc_pair s n)\<rparr>)
    \<and> sint s * 10 ^ 9 + sint n = uint us * 1000 \<and> 0 \<le> sint s \<and> 0 \<le> sint n \<and> sint n < 10 ^ 9"
proof -
  let ?u = "ucast us :: u64"
  have u: "uint ?u = uint us" "uint us < 2 ^ 32"
    using uint_lt2p [of us] by (simp_all add: unsigned_ucast_eq take_bit_int_eq_self)
  have s: "uint (?u div 1000000) = uint us div 1000000" using u by (simp add: uint_div)
  have "uint us mod 1000000 * 1000 < 10 ^ 9" using pos_mod_bound [of 1000000 "uint us"] by simp
  then have n: "uint (?u mod 1000000 * 1000) = uint us mod 1000000 * 1000"
    using u by (simp add: uint_word_ariths uint_mod)
  have "sint (?u div 1000000) = uint us div 1000000"
    using s u by (subst sint_64) simp
  moreover have "sint (?u mod 1000000 * 1000) = uint us mod 1000000 * 1000"
    using n pos_mod_bound [of 1000000 "uint us"] by (subst sint_64) simp
  moreover have "usleep K tv us w = nanosleep K tv tv
      (w\<lparr>ram := put (ram w) tv (enc_pair (?u div 1000000) (?u mod 1000000 * 1000))\<rparr>)"
    using assms by (simp add: usleep_def put_timespec_eq Let_def)
  ultimately show ?thesis
    using usec_split [OF uint_ge_0 [of us]] \<open>uint us mod 1000000 * 1000 < 10 ^ 9\<close>
    by - (rule exI [where x = "?u div 1000000"], rule exI [where x = "?u mod 1000000 * 1000"], simp)
qed

theorem usleep_correct_witness:
  "\<exists>s n. usleep (script_kernel (\<lambda>_. 4)) 4096 2500000 (demo_world [(0, 0, [])]) =
      nanosleep (script_kernel (\<lambda>_. 4)) 4096 4096
        ((demo_world [(0, 0, [])])\<lparr>ram := put demo_mem 4096 (enc_pair s n)\<rparr>)
    \<and> sint s * 10 ^ 9 + sint n = 2500000000 \<and> sint n < 10 ^ 9"
proof -
  have "mapped (ram (demo_world [(0, 0, [])])) 4096 16" by (simp add: demo_mapped_at)
  from usleep_correct [OF this, of "script_kernel (\<lambda>_. 4)" 2500000] show ?thesis by auto
qed

end
