(* ===== verification/Api.thy ===== *)
theory Api
  imports Mman Fcntl Process Unistd
begin

section \<open>The system-call interface as a whole\<close>

text \<open>
  The functions of \<open>mytilus-mman\<close>, \<open>mytilus-fcntl\<close>, \<open>mytilus-time\<close>,
  \<open>mytilus-unistd\<close> and \<open>mytilus-process\<close> as the steps of one thread, with what holds of
  every sequence of calls, and the table of the system call behind each plain wrapper. The plain
  wrappers truncate the result to \<open>c_int\<close>, the wide ones return all of it, the others do
  more than one call or something around it.
\<close>

datatype plain_call =
    Munmap ptr size_t
  | Mprotect ptr size_t c_int
  | Msync ptr size_t c_int
  | Madvise ptr size_t c_int
  | Mincore ptr size_t ptr
  | Mlock ptr size_t
  | Munlock ptr size_t
  | Mlockall c_int
  | Munlockall
  | Clock_gettime c_int ptr
  | Clock_settime c_int ptr
  | Clock_getres c_int ptr
  | Pause
  | Dup c_int
  | Dup3 c_int c_int c_int
  | Fsync c_int
  | Fdatasync c_int
  | Getsid c_int
  | Getpgid c_int
  | Setpgid c_int c_int
  | Setsid
  | Kill c_int c_int
  | Sched_yield

datatype wide_call =
    Read c_int ptr size_t
  | Write c_int ptr size_t
  | Lseek c_int i64 c_int

datatype special_call =
    Mmap ptr size_t c_int c_int c_int i64
  | Mremap ptr size_t size_t c_int ptr
  | Posix_madvise ptr size_t c_int
  | Open ptr c_int "u32 list"
  | Openat c_int ptr c_int "u32 list"
  | Creat ptr u32
  | Fcntl c_int c_int "c_ulong list"
  | Posix_fadvise c_int i64 i64 c_int
  | Posix_fallocate c_int i64 i64
  | Clock_nanosleep c_int c_int ptr ptr
  | Nanosleep ptr ptr
  | Usleep c_uint
  | Dup2 c_int c_int
  | Close c_int
  | Sleep c_uint
  | Gettimeofday ptr ptr
  | Time ptr
  | Getpid
  | Getppid
  | Getuid
  | Geteuid
  | Getgid
  | Getegid
  | Getpgrp
  | Sync
  | Exit_call c_int

datatype api_call = Plain plain_call | Wide wide_call | Special special_call

text \<open>The number and the arguments of the one call of a wrapper.\<close>

primrec plain_request :: "plain_call \<Rightarrow> c_long \<times> c_long list" where
  "plain_request (Munmap a b) = (SYS_munmap, [a, b])"
| "plain_request (Mprotect a b c) = (SYS_mprotect, [a, b, scast c])"
| "plain_request (Msync a b c) = (SYS_msync, [a, b, scast c])"
| "plain_request (Madvise a b c) = (SYS_madvise, [a, b, scast c])"
| "plain_request (Mincore a b c) = (SYS_mincore, [a, b, c])"
| "plain_request (Mlock a b) = (SYS_mlock, [a, b])"
| "plain_request (Munlock a b) = (SYS_munlock, [a, b])"
| "plain_request (Mlockall a) = (SYS_mlockall, [scast a])"
| "plain_request Munlockall = (SYS_munlockall, [])"
| "plain_request (Clock_gettime a b) = (SYS_clock_gettime, [scast a, b])"
| "plain_request (Clock_settime a b) = (SYS_clock_settime, [scast a, b])"
| "plain_request (Clock_getres a b) = (SYS_clock_getres, [scast a, b])"
| "plain_request Pause = (SYS_ppoll, [0, 0, 0, 0])"
| "plain_request (Dup a) = (SYS_dup, [scast a])"
| "plain_request (Dup3 a b c) = (SYS_dup3, [scast a, scast b, scast c])"
| "plain_request (Fsync a) = (SYS_fsync, [scast a])"
| "plain_request (Fdatasync a) = (SYS_fdatasync, [scast a])"
| "plain_request (Getsid a) = (SYS_getsid, [scast a])"
| "plain_request (Getpgid a) = (SYS_getpgid, [scast a])"
| "plain_request (Setpgid a b) = (SYS_setpgid, [scast a, scast b])"
| "plain_request Setsid = (SYS_setsid, [])"
| "plain_request (Kill a b) = (SYS_kill, [scast a, scast b])"
| "plain_request Sched_yield = (SYS_sched_yield, [])"

primrec wide_request :: "wide_call \<Rightarrow> c_long \<times> c_long list" where
  "wide_request (Read a b c) = (SYS_read, [scast a, b, c])"
| "wide_request (Write a b c) = (SYS_write, [scast a, b, c])"
| "wide_request (Lseek a b c) = (SYS_lseek, [scast a, b, scast c])"

text \<open>
  Results are widened to 64 bits, signed ones with their sign; \<open>sp\<close> is the address of the
  locals of the functions that have some.
\<close>

definition sgn_result :: "('k, c_int) action \<Rightarrow> ('k, i64) action" where
  "sgn_result f w = map_option (map_prod scast id) (f w)"

definition uns_result :: "('k, c_uint) action \<Rightarrow> ('k, i64) action" where
  "uns_result f w = map_option (map_prod ucast id) (f w)"

definition no_result :: "('k, unit) action \<Rightarrow> ('k, i64) action" where
  "no_result f w = map_option (map_prod (\<lambda>_. 0) id) (f w)"

primrec run_plain :: "'k kernel \<Rightarrow> plain_call \<Rightarrow> ('k, c_int) action" where
  "run_plain K (Munmap a b) = munmap K a b"
| "run_plain K (Mprotect a b c) = mprotect K a b c"
| "run_plain K (Msync a b c) = msync K a b c"
| "run_plain K (Madvise a b c) = madvise K a b c"
| "run_plain K (Mincore a b c) = mincore K a b c"
| "run_plain K (Mlock a b) = mlock K a b"
| "run_plain K (Munlock a b) = munlock K a b"
| "run_plain K (Mlockall a) = mlockall K a"
| "run_plain K Munlockall = munlockall K"
| "run_plain K (Clock_gettime a b) = clock_gettime K a b"
| "run_plain K (Clock_settime a b) = clock_settime K a b"
| "run_plain K (Clock_getres a b) = clock_getres K a b"
| "run_plain K Pause = pause K"
| "run_plain K (Dup a) = dup K a"
| "run_plain K (Dup3 a b c) = dup3 K a b c"
| "run_plain K (Fsync a) = fsync K a"
| "run_plain K (Fdatasync a) = fdatasync K a"
| "run_plain K (Getsid a) = getsid K a"
| "run_plain K (Getpgid a) = getpgid K a"
| "run_plain K (Setpgid a b) = setpgid K a b"
| "run_plain K Setsid = setsid K"
| "run_plain K (Kill a b) = kill K a b"
| "run_plain K Sched_yield = sched_yield K"

primrec run_wide :: "'k kernel \<Rightarrow> wide_call \<Rightarrow> ('k, i64) action" where
  "run_wide K (Read a b c) = read_fn K a b c"
| "run_wide K (Write a b c) = write_fn K a b c"
| "run_wide K (Lseek a b c) = lseek K a b c"

primrec run_special :: "'k kernel \<Rightarrow> ptr \<Rightarrow> special_call \<Rightarrow> ('k, i64) action" where
  "run_special K sp (Mmap a b c d e f) = mmap K a b c d e f"
| "run_special K sp (Mremap a b c d e) = mremap K a b c d e"
| "run_special K sp (Posix_madvise a b c) = sgn_result (posix_madvise K a b c)"
| "run_special K sp (Open a b c) = sgn_result (open_fn K a b c)"
| "run_special K sp (Openat a b c d) = sgn_result (openat K a b c d)"
| "run_special K sp (Creat a b) = sgn_result (creat K a b)"
| "run_special K sp (Fcntl a b c) = sgn_result (fcntl K a b c)"
| "run_special K sp (Posix_fadvise a b c d) = sgn_result (posix_fadvise K a b c d)"
| "run_special K sp (Posix_fallocate a b c) = sgn_result (posix_fallocate K a b c)"
| "run_special K sp (Clock_nanosleep a b c d) = sgn_result (clock_nanosleep K a b c d)"
| "run_special K sp (Nanosleep a b) = sgn_result (nanosleep K a b)"
| "run_special K sp (Usleep a) = sgn_result (usleep K sp a)"
| "run_special K sp (Dup2 a b) = sgn_result (dup2 K a b)"
| "run_special K sp (Close a) = sgn_result (close K a)"
| "run_special K sp (Sleep a) = uns_result (sleep K sp a)"
| "run_special K sp (Gettimeofday a b) = sgn_result (gettimeofday K sp a b)"
| "run_special K sp (Time a) = time K sp a"
| "run_special K sp Getpid = sgn_result (getpid K)"
| "run_special K sp Getppid = sgn_result (getppid K)"
| "run_special K sp Getuid = uns_result (getuid K)"
| "run_special K sp Geteuid = uns_result (geteuid K)"
| "run_special K sp Getgid = uns_result (getgid K)"
| "run_special K sp Getegid = uns_result (getegid K)"
| "run_special K sp Getpgrp = sgn_result (getpgrp K)"
| "run_special K sp Sync = no_result (sync K)"
| "run_special K sp (Exit_call a) = (\<lambda>w. map_option (\<lambda>_. (0, w)) (exit_fn K a w))"

primrec run :: "'k kernel \<Rightarrow> ptr \<Rightarrow> api_call \<Rightarrow> ('k, i64) action" where
  "run K sp (Plain c) = sgn_result (run_plain K c)"
| "run K sp (Wide c) = run_wide K c"
| "run K sp (Special c) = run_special K sp c"


subsection \<open>One call per wrapper\<close>

text \<open>The specification of a wrapper: one call, and the convention for its result.\<close>

definition posix_spec :: "'k kernel \<Rightarrow> c_long \<times> c_long list \<Rightarrow> ('k, 'c::len word) action" where
  "posix_spec K req w =
     (case K (fst req) (snd req) (ram w) (kern w) of
       None \<Rightarrow> None
     | Some (r, m, k) \<Rightarrow> Some (posix r (w\<lparr>ram := m, kern := k\<rparr>)))"

lemma posix_spec_32:
  "svc K n args w \<bind> (\<lambda>(r, w'). ret_as r w') = (posix_spec K (n, args) w :: (32 word \<times> 'k world) option)"
  by (auto simp: svc_def posix_spec_def ret_as_posix_32 split: option.splits)

lemma posix_spec_64:
  "svc K n args w \<bind> (\<lambda>(r, w'). ret_as r w') = (posix_spec K (n, args) w :: (64 word \<times> 'k world) option)"
  by (auto simp: svc_def posix_spec_def ret_as_posix_64 split: option.splits)

lemmas wrapper_defs =
  munmap_def mprotect_def msync_def madvise_def mincore_def mlock_def munlock_def mlockall_def
  munlockall_def clock_gettime_def clock_gettime_internal_def clock_settime_def clock_getres_def
  pause_def dup_def dup3_def dup3_internal_def fsync_def fdatasync_def getsid_def getpgid_def
  setpgid_def setsid_def kill_def sched_yield_def read_fn_def write_fn_def lseek_def
  lseek_internal_def

text \<open>
  C10. Every wrapper implements its line of the table: it makes exactly one system call, with that
  number and those arguments, sign-extended where the type is \<open>c_int\<close>, and returns its
  result by the convention, also where the call goes through a cancellation-point stub.
\<close>

theorem wrappers_refine_requests:
  assumes "dummy_cancel w = 0" "reads_args K ar"
    and "ar (fst (plain_request c)) \<le> length (snd (plain_request c))"
    and "ar (fst (wide_request d)) \<le> length (snd (wide_request d))"
  shows "run_plain K c w = posix_spec K (plain_request c) w
    \<and> run_wide K d w = posix_spec K (wide_request d) w"
proof
  show "run_plain K c w = posix_spec K (plain_request c) w"
    using assms(1-3)
    by (cases c) (simp_all add: wrapper_defs syscall_defs syscall_cp1_eq syscall_cp3_eq
        syscall_cp4_eq posix_spec_32)
  show "run_wide K d w = posix_spec K (wide_request d) w"
    using assms(1, 2, 4)
    by (cases d) (simp_all add: wrapper_defs syscall_defs syscall_cp3_eq posix_spec_64)
qed

theorem wrappers_refine_requests_witness:
  "run_plain (script_kernel (\<lambda>_. 2)) (Kill 12 9) (demo_world [(- 3, 0, [])]) =
   Some (- 1, (demo_world [])\<lparr>kern := \<lparr>replies = [], calls = [(129, [12, 9])]\<rparr>, errno := 3\<rparr>)"
  by (subst wrappers_refine_requests [where ar = "\<lambda>_. 2" and d = "Read 0 0 0", THEN conjunct1])
    (simp_all add: script_kernel_reads_args script_kernel_def posix_spec_def posix_def outcome_def
      nr_defs demo_world_def initial_world_def)


subsection \<open>errno and the cancel flag\<close>

text \<open>The functions that drop the result of a call that can fail.\<close>

definition reports :: "api_call \<Rightarrow> bool" where
  "reports c =
     (case c of
       Special s \<Rightarrow>
         (case s of Sleep _ \<Rightarrow> False | Gettimeofday _ _ \<Rightarrow> False | Time _ \<Rightarrow> False | _ \<Rightarrow> True)
     | _ \<Rightarrow> True)"

definition keeps :: "('k, 'a) action \<Rightarrow> bool" where
  "keeps f \<longleftrightarrow> (\<forall>w v w'. f w = Some (v, w') \<longrightarrow>
     dummy_cancel w' = dummy_cancel w \<and> errno w' = errno w)"

lemma keeps_posixy:
  "keeps f \<Longrightarrow> posixy (sgn_result f)" "keeps g \<Longrightarrow> posixy (uns_result g)"
  "keeps h \<Longrightarrow> posixy (no_result h)"
  by (auto simp: keeps_def posixy_def sgn_result_def uns_result_def no_result_def)

lemma scast_minus_1: "(scast (- 1 :: c_int) :: i64) = - 1"
  by simp

lemma posixy_sgn_result: "posixy f \<Longrightarrow> posixy (sgn_result f)"
proof (rule posixyI)
  fix w v w' assume f: "posixy f" and "sgn_result f w = Some (v, w')"
  then obtain u where u: "f w = Some (u, w')" "v = scast u" by (auto simp: sgn_result_def)
  with f show "dummy_cancel w' = dummy_cancel w" by (auto simp: posixy_def)
  have "errno w' = errno w \<or> u = - 1 \<and> valid_errno (errno w')"
    using f u(1) by (simp add: posixy_def)
  then show "errno w' = errno w \<or> v = - 1 \<and> valid_errno (errno w')"
    using u(2) scast_minus_1 by blast
qed

lemma sane_results: "sane f \<Longrightarrow> sane (sgn_result f)" "sane g \<Longrightarrow> sane (uns_result g)"
  by (auto simp: sane_def sgn_result_def uns_result_def)

lemma keeps_cast:
  "keeps (\<lambda>w. syscall0 K n w \<bind> (\<lambda>(r, w'). raw_as r w'))"
  "keeps (\<lambda>w. syscall1 K n a w \<bind> (\<lambda>(r, w'). raw_as r w'))"
  by (auto simp: keeps_def raw_as_def split: bind_splits
      dest: raw0.keeps_errno raw0.keeps_cancel raw1.keeps_errno raw1.keeps_cancel)

lemma keeps_identity:
  "keeps (getpid K)" "keeps (getppid K)" "keeps (getpgrp K)"
  "keeps (getuid K)" "keeps (geteuid K)" "keeps (getgid K)" "keeps (getegid K)"
  using keeps_cast [of K]
  by (auto simp: keeps_def getpid_def getppid_def getpgrp_def getuid_def geteuid_def getgid_def
      getegid_def)

lemma keeps_sync: "keeps (sync K)"
  by (auto simp: keeps_def sync_def split: bind_splits dest: raw0.keeps_errno raw0.keeps_cancel)

text \<open>The functions that are not a single raw result handed to \<open>ret\<close>.\<close>

lemma sane_update:
  assumes "sane f" "f (w\<lparr>ram := m\<rparr>) = Some (v, w')"
  shows "dummy_cancel w' = dummy_cancel w \<and> (errno w' = errno w \<or> valid_errno (errno w'))"
  using assms by (auto simp: sane_def dest!: spec [of _ "w\<lparr>ram := m\<rparr>"])

lemma posixy_usleep: "posixy (usleep K tv us)"
  using nanosleep.posixy_fn [of K tv tv]
  by (fastforce simp: posixy_def usleep_def Let_def split: bind_splits)

lemma sane_sleep: "sane (sleep K tv seconds)"
  unfolding sane_def sleep_def
  by (auto split: bind_splits if_splits
      dest!: sane_update [OF posixy_sane [OF nanosleep.posixy_fn]])

lemma sane_gettimeofday: "sane (gettimeofday K ts tv tz)"
  unfolding sane_def gettimeofday_def
  by (auto split: bind_splits if_splits
      dest!: sane_update [OF posixy_sane [OF clock_gettime.posixy_fn]])

lemma sane_time: "sane (time K ts t)"
  unfolding sane_def time_def
  by (auto split: bind_splits if_splits
      dest!: sane_update [OF posixy_sane [OF clock_gettime.posixy_fn [unfolded clock_gettime_def]]])

lemma posixy_dup2: "posixy (dup2 K old new)"
proof (cases "old = new")
  case True
  show ?thesis
  proof (rule posixyI)
    fix w v w' assume *: "dup2 K old new w = Some (v, w')"
    then obtain r w1 where r: "syscall2 K SYS_fcntl (scast old) 1 w = Some (r, w1)"
        "(if \<not> is_err r then Some (old, w1) else ret_as r w1) = Some (v, w')"
      using True by (auto simp: dup2_def split: bind_splits)
    then show "dummy_cancel w' = dummy_cancel w"
      by (auto simp: ret_as_def ret_def dest: raw2.keeps_cancel split: if_splits)
    show "errno w' = errno w \<or> v = - 1 \<and> valid_errno (errno w')"
      using r by (auto simp: ret_as_def ret_def valid_errno_of_err ucast_minus_1 dest: raw2.keeps_errno
          split: if_splits)
  qed
next
  case False
  then have "dup2 K old new = dup3 K old new 0"
    by (simp add: fun_eq_iff dup2_def dup3_def dup3_internal_def)
  then show ?thesis by (simp add: dup3.posixy_fn)
qed

lemma posixy_exit: "posixy (\<lambda>w. map_option (\<lambda>_. (0, w)) (exit_fn K status w))"
  by (auto simp: posixy_def exit_fn_def)

lemma posixy_plain: "posixy (run_plain K c)"
  by (cases c)
    (simp_all add: munmap.posixy_fn mprotect.posixy_fn msync.posixy_fn madvise.posixy_fn
      mincore.posixy_fn mlock.posixy_fn munlock.posixy_fn mlockall.posixy_fn munlockall.posixy_fn
      clock_gettime.posixy_fn clock_settime.posixy_fn clock_getres.posixy_fn pause.posixy_fn
      dup.posixy_fn dup3.posixy_fn fsync.posixy_fn fdatasync.posixy_fn getsid.posixy_fn
      getpgid.posixy_fn setpgid.posixy_fn setsid.posixy_fn kill.posixy_fn sched_yield.posixy_fn)

lemma posixy_wide: "posixy (run_wide K c)"
  by (cases c) (simp_all add: read_fd.posixy_fn write_fd.posixy_fn lseek.posixy_fn)

lemma posixy_special: "reports (Special c) \<Longrightarrow> posixy (run_special K sp c)"
  by (cases c)
    (simp_all add: reports_def keeps_posixy keeps_identity keeps_sync posixy_sgn_result posixy_exit
      posixy_usleep posixy_dup2 mmap.posixy_fn mremap.posixy_fn posix_madvise.posixy_fn
      open_fn.posixy_fn openat.posixy_fn creat.posixy_fn fcntl.posixy_fn posix_fadvise.posixy_fn
      posix_fallocate.posixy_fn clock_nanosleep.posixy_fn nanosleep.posixy_fn close.posixy_fn)

lemma posixy_run: "reports c \<Longrightarrow> posixy (run K sp c)"
  by (cases c) (simp_all add: posixy_sgn_result posixy_plain posixy_wide posixy_special)

lemma sane_run: "sane (run K sp c)"
proof (cases "reports c")
  case True
  then show ?thesis by (intro posixy_sane posixy_run)
next
  case False
  then obtain s where c: "c = Special s"
      "(\<exists>a. s = Sleep a) \<or> (\<exists>a b. s = Gettimeofday a b) \<or> (\<exists>a. s = Time a)"
    by (cases c) (auto simp: reports_def split: special_call.splits)
  then show ?thesis
    by (auto simp: sane_results sane_sleep sane_gettimeofday sane_time)
qed

text \<open>
  C8. The rule for \<open>errno\<close> over the whole interface, whatever the kernel does: a call that
  returns leaves \<open>errno\<close> alone or sets it to a number of \<open>1 .. 4096\<close>, never to 0; and,
  \<open>sleep\<close>, \<open>gettimeofday\<close> and \<open>time\<close> aside, it sets it only when it returns -1.
\<close>

theorem errno_discipline:
  assumes "run K sp c w = Some (v, w')" "errno w' \<noteq> errno w"
  shows "valid_errno (errno w') \<and> (reports c \<longrightarrow> v = - 1)"
  using assms sane_run [of K sp c] posixy_run [of c K sp]
  by (auto simp: sane_def posixy_def)

theorem errno_discipline_witness:
  "\<exists>w'. run (script_kernel (\<lambda>_. 1)) 0 (Plain (Dup 5)) (demo_world [(- 9, 0, [])]) = Some (- 1, w')
    \<and> valid_errno (errno w')"
proof -
  have "run (script_kernel (\<lambda>_. 1)) 0 (Plain (Dup 5)) (demo_world [(- 9, 0, [])]) =
      Some (- 1, (demo_world [])\<lparr>kern := \<lparr>replies = [], calls = [(23, [5])]\<rparr>, errno := 9\<rparr>)"
    by (simp add: sgn_result_def dup_def syscall1_def svc_def script_kernel_def ret_as_posix_32
        posix_def outcome_def SYS_dup_def demo_world_def initial_world_def)
  with errno_discipline [OF this] show ?thesis by simp
qed


subsection \<open>Every sequence of calls\<close>

inductive reachable :: "'k kernel \<Rightarrow> mem \<Rightarrow> 'k \<Rightarrow> 'k world \<Rightarrow> bool" for K m k where
  start: "reachable K m k (initial_world m k)"
| step: "reachable K m k w \<Longrightarrow> run K sp c w = Some (v, w') \<Longrightarrow> reachable K m k w'"
| touch: "reachable K m k w \<Longrightarrow> reachable K m k (w\<lparr>ram := m'\<rparr>)"
| reset: "reachable K m k w \<Longrightarrow> reachable K m k (set_errno 0 w)"

lemma cancel_flag_0: "reachable K m k w \<Longrightarrow> dummy_cancel w = 0"
proof (induction rule: reachable.induct)
  case (step w sp c v w')
  then show ?case using sane_run [of K sp c] by (auto simp: sane_def)
qed (simp_all add: initial_world_def)

text \<open>
  C23. In every state that calls, writes of the program to its memory and resets of \<open>errno\<close> can
  reach, the cancel flag is 0, so that no cancellation point takes the branch to \<open>__cancel\<close>,
  and \<open>errno\<close> is 0 or a number of \<open>1 .. 4096\<close>.
\<close>

theorem cancel_branch_unreachable:
  assumes "reachable K m k w"
  shows "syscall_cp_asm K n a b c d e f w = svc K n [a, b, c, d, e, f] w
    \<and> (errno w = 0 \<or> valid_errno (errno w))"
proof
  show "syscall_cp_asm K n a b c d e f w = svc K n [a, b, c, d, e, f] w"
    using cancel_flag_0 [OF assms] by (simp add: syscall_cp_asm_def)
  from assms show "errno w = 0 \<or> valid_errno (errno w)"
  proof (induction rule: reachable.induct)
    case (step w sp c v w')
    then show ?case using sane_run [of K sp c] by (fastforce simp: sane_def)
  qed (simp_all add: initial_world_def)
qed

theorem cancel_branch_unreachable_witness:
  "syscall_cp_asm (script_kernel (\<lambda>_. 1)) 57 5 0 0 0 0 0
     (initial_world Map.empty \<lparr>replies = [(- 4, 0, [])], calls = []\<rparr>) =
   Some (- 4, initial_world Map.empty \<lparr>replies = [], calls = [(57, [5])]\<rparr>)"
  by (subst cancel_branch_unreachable [OF reachable.start, THEN conjunct1])
    (simp add: svc_def script_kernel_def initial_world_def)

end
