(* ===== verification/Sigset.thy ===== *)
theory Sigset
  imports Time
begin

section \<open>Signal sets\<close>

text \<open>
  \<open>mytilus-signal/src/sigset.rs\<close>. A \<open>sigset_t\<close> behind a pointer is sixteen 64-bit words
  in the memory, so sets may share memory in any way; an index out of the array panics, which is
  None, as is an access to memory that is not mapped. \<open>sig - 1\<close> wraps, as it does when the
  crate is built without overflow checks. The abstract specification is a set of numbers of
  \<open>1 .. 64\<close>.
\<close>

subsection \<open>The constants and helpers\<close>

named_theorems sig_defs

definition NSIG_internal :: c_int where [sig_defs]: "NSIG_internal = 65"
definition NSIG :: c_int where [sig_defs]: "NSIG = NSIG_internal"
definition SIGSET_NWORDS :: u64 where [sig_defs]: "SIGSET_NWORDS = 128 div 8"
definition SST_SIZE :: u64 where [sig_defs]: "SST_SIZE = scast NSIG_internal div 8 div 8"

definition sigset_t_type :: c_type where [layout_types]:
  "sigset_t_type = repr_C (Field ''__bits'' (Array (scalar TYPE(c_ulong)) (unat SIGSET_NWORDS)) No_Field)"

text \<open>\<open>(*set).__bits[i]\<close>, read and written, with the bounds check.\<close>

definition get_bits :: "mem \<Rightarrow> ptr \<Rightarrow> u64 \<Rightarrow> c_ulong option" where
  "get_bits m p i = rd_elem m p sigset_t_type ''__bits'' i"

definition put_bits :: "mem \<Rightarrow> ptr \<Rightarrow> u64 \<Rightarrow> c_ulong \<Rightarrow> mem option" where
  "put_bits m p i v = wr_elem m p sigset_t_type ''__bits'' i v"

definition bit_index :: "c_int \<Rightarrow> u64 \<times> c_ulong" where
  "bit_index sig =
     (let s = scast (sig - 1) :: u64;
          word = s div (8 * 8);
          bit = push_bit (unat (s AND (8 * 8 - 1))) 1
      in (word, bit))"

text \<open>True is a rejection.\<close>

definition validate_sig :: "c_int \<Rightarrow> bool" where
  "validate_sig sig \<longleftrightarrow>
     (let s = sig - 1; nsig_m1 = NSIG_internal - 1; sig_minus_32 = sig - 32
      in s \<ge> nsig_m1 \<or> sig_minus_32 < 3)"

definition set_einval_return_minus1 :: "'k world \<Rightarrow> (c_int \<times> 'k world) option" where
  "set_einval_return_minus1 w = Some (- 1, set_errno EINVAL w)"


subsection \<open>The operations\<close>

definition sigemptyset :: "ptr \<Rightarrow> ('k, c_int) action" where
  "sigemptyset p w = do {
     m \<leftarrow> put_bits (ram w) p 0 0;
     Some (0, w\<lparr>ram := m\<rparr>)
   }"

definition sigfillset :: "ptr \<Rightarrow> ('k, c_int) action" where
  "sigfillset p w = do {
     m \<leftarrow> put_bits (ram w) p 0 0xfffffffc7fffffff;
     Some (0, w\<lparr>ram := m\<rparr>)
   }"

definition sigaddset :: "ptr \<Rightarrow> c_int \<Rightarrow> ('k, c_int) action" where
  "sigaddset p sig w =
     (if validate_sig sig then set_einval_return_minus1 w
      else do {
        let (word, bit) = bit_index sig;
        v \<leftarrow> get_bits (ram w) p word;
        m \<leftarrow> put_bits (ram w) p word (v OR bit);
        Some (0, w\<lparr>ram := m\<rparr>)
      })"

definition sigdelset :: "ptr \<Rightarrow> c_int \<Rightarrow> ('k, c_int) action" where
  "sigdelset p sig w =
     (if validate_sig sig then set_einval_return_minus1 w
      else do {
        let (word, bit) = bit_index sig;
        v \<leftarrow> get_bits (ram w) p word;
        m \<leftarrow> put_bits (ram w) p word (v AND NOT bit);
        Some (0, w\<lparr>ram := m\<rparr>)
      })"

definition sigismember :: "ptr \<Rightarrow> c_int \<Rightarrow> ('k, c_int) action" where
  "sigismember p sig w =
     (if sig - 1 \<ge> NSIG_internal - 1 then Some (0, w)
      else do {
        let (word, bit) = bit_index sig;
        raw \<leftarrow> get_bits (ram w) p word;
        Some (bool_c_int (raw AND bit \<noteq> 0), w)
      })"

text \<open>The loops run over the indices \<open>0..SST_SIZE\<close>.\<close>

definition sst_indices :: "u64 list" where
  "sst_indices = map of_nat [0..<unat SST_SIZE]"

fun sigor_loop :: "u64 list \<Rightarrow> ptr \<Rightarrow> ptr \<Rightarrow> ptr \<Rightarrow> mem \<Rightarrow> mem option" where
  "sigor_loop [] dest left right m = Some m"
| "sigor_loop (i # js) dest left right m = do {
     a \<leftarrow> get_bits m left i;
     b \<leftarrow> get_bits m right i;
     m' \<leftarrow> put_bits m dest i (a OR b);
     sigor_loop js dest left right m'
   }"

definition sigorset :: "ptr \<Rightarrow> ptr \<Rightarrow> ptr \<Rightarrow> ('k, c_int) action" where
  "sigorset dest left right w = do {
     m \<leftarrow> sigor_loop sst_indices dest left right (ram w);
     Some (0, w\<lparr>ram := m\<rparr>)
   }"

fun sigand_loop :: "u64 list \<Rightarrow> ptr \<Rightarrow> ptr \<Rightarrow> ptr \<Rightarrow> mem \<Rightarrow> mem option" where
  "sigand_loop [] dest left right m = Some m"
| "sigand_loop (i # js) dest left right m = do {
     a \<leftarrow> get_bits m left i;
     b \<leftarrow> get_bits m right i;
     m' \<leftarrow> put_bits m dest i (a AND b);
     sigand_loop js dest left right m'
   }"

definition sigandset :: "ptr \<Rightarrow> ptr \<Rightarrow> ptr \<Rightarrow> ('k, c_int) action" where
  "sigandset dest left right w = do {
     m \<leftarrow> sigand_loop sst_indices dest left right (ram w);
     Some (0, w\<lparr>ram := m\<rparr>)
   }"

fun sigempty_loop :: "u64 list \<Rightarrow> ptr \<Rightarrow> mem \<Rightarrow> c_int option" where
  "sigempty_loop [] p m = Some 1"
| "sigempty_loop (i # js) p m = do {
     v \<leftarrow> get_bits m p i;
     if v \<noteq> 0 then Some 0 else sigempty_loop js p m
   }"

definition sigisemptyset :: "ptr \<Rightarrow> ('k, c_int) action" where
  "sigisemptyset p w = do {
     r \<leftarrow> sigempty_loop sst_indices p (ram w);
     Some (r, w)
   }"


subsection \<open>Numbers and bits\<close>

lemma minus_mod:
  fixes a k n :: int
  assumes "0 \<le> a" "a < n" "0 \<le> k" "k < n"
  shows "(a - k) mod n = (if a < k then a - k + n else a - k)"
proof (cases "a < k")
  case True
  have "(a - k) mod n = (a - k + n) mod n" by simp
  also have "\<dots> = a - k + n" using True assms by (intro mod_pos_pos_trivial) simp_all
  finally show ?thesis using True by simp
next
  case False
  then show ?thesis using assms by (simp add: mod_pos_pos_trivial)
qed

lemma uint_minus_small:
  fixes x :: c_int
  assumes "0 \<le> k" "k < 2 ^ 32"
  shows "uint (x - word_of_int k) = (if uint x < k then uint x - k + 2 ^ 32 else uint x - k)"
proof -
  have "uint (x - word_of_int k) = (uint x - k) mod 2 ^ 32"
    using assms by (simp add: uint_word_ariths unsigned_of_int take_bit_int_eq_self)
  with minus_mod [OF uint_ge_0 [of x] _ assms] uint_lt2p [of x] show ?thesis by simp
qed

lemma sig_range: "sig - 1 \<ge> NSIG_internal - 1 \<longleftrightarrow> \<not> (1 \<le> sint sig \<and> sint sig \<le> 64)"
  using uint_minus_small [of 1 sig] uint_lt2p [of sig]
  by (auto simp: NSIG_internal_def word_le_def sint_32)

text \<open>The numbers that libc keeps for itself.\<close>

definition reserved :: "int set" where
  "reserved = {32, 33, 34}"

lemma sig_reserved: "(sig :: c_int) - 32 < 3 \<longleftrightarrow> sint sig \<in> reserved"
proof -
  obtain n where n: "uint sig = n" "0 \<le> n" "n < 2 ^ 32"
    using uint_lt2p [of sig] by simp
  then have "uint (sig - 32) = (if n < 32 then n - 32 + 2 ^ 32 else n - 32)"
    using uint_minus_small [of 32 sig] by simp
  with n show ?thesis by (auto simp: reserved_def word_less_def sint_32)
qed

text \<open>The numbers that can be added and removed.\<close>

definition settable :: "int set" where
  "settable = {1..64} - reserved"

lemma validate_sig_iff: "validate_sig sig \<longleftrightarrow> sint sig \<notin> settable"
  unfolding validate_sig_def Let_def sig_range sig_reserved settable_def by auto

lemma and_63: "uint (x :: u64) < 64 \<Longrightarrow> x AND (8 * 8 - 1) = x"
proof -
  assume "uint x < 64"
  then have "take_bit 6 x = x"
    by (intro word_uint_eqI) (simp only: unsigned_take_bit_eq, simp add: take_bit_int_eq_self)
  then have "x AND mask 6 = x" by (simp only: take_bit_eq_mask)
  then show ?thesis by (simp add: mask_eq_exp_minus_1)
qed

lemma bit_index_eq:
  assumes "1 \<le> sint sig" "sint sig \<le> 64"
  shows "bit_index sig = (0, push_bit (nat (sint sig - 1)) 1)"
proof -
  have "uint sig = sint sig" using assms(1) by (simp add: sint_eq_uint_32)
  then have u: "uint (sig - 1) = sint sig - 1"
    using uint_minus_small [of 1 sig] assms by simp
  then have "sint (sig - 1) = sint sig - 1"
    using assms by (subst sint_32) simp
  then have s: "uint (scast (sig - 1) :: u64) = sint sig - 1"
    using assms sint_scast_64 [of "sig - 1"] sint_eq_uint_64 [of "scast (sig - 1)"] by simp
  have "(scast (sig - 1) :: u64) div (8 * 8) = 0"
    using s assms by (intro word_uint_eqI) (simp add: uint_div)
  moreover have "(scast (sig - 1) :: u64) AND (8 * 8 - 1) = scast (sig - 1)"
    using s assms by (intro and_63) simp
  moreover have "unat (scast (sig - 1) :: u64) = nat (sint sig - 1)"
    by (simp only: unat_eq_nat_uint s)
  ultimately show ?thesis unfolding bit_index_def Let_def by (simp only:)
qed


subsection \<open>The abstract sets\<close>

definition sigs :: "c_ulong \<Rightarrow> int set" where
  "sigs v = {s. 1 \<le> s \<and> s \<le> 64 \<and> bit v (nat (s - 1))}"

lemma sigs_simps [simp]:
  "sigs 0 = {}" "sigs (a OR b) = sigs a \<union> sigs b"
  by (auto simp: sigs_def bit_simps)

lemma sigs_AND: "sigs (a AND b) = sigs a \<inter> sigs b"
  by (auto simp: sigs_def bit_simps)

lemma sigs_NOT: "sigs (a AND NOT b) = sigs a - sigs b"
  by (auto simp: sigs_def bit_simps)

lemma sigs_single:
  assumes "1 \<le> s" "s \<le> 64"
  shows "sigs (2 ^ nat (s - 1)) = {s}"
  using assms by (auto simp: sigs_def bit_simps nat_eq_iff)

lemma sigs_fill: "sigs 0xfffffffc7fffffff = settable"
proof -
  have c: "NOT (push_bit 31 (mask 3)) = (0xfffffffc7fffffff :: u64)"
    by (simp add: mask_eq_exp_minus_1)
  have "bit (NOT (push_bit 31 (mask 3)) :: u64) n \<longleftrightarrow> n < 64 \<and> n \<notin> {31, 32, 33}" for n
    by (auto simp: bit_simps simp del: push_bit_numeral)
  then have "bit (0xfffffffc7fffffff :: u64) n \<longleftrightarrow> n < 64 \<and> n \<notin> {31, 32, 33}" for n
    by (simp only: c)
  then have "sigs 0xfffffffc7fffffff =
      {s. 1 \<le> s \<and> s \<le> 64 \<and> nat (s - 1) < 64 \<and> nat (s - 1) \<notin> {31, 32, 33}}"
    by (simp only: sigs_def)
  also have "\<dots> = settable" by (auto simp: settable_def reserved_def nat_eq_iff)
  finally show ?thesis .
qed

lemma sigs_empty_iff: "sigs v = {} \<longleftrightarrow> v = 0"
proof
  assume "sigs v = {}"
  then have "\<not> bit v n" if "n < 64" for n
    using that by (auto simp: sigs_def dest!: spec [of _ "int n + 1"])
  then show "v = 0" by (intro bit_word_eqI) simp
qed simp

lemma bits_eq:
  "get_bits m p i = (if i < SIGSET_NWORDS then rd64 m (p + 8 * i) else None)"
  "put_bits m p i v = (if i < SIGSET_NWORDS then wr64 m (p + 8 * i) v else None)"
  by (simp_all add: get_bits_def put_bits_def field_access layout_types layout_eval word_less_nat_alt)

lemma first_word [simp]: "get_bits m p 0 = rd64 m p" "put_bits m p 0 v = wr64 m p v"
  by (simp_all add: bits_eq SIGSET_NWORDS_def)

lemma rd64_wr64: "rd64 m p = Some v \<Longrightarrow> wr64 m p u = Some (put m p (to_le 8 u))"
  using bytes_at_mapped [of m p "to_le 8 v"] by (simp add: rd64_iff wr64_eq)

lemma one_word: "sst_indices = [0]"
proof -
  have "unat SST_SIZE = 1" by (simp add: SST_SIZE_def NSIG_internal_def)
  then show ?thesis by (simp add: sst_indices_def)
qed

text \<open>The set behind a pointer.\<close>

definition sigset_at :: "'k world \<Rightarrow> ptr \<Rightarrow> int set option" where
  "sigset_at w p = map_option sigs (rd64 (ram w) p)"

lemma sigset_atE:
  assumes "sigset_at w p = Some S"
  obtains v where "rd64 (ram w) p = Some v" "sigs v = S"
  using assms by (auto simp: sigset_at_def)

lemma sigset_at_put: "sigset_at (w\<lparr>ram := put m p (to_le 8 v)\<rparr>) p = Some (sigs v)"
  by (simp add: sigset_at_def rd64_put)

text \<open>One operation changes the word of the set and nothing else.\<close>

definition only_word :: "ptr \<Rightarrow> 'k world \<Rightarrow> 'k world \<Rightarrow> bool" where
  "only_word p w w' \<longleftrightarrow> (\<exists>v :: u64. w' = w\<lparr>ram := put (ram w) p (to_le 8 v)\<rparr>)"

lemma sigaddset_eq:
  assumes "sigset_at w p = Some S"
  shows "if sint sig \<in> settable
    then \<exists>w'. sigaddset p sig w = Some (0, w') \<and> only_word p w w'
            \<and> sigset_at w' p = Some (insert (sint sig) S)
    else sigaddset p sig w = Some (- 1, w\<lparr>errno := 22\<rparr>)"
proof (cases "sint sig \<in> settable")
  case True
  then have sig: "1 \<le> sint sig" "sint sig \<le> 64" by (auto simp: settable_def)
  obtain v where v: "rd64 (ram w) p = Some v" "sigs v = S" using sigset_atE [OF assms] .
  have "sigaddset p sig w =
      Some (0, w\<lparr>ram := put (ram w) p (to_le 8 (v OR 2 ^ nat (sint sig - 1)))\<rparr>)"
    using True v by (simp add: sigaddset_def validate_sig_iff bit_index_eq [OF sig] rd64_wr64)
  with True v(2) show ?thesis
    by (auto simp: only_word_def sigset_at_put sigs_single [OF sig])
qed (simp add: sigaddset_def validate_sig_iff set_einval_return_minus1_def set_errno_def EINVAL_def)

lemma sigdelset_eq:
  assumes "sigset_at w p = Some S"
  shows "if sint sig \<in> settable
    then \<exists>w'. sigdelset p sig w = Some (0, w') \<and> only_word p w w'
            \<and> sigset_at w' p = Some (S - {sint sig})
    else sigdelset p sig w = Some (- 1, w\<lparr>errno := 22\<rparr>)"
proof (cases "sint sig \<in> settable")
  case True
  then have sig: "1 \<le> sint sig" "sint sig \<le> 64" by (auto simp: settable_def)
  obtain v where v: "rd64 (ram w) p = Some v" "sigs v = S" using sigset_atE [OF assms] .
  have "sigdelset p sig w =
      Some (0, w\<lparr>ram := put (ram w) p (to_le 8 (v AND NOT (2 ^ nat (sint sig - 1))))\<rparr>)"
    using True v by (simp add: sigdelset_def validate_sig_iff bit_index_eq [OF sig] rd64_wr64)
  with True v(2) show ?thesis
    by (auto simp: only_word_def sigset_at_put sigs_single [OF sig] sigs_NOT)
qed (simp add: sigdelset_def validate_sig_iff set_einval_return_minus1_def set_errno_def EINVAL_def)

text \<open>
  C31. Adding and removing a number of \<open>1 .. 64\<close> outside \<open>32 .. 34\<close> is insertion into and removal
  from the set; every other \<open>c_int\<close> is rejected with \<open>EINVAL\<close> and changes nothing.
\<close>

theorem sigaddset_sigdelset_correct:
  assumes "sigset_at w p = Some S"
  shows "if sint sig \<in> {1..64} - {32, 33, 34}
    then (\<exists>w'. sigaddset p sig w = Some (0, w') \<and> only_word p w w'
            \<and> sigset_at w' p = Some (insert (sint sig) S))
       \<and> (\<exists>w'. sigdelset p sig w = Some (0, w') \<and> only_word p w w'
            \<and> sigset_at w' p = Some (S - {sint sig}))
    else sigaddset p sig w = Some (- 1, w\<lparr>errno := 22\<rparr>)
       \<and> sigdelset p sig w = Some (- 1, w\<lparr>errno := 22\<rparr>)"
  using sigaddset_eq [OF assms, of sig] sigdelset_eq [OF assms, of sig]
  by (auto simp: settable_def reserved_def split: if_splits)

lemma demo_sigset: "sigset_at (demo_world rs) 4096 = Some {}"
proof -
  have "rd64 demo_mem 4096 = Some 0"
    by (simp add: demo_mem_def mem_of_def rd64_iff to_le_def upt_rec bytes_at_Cons put_def)
  then show ?thesis by (simp add: sigset_at_def)
qed

theorem sigaddset_sigdelset_correct_witness:
  "sigaddset 4096 33 (demo_world []) = Some (- 1, (demo_world [])\<lparr>errno := 22\<rparr>)"
  using sigaddset_sigdelset_correct [OF demo_sigset [of "[]"], of 33] by (simp add: sint_32)

lemma and_single: "1 \<le> s \<Longrightarrow> s \<le> 64 \<Longrightarrow> (v :: u64) AND 2 ^ nat (s - 1) \<noteq> 0 \<longleftrightarrow> s \<in> sigs v"
  by (simp add: and_exp_eq_0_iff_not_bit sigs_def)

lemma sigismember_eq:
  assumes "sigset_at w p = Some S"
  shows "sigismember p sig w = Some (bool_c_int (sint sig \<in> S), w)"
proof -
  obtain v where v: "rd64 (ram w) p = Some v" "sigs v = S" using sigset_atE [OF assms] .
  show ?thesis
  proof (cases "1 \<le> sint sig \<and> sint sig \<le> 64")
    case True
    then show ?thesis
      using v by (simp add: sigismember_def sig_range bit_index_eq and_single)
  next
    case False
    then have "sint sig \<notin> S" using v(2) by (auto simp: sigs_def)
    with False show ?thesis
      unfolding sigismember_def sig_range by (simp add: bool_c_int_def)
  qed
qed

text \<open>
  \<open>sigismember\<close> is membership for every \<open>c_int\<close>, the numbers that libc keeps for itself
  included, and \<open>sigisemptyset\<close> emptiness; neither changes the state.
\<close>

theorem sigismember_sigisemptyset_correct:
  assumes "sigset_at w p = Some S"
  shows "sigismember p sig w = Some (bool_c_int (sint sig \<in> S), w)
    \<and> sigisemptyset p w = Some (bool_c_int (S = {}), w)"
proof -
  obtain v where v: "rd64 (ram w) p = Some v" "sigs v = S" using sigset_atE [OF assms] .
  have "sigisemptyset p w = Some (bool_c_int (S = {}), w)"
    using v by (auto simp: sigisemptyset_def one_word sigs_empty_iff bool_c_int_def)
  with sigismember_eq [OF assms] show ?thesis by simp
qed

theorem sigismember_sigisemptyset_correct_witness:
  "sigismember 4096 9 (demo_world []) = Some (0, demo_world [])
   \<and> sigisemptyset 4096 (demo_world []) = Some (1, demo_world [])"
  using sigismember_sigisemptyset_correct [OF demo_sigset [of "[]"], of 9] by (simp add: bool_c_int_def)

text \<open>
  \<open>sigorset\<close> and \<open>sigandset\<close> are union and intersection, also when the destination is one
  of the operands or overlaps them.
\<close>

theorem sigorset_sigandset_correct:
  assumes "sigset_at w left = Some A" "sigset_at w right = Some B" "sigset_at w dest = Some C"
  shows "(\<exists>w'. sigorset dest left right w = Some (0, w') \<and> only_word dest w w'
        \<and> sigset_at w' dest = Some (A \<union> B))
    \<and> (\<exists>w'. sigandset dest left right w = Some (0, w') \<and> only_word dest w w'
        \<and> sigset_at w' dest = Some (A \<inter> B))"
proof -
  obtain a where a: "rd64 (ram w) left = Some a" "sigs a = A" using sigset_atE [OF assms(1)] .
  obtain b where b: "rd64 (ram w) right = Some b" "sigs b = B" using sigset_atE [OF assms(2)] .
  obtain c where c: "rd64 (ram w) dest = Some c" using sigset_atE [OF assms(3)] .
  have "sigorset dest left right w = Some (0, w\<lparr>ram := put (ram w) dest (to_le 8 (a OR b))\<rparr>)"
    "sigandset dest left right w = Some (0, w\<lparr>ram := put (ram w) dest (to_le 8 (a AND b))\<rparr>)"
    using a(1) b(1) rd64_wr64 [OF c] by (simp_all add: sigorset_def sigandset_def one_word)
  then show ?thesis
    using a(2) b(2) by (auto simp: only_word_def sigset_at_put sigs_AND)
qed

theorem sigorset_sigandset_correct_witness:
  "\<exists>w'. sigorset 4096 4096 4096 (demo_world []) = Some (0, w') \<and> sigset_at w' 4096 = Some {}"
  using sigorset_sigandset_correct [OF demo_sigset demo_sigset demo_sigset] by auto


subsection \<open>Sequences of operations\<close>

datatype sig_op = Empty | Fill | Add c_int | Del c_int

fun sig_step :: "ptr \<Rightarrow> sig_op \<Rightarrow> 'k world \<Rightarrow> 'k world option" where
  "sig_step p Empty w = map_option snd (sigemptyset p w)"
| "sig_step p Fill w = map_option snd (sigfillset p w)"
| "sig_step p (Add sig) w = map_option snd (sigaddset p sig w)"
| "sig_step p (Del sig) w = map_option snd (sigdelset p sig w)"

text \<open>The abstract operations.\<close>

fun sig_spec :: "sig_op \<Rightarrow> int set \<Rightarrow> int set" where
  "sig_spec Empty S = {}"
| "sig_spec Fill S = settable"
| "sig_spec (Add sig) S = (if sint sig \<in> settable then insert (sint sig) S else S)"
| "sig_spec (Del sig) S = (if sint sig \<in> settable then S - {sint sig} else S)"

lemma sigset_at_errno [simp]: "sigset_at (w\<lparr>errno := e\<rparr>) p = sigset_at w p"
  by (simp add: sigset_at_def)

interpretation sigset: simulation "\<lambda>w S. sigset_at w p = Some S" "sig_step p" sig_spec for p
proof unfold_locales
  fix w S x
  assume S: "sigset_at w p = Some S"
  then obtain v where v: "rd64 (ram w) p = Some v" by (auto elim: sigset_atE)
  show "\<exists>w'. sig_step p x w = Some w' \<and> sigset_at w' p = Some (sig_spec x S)"
  proof (cases x)
    case Empty
    then show ?thesis by (simp add: sigemptyset_def rd64_wr64 [OF v] sigset_at_put)
  next
    case Fill
    then show ?thesis by (simp add: sigfillset_def rd64_wr64 [OF v] sigset_at_put sigs_fill)
  next
    case (Add sig)
    then show ?thesis using sigaddset_eq [OF S, of sig] S by (auto split: if_splits)
  next
    case (Del sig)
    then show ?thesis using sigdelset_eq [OF S, of sig] S by (auto split: if_splits)
  qed
qed

text \<open>
  C14. A sequence of operations on a set computes the abstract set of the same sequence: the bit
  operations implement sets of numbers.
\<close>

theorem sigset_refines_set:
  assumes "sigset_at w p = Some S"
  shows "\<exists>w'. run_all (sig_step p) ops w = Some w'
    \<and> sigset_at w' p = Some (fold sig_spec ops S)"
  using sigset.run_all_simulates [OF assms] .

theorem sigset_refines_set_witness:
  "\<exists>w'. run_all (sig_step 4096) [Fill, Del 9, Add 9, Del 15, Add 32] (demo_world []) = Some w'
    \<and> sigset_at w' 4096 = Some (settable - {15})"
proof -
  have "fold sig_spec [Fill, Del 9, Add 9, Del 15, Add 32] {} = settable - {15}"
    by (auto simp: settable_def reserved_def sint_32)
  with sigset_refines_set [OF demo_sigset [of "[]"], of "[Fill, Del 9, Add 9, Del 15, Add 32]"]
  show ?thesis by simp
qed

text \<open>
  No sequence of operations after \<open>sigemptyset\<close> or \<open>sigfillset\<close> puts a number that libc
  keeps for itself into a set.
\<close>

theorem reserved_never_set:
  assumes "sigset_at w p = Some S" "first = Empty \<or> first = Fill" "sint sig \<in> {32, 33, 34}"
  shows "\<exists>w'. run_all (sig_step p) (first # ops) w = Some w' \<and> sigismember p sig w' = Some (0, w')"
proof -
  obtain w1 S1 where w1: "sig_step p first w = Some w1" "sigset_at w1 p = Some S1"
      "S1 \<inter> reserved = {}"
  proof -
    have "sig_spec first S \<inter> reserved = {}" using assms(2) by (auto simp: settable_def)
    with sigset.simulates [OF assms(1), of first] show ?thesis using that by blast
  qed
  have "sig_spec x T \<inter> reserved = {}" if "T \<inter> reserved = {}" for x T
    using that by (cases x) (auto simp: settable_def)
  then obtain w' S' where w': "run_all (sig_step p) ops w1 = Some w'" "sigset_at w' p = Some S'"
      "S' \<inter> reserved = {}"
    using sigset.run_all_invariant [OF w1(2), of "\<lambda>T. T \<inter> reserved = {}" ops] w1(3) by blast
  have "sint sig \<notin> S'" using assms(3) w'(3) by (auto simp: reserved_def)
  then have "sigismember p sig w' = Some (0, w')"
    by (simp add: sigismember_eq [OF w'(2)] bool_c_int_def)
  with w1(1) w'(1) show ?thesis by simp
qed

theorem reserved_never_set_witness:
  "\<exists>w'. run_all (sig_step 4096) [Fill, Add 33, Add 40] (demo_world []) = Some w'
    \<and> sigismember 4096 33 w' = Some (0, w')"
  using reserved_never_set [OF demo_sigset [of "[]"], of Fill 33 "[Add 33, Add 40]"]
  by (simp add: sint_32)

end
