(* ===== verification/Random_Gen.thy ===== *)
theory Random_Gen
  imports Words
begin

section \<open>random, srandom, initstate, setstate\<close>

text \<open>
  The locked family of \<open>mytilus-prng/src/lib.rs\<close>, with its statics as a record. The state
  buffers are 32-bit words in the memory, the built-in one at the address \<open>init_at\<close> that the
  linker gives the static \<open>RANDOM_INIT\<close>. An access to memory that is not mapped and a spin on
  a lock that nobody releases are None; the threads of a program and their use of the lock are
  theory \<open>Spinlock\<close>. The abstract specification is a generator on a list: a linear
  congruential one when it has no degree, an additive feedback one otherwise.
\<close>

subsection \<open>The statics\<close>

definition N_DEFAULT :: c_int where
  "N_DEFAULT = 31"

definition RANDOM_INIT :: "u32 list" where
  "RANDOM_INIT =
    [0x00000000, 0x5851f42d, 0xc0b18ccf, 0xcbb5f646, 0xc7033129, 0x30705b04, 0x20fd5db4, 0x9a8b7f78,
     0x502959d8, 0xab894868, 0x6c0356a7, 0x88cdb7ff, 0xb477d43f, 0x70a3a52b, 0xa8e4baf1, 0xfd8341fc,
     0x8ae16fd9, 0x742d2f7a, 0x0d1f0796, 0x76035e09, 0x40f7702c, 0x6fa72ca5, 0xaaa84157, 0x58a0df74,
     0xc74a0364, 0xae533cc4, 0x04185faf, 0x6de3b115, 0x0cab8628, 0xf043bfa4, 0x398150e9, 0x37521657]"

record random_state =
  rand_n :: c_int
  rand_i :: c_int
  rand_j :: c_int
  rand_x :: ptr
  random_lock :: i32
  init_at :: ptr
  rmem :: mem

text \<open>The state at program start, with the built-in buffer at \<open>a\<close>.\<close>

definition random_boot :: "ptr \<Rightarrow> mem \<Rightarrow> random_state" where
  "random_boot a m =
     \<lparr>rand_n = N_DEFAULT, rand_i = 3, rand_j = 0, rand_x = 0, random_lock = 0, init_at = a,
      rmem = put m a (enc32 RANDOM_INIT)\<rparr>"


subsection \<open>The operations\<close>

definition compare_exchange :: "i32 \<Rightarrow> i32 \<Rightarrow> random_state \<Rightarrow> bool \<times> random_state" where
  "compare_exchange old new st =
     (if random_lock st = old then (True, st\<lparr>random_lock := new\<rparr>) else (False, st))"

text \<open>
  The functions that take the lock are lists of statements, because other threads may run between
  two of them: theory \<open>Spinlock\<close> interleaves these lists, and \<open>exec\<close> runs one alone.
  \<open>Until c\<close> is the loop \<open>while !c() { spin_loop() }\<close>, \<open>Atomic f\<close> one atomic access,
  \<open>Plain f\<close> a block of plain accesses to the statics and the buffers, which gives the function its
  result, and \<open>Give v\<close> the early return of a constant. A function without a result has 0.
\<close>

datatype stmt =
    Until "random_state \<Rightarrow> bool \<times> random_state"
  | Atomic "random_state \<Rightarrow> random_state"
  | Plain "random_state \<Rightarrow> (i64 \<times> random_state) option"
  | Give i64

partial_function (option) spin ::
    "(random_state \<Rightarrow> bool \<times> random_state) \<Rightarrow> random_state \<Rightarrow> random_state option" where
  "spin c st = (let (ok, st') = c st in if ok then Some st' else spin c st')"

fun exec :: "stmt list \<Rightarrow> i64 option \<Rightarrow> random_state \<Rightarrow> (i64 \<times> random_state) option" where
  "exec [] r st = map_option (\<lambda>v. (v, st)) r"
| "exec (Until c # p) r st = do { st' \<leftarrow> spin c st; exec p r st' }"
| "exec (Atomic f # p) r st = exec p r (f st)"
| "exec (Plain f # p) r st = do { (v, st') \<leftarrow> f st; exec p (Some v) st' }"
| "exec (Give v # p) r st = exec p (Some v) st"

definition exec_value :: "stmt list \<Rightarrow> random_state \<Rightarrow> (i64 \<times> random_state) option" where
  "exec_value p st = exec p None st"

definition exec_unit :: "stmt list \<Rightarrow> random_state \<Rightarrow> random_state option" where
  "exec_unit p st = map_option snd (exec p None st)"

definition lock :: "stmt list" where
  "lock = [Until (compare_exchange 0 1)]"

definition unlock :: "stmt list" where
  "unlock = [Atomic (\<lambda>st. st\<lparr>random_lock := 0\<rparr>)]"

definition x_ptr :: "random_state \<Rightarrow> ptr \<times> random_state" where
  "x_ptr st =
     (let p = rand_x st
      in if p \<noteq> 0 then (p, st)
         else let p = init_at st + 4 in (p, st\<lparr>rand_x := p\<rparr>))"

definition lcg31 :: "u32 \<Rightarrow> u32" where
  "lcg31 x = (1103515245 * x + 12345) AND 0x7fffffff"

definition lcg64 :: "u64 \<Rightarrow> u64" where
  "lcg64 x = 6364136223846793005 * x + 1"

definition savestate :: "random_state \<Rightarrow> (ptr \<times> random_state) option" where
  "savestate st = do {
     let (x, st1) = x_ptr st;
     let n = rand_n st1;
     let i = rand_i st1;
     let j = rand_j st1;
     m \<leftarrow> wr32 (rmem st1) (x - 4) (push_bit 16 n OR push_bit 8 i OR j);
     Some (x - 4, st1\<lparr>rmem := m\<rparr>)
   }"

definition loadstate :: "ptr \<Rightarrow> random_state \<Rightarrow> random_state option" where
  "loadstate state st = do {
     let x = state + 4;
     let st1 = st\<lparr>rand_x := x\<rparr>;
     header \<leftarrow> rd32 (rmem st1) state;
     Some (st1\<lparr>rand_n := drop_bit 16 header, rand_i := drop_bit 8 header AND 0xff,
       rand_j := header AND 0xff\<rparr>)
   }"

text \<open>The loop \<open>for k in 0..RAND_N\<close> over the indices that are left.\<close>

fun seed_loop :: "nat list \<Rightarrow> ptr \<Rightarrow> u64 \<Rightarrow> mem \<Rightarrow> mem option" where
  "seed_loop [] x s m = Some m"
| "seed_loop (k # ks) x s m = do {
     let s' = lcg64 s;
     m' \<leftarrow> wr32 m (x + 4 * of_nat k) (ucast (drop_bit 32 s'));
     seed_loop ks x s' m'
   }"

definition srandom_locked :: "c_uint \<Rightarrow> random_state \<Rightarrow> random_state option" where
  "srandom_locked seed st = do {
     let (x, st1) = x_ptr st;
     if rand_n st1 = 0 then do {
       m \<leftarrow> wr32 (rmem st1) x seed;
       Some (st1\<lparr>rmem := m\<rparr>)
     } else do {
       let st2 = st1\<lparr>rand_i := (if rand_n st1 = 31 \<or> rand_n st1 = 7 then 3 else 1), rand_j := 0\<rparr>;
       m1 \<leftarrow> seed_loop [0..<nat (sint (rand_n st2))] x (ucast seed) (rmem st2);
       v \<leftarrow> rd32 m1 x;
       m2 \<leftarrow> wr32 m1 x (v OR 1);
       Some (st2\<lparr>rmem := m2\<rparr>)
     }
   }"

definition srandom_code :: "c_uint \<Rightarrow> stmt list" where
  "srandom_code seed =
     lock @ [Plain (\<lambda>st. map_option (\<lambda>st'. (0, st')) (srandom_locked seed st))] @ unlock"

text \<open>The body of \<open>random\<close> between \<open>lock\<close> and \<open>unlock\<close>.\<close>

definition random_locked :: "random_state \<Rightarrow> (i64 \<times> random_state) option" where
  "random_locked st = do {
     let (x, st1) = x_ptr st;
     if rand_n st1 = 0 then do {
       a \<leftarrow> rd32 (rmem st1) x;
       let v = lcg31 a;
       m \<leftarrow> wr32 (rmem st1) x v;
       Some (ucast v, st1\<lparr>rmem := m\<rparr>)
     } else do {
       let i = (scast (rand_i st1) :: u64);
       let j = (scast (rand_j st1) :: u64);
       let n = (scast (rand_n st1) :: u64);
       a \<leftarrow> rd32 (rmem st1) (x + 4 * i);
       b \<leftarrow> rd32 (rmem st1) (x + 4 * j);
       let v = a + b;
       m \<leftarrow> wr32 (rmem st1) (x + 4 * i) v;
       Some (ucast (drop_bit 1 v),
         st1\<lparr>rmem := m, rand_i := (if i + 1 = n then 0 else ucast (i + 1)),
           rand_j := (if j + 1 = n then 0 else ucast (j + 1))\<rparr>)
     }
   }"

definition random_code :: "stmt list" where
  "random_code = lock @ [Plain random_locked] @ unlock"

definition degree_of_size :: "size_t \<Rightarrow> c_int" where
  "degree_of_size sz =
     (if sz < 32 then 0 else if sz < 64 then 7 else if sz < 128 then 15
      else if sz < 256 then 31 else 63)"

definition initstate_locked :: "c_uint \<Rightarrow> ptr \<Rightarrow> size_t \<Rightarrow> random_state \<Rightarrow> (ptr \<times> random_state) option" where
  "initstate_locked seed state sz st = do {
     (old, st1) \<leftarrow> savestate st;
     let st2 = st1\<lparr>rand_n := degree_of_size sz, rand_x := state + 4\<rparr>;
     st3 \<leftarrow> srandom_locked seed st2;
     (_, st4) \<leftarrow> savestate st3;
     Some (old, st4)
   }"

definition initstate_code :: "c_uint \<Rightarrow> ptr \<Rightarrow> size_t \<Rightarrow> stmt list" where
  "initstate_code seed state sz =
     (if sz < 8 then [Give 0]
      else lock @ [Plain (initstate_locked seed state sz)] @ unlock)"

definition setstate_locked :: "ptr \<Rightarrow> random_state \<Rightarrow> (ptr \<times> random_state) option" where
  "setstate_locked state st = do {
     (old, st1) \<leftarrow> savestate st;
     st2 \<leftarrow> loadstate state st1;
     Some (old, st2)
   }"

definition setstate_code :: "ptr \<Rightarrow> stmt list" where
  "setstate_code state = lock @ [Plain (setstate_locked state)] @ unlock"

text \<open>The calls when no other thread runs.\<close>

abbreviation random :: "random_state \<Rightarrow> (i64 \<times> random_state) option" where
  "random st \<equiv> exec_value random_code st"

abbreviation srandom :: "c_uint \<Rightarrow> random_state \<Rightarrow> random_state option" where
  "srandom seed st \<equiv> exec_unit (srandom_code seed) st"

abbreviation initstate :: "c_uint \<Rightarrow> ptr \<Rightarrow> size_t \<Rightarrow> random_state \<Rightarrow> (ptr \<times> random_state) option" where
  "initstate seed state sz st \<equiv> exec_value (initstate_code seed state sz) st"

abbreviation setstate :: "ptr \<Rightarrow> random_state \<Rightarrow> (ptr \<times> random_state) option" where
  "setstate state st \<equiv> exec_value (setstate_code state) st"


subsection \<open>The abstract generator\<close>

text \<open>
  The degree, the two positions and the numbers. \<open>addr\<close> is the buffer: the header word is at
  \<open>addr\<close> and the numbers behind it.
\<close>

record generator =
  degree :: nat
  front :: nat
  rear :: nat
  nums :: "u32 list"

definition gen_shape :: "generator \<Rightarrow> bool" where
  "gen_shape g \<longleftrightarrow> degree g \<in> {0, 7, 15, 31, 63} \<and> length (nums g) = max 1 (degree g)
     \<and> front g < 64 \<and> rear g < 64"

definition gen_ok :: "generator \<Rightarrow> bool" where
  "gen_ok g \<longleftrightarrow> gen_shape g \<and> (degree g > 0 \<longrightarrow> front g < degree g \<and> rear g < degree g)"

definition header :: "generator \<Rightarrow> u32" where
  "header g = push_bit 16 (of_nat (degree g)) OR push_bit 8 (of_nat (front g)) OR of_nat (rear g)"

definition advance :: "nat \<Rightarrow> nat \<Rightarrow> nat" where
  "advance n i = (if i + 1 = n then 0 else i + 1)"

text \<open>One number: linear congruential without a degree, else additive feedback.\<close>

definition gen_next :: "generator \<Rightarrow> u32 \<times> generator" where
  "gen_next g =
     (if degree g = 0 then let v = lcg31 (nums g ! 0) in (v, g\<lparr>nums := [v]\<rparr>)
      else let v = nums g ! front g + nums g ! rear g
           in (drop_bit 1 v,
               g\<lparr>nums := (nums g)[front g := v], front := advance (degree g) (front g),
                 rear := advance (degree g) (rear g)\<rparr>))"

fun seed_words :: "nat \<Rightarrow> u64 \<Rightarrow> u32 list" where
  "seed_words 0 s = []"
| "seed_words (Suc n) s = ucast (drop_bit 32 (lcg64 s)) # seed_words n (lcg64 s)"

definition gen_seed :: "c_uint \<Rightarrow> generator \<Rightarrow> generator" where
  "gen_seed seed g =
     (if degree g = 0 then g\<lparr>nums := [seed]\<rparr>
      else let ws = seed_words (degree g) (ucast seed)
           in g\<lparr>front := (if degree g = 31 \<or> degree g = 7 then 3 else 1), rear := 0,
                nums := ws[0 := ws ! 0 OR 1]\<rparr>)"

text \<open>The buffer at an address is allocated, does not wrap and holds a header and the numbers.\<close>

definition buffer :: "mem \<Rightarrow> ptr \<Rightarrow> u32 \<Rightarrow> generator \<Rightarrow> bool" where
  "buffer m a h g \<longleftrightarrow> bytes_at m a (enc32 (h # nums g)) \<and> unat a + 4 * (1 + length (nums g)) \<le> 2 ^ 64"

definition active :: "random_state \<Rightarrow> ptr \<Rightarrow> bool" where
  "active st a \<longleftrightarrow> (if rand_x st = 0 then a = init_at st else rand_x st = a + 4)"

definition gen_repr :: "ptr \<Rightarrow> random_state \<Rightarrow> generator \<Rightarrow> bool" where
  "gen_repr a st g \<longleftrightarrow> active st a \<and> (\<exists>h. buffer (rmem st) a h g)
     \<and> rand_n st = of_nat (degree g) \<and> rand_i st = of_nat (front g) \<and> rand_j st = of_nat (rear g)"

definition gen_rel :: "ptr \<Rightarrow> random_state \<Rightarrow> generator \<Rightarrow> bool" where
  "gen_rel a st g \<longleftrightarrow> gen_ok g \<and> gen_repr a st g"

text \<open>A buffer that is not active and can be given to \<open>setstate\<close>.\<close>

definition saved :: "ptr \<Rightarrow> mem \<Rightarrow> generator \<Rightarrow> bool" where
  "saved a m g \<longleftrightarrow> gen_ok g \<and> buffer m a (header g) g"


subsection \<open>Buffers\<close>

lemma small_nat_32: "n < 2 ^ 31 \<Longrightarrow> sint (of_nat n :: i32) = int n"
  by (simp add: sint_32 unsigned_of_nat take_bit_nat_eq_self)

lemma scast_small: "n < 2 ^ 31 \<Longrightarrow> (scast (of_nat n :: i32) :: u64) = of_nat n"
proof -
  assume n: "n < 2 ^ 31"
  then have "sint (scast (of_nat n :: i32) :: i64) = int n" by (simp add: sint_scast_64 small_nat_32)
  then have "(scast (of_nat n :: i32) :: u64) = word_of_int (int n)" by (metis of_int_sint scast_id)
  then show ?thesis by simp
qed

lemma buffer_wr:
  assumes "bytes_at m a (enc32 ws)" "k < length ws" "4 * length ws \<le> 2 ^ 64"
  shows "wr32 m (a + 4 * of_nat k) v = Some (put m a (enc32 (ws[k := v])))"
  using wr32_array [of m a ws k v] bytes_at_mapped [OF assms(1)] assms by (simp add: put_same)

lemma buffer_rd_num:
  assumes "buffer m a h g" "i < length (nums g)"
  shows "rd32 m (a + 4 + 4 * of_nat i) = Some (nums g ! i)"
  using rd32_array [of m a "h # nums g" "Suc i"] assms
  by (simp add: buffer_def algebra_simps)

lemma buffer_wr_num:
  assumes "buffer m a h g" "i < length (nums g)"
  shows "wr32 m (a + 4 + 4 * of_nat i) v = Some (put m a (enc32 (h # (nums g)[i := v])))"
  using buffer_wr [of m a "h # nums g" "Suc i" v] assms
  by (simp add: buffer_def algebra_simps)

lemma buffer_wr_header:
  assumes "buffer m a h g"
  shows "wr32 m a v = Some (put m a (enc32 (v # nums g)))"
  using buffer_wr [of m a "h # nums g" 0 v] assms by (simp add: buffer_def)

lemma buffer_no_wrap:
  assumes "buffer m a h g" "length (nums g) \<noteq> 0"
  shows "a + 4 \<noteq> 0"
proof
  assume "a + 4 = 0"
  then have "unat (a + of_nat 4) = 0" by simp
  moreover have "unat a + 4 < 2 ^ 64"
  proof -
    have "unat a + (4 + 4 * length (nums g)) \<le> 2 ^ 64" using assms(1) by (simp add: buffer_def)
    with assms(2) show ?thesis by linarith
  qed
  ultimately show False using unat_add_of_nat [of a 4] by simp
qed

lemma x_ptr_active:
  assumes "active st a" "a + 4 \<noteq> 0"
  shows "x_ptr st = (a + 4, st\<lparr>rand_x := a + 4\<rparr>)"
  using assms by (auto simp: x_ptr_def active_def Let_def split: if_splits)

lemma active_update: "a + 4 \<noteq> 0 \<Longrightarrow> rand_x st = a + 4 \<Longrightarrow> active st a"
  by (simp add: active_def)

lemma buffer_put:
  assumes "buffer m a h g" "length (nums g') = length (nums g)"
  shows "buffer (put m a (enc32 (h' # nums g'))) a h' g'"
  using assms by (simp add: buffer_def bytes_at_put)

text \<open>What an operation on the buffer at \<open>a\<close> may change.\<close>

definition frame :: "ptr \<Rightarrow> nat \<Rightarrow> random_state \<Rightarrow> random_state \<Rightarrow> bool" where
  "frame a n st st' \<longleftrightarrow> (\<exists>bs. length bs = n \<and> rmem st' = put (rmem st) a bs)
     \<and> random_lock st' = random_lock st \<and> init_at st' = init_at st"

lemma frameI:
  assumes "rmem st' = put (rmem st) a (enc32 ws)" "n = 4 * length ws"
    "random_lock st' = random_lock st" "init_at st' = init_at st"
  shows "frame a n st st'"
  using assms by (auto simp: frame_def intro: exI [of _ "enc32 ws"])

definition buf_size :: "generator \<Rightarrow> nat" where
  "buf_size g = 4 * (1 + length (nums g))"

lemma gen_shapeD:
  assumes "gen_shape g"
  shows "degree g < 64" "front g < 64" "rear g < 64" "length (nums g) \<noteq> 0"
    "degree g \<noteq> 0 \<Longrightarrow> length (nums g) = degree g" "degree g = 0 \<Longrightarrow> length (nums g) = 1"
  using assms by (auto simp: gen_shape_def max_def split: if_splits)

lemma gen_okD:
  assumes "gen_ok g"
  shows "degree g < 64" "front g < 64" "rear g < 64" "length (nums g) \<noteq> 0"
    "degree g \<noteq> 0 \<Longrightarrow> front g < degree g \<and> rear g < degree g \<and> length (nums g) = degree g"
    "degree g = 0 \<Longrightarrow> length (nums g) = 1"
  using assms gen_shapeD [of g] by (auto simp: gen_ok_def)

lemma index_cast: "i < 64 \<Longrightarrow> (scast (of_nat i :: i32) :: u64) = of_nat i"
  by (rule scast_small) simp

lemma of_nat_step:
  "i < 64 \<Longrightarrow> n < 64 \<Longrightarrow> ((of_nat i :: u64) + 1 = of_nat n) = (i + 1 = n)"
  using of_nat_eq_64 [of "i + 1" n] by (simp add: ac_simps)

lemma ucast_step: "i < 64 \<Longrightarrow> (ucast ((of_nat i :: u64) + 1) :: i32) = of_nat (i + 1)"
proof -
  assume "i < 64"
  then have "uint ((of_nat (i + 1)) :: u64) = int i + 1"
    by (simp only: unsigned_of_nat) (simp add: take_bit_nat_eq_self)
  then have "uint (ucast (of_nat (i + 1) :: u64) :: i32) = int i + 1"
    using \<open>i < 64\<close> by (simp only: unsigned_ucast_eq) (simp add: take_bit_int_eq_self)
  moreover have "uint (of_nat (i + 1) :: i32) = int i + 1"
    using \<open>i < 64\<close> by (simp only: unsigned_of_nat) (simp add: take_bit_nat_eq_self)
  ultimately have "(ucast (of_nat (i + 1) :: u64) :: i32) = of_nat (i + 1)"
    by (simp only: word_uint_eq_iff)
  then show ?thesis by (simp add: ac_simps)
qed

lemma gen_ok_next: "gen_ok g \<Longrightarrow> gen_ok (snd (gen_next g))"
  by (auto simp: gen_ok_def gen_shape_def gen_next_def advance_def Let_def)

lemma degree_0_iff: "n < 64 \<Longrightarrow> (of_nat n :: c_int) = 0 \<longleftrightarrow> n = 0"
  by (auto simp: word_of_nat_eq_0_iff dest: dvd_imp_le)

lemma gen_reprE:
  assumes "gen_shape g" "gen_repr a st g"
  obtains h where "active st a" "buffer (rmem st) a h g" "rand_n st = of_nat (degree g)"
    "rand_i st = of_nat (front g)" "rand_j st = of_nat (rear g)"
    "x_ptr st = (a + 4, st\<lparr>rand_x := a + 4\<rparr>)" "a + 4 \<noteq> 0"
proof -
  obtain h where g: "active st a" "buffer (rmem st) a h g" "rand_n st = of_nat (degree g)"
      "rand_i st = of_nat (front g)" "rand_j st = of_nat (rear g)"
    using assms(2) by (auto simp: gen_repr_def)
  have a4: "a + 4 \<noteq> 0" by (rule buffer_no_wrap [OF g(2) gen_shapeD(4) [OF assms(1)]])
  show ?thesis by (rule that [OF g x_ptr_active [OF g(1) a4] a4])
qed

lemma random_locked_lcg:
  assumes "gen_rel a st g" "degree g = 0"
  shows "\<exists>st'. random_locked st = Some (ucast (fst (gen_next g)), st')
    \<and> gen_rel a st' (snd (gen_next g)) \<and> frame a (buf_size g) st st'"
proof -
  have rel: "gen_ok g" "gen_shape g" "gen_repr a st g"
    using assms(1) by (simp_all add: gen_rel_def gen_ok_def)
  obtain h where g: "active st a" "buffer (rmem st) a h g" "rand_n st = of_nat (degree g)"
      "rand_i st = of_nat (front g)" "rand_j st = of_nat (rear g)"
      "x_ptr st = (a + 4, st\<lparr>rand_x := a + 4\<rparr>)" "a + 4 \<noteq> 0"
    using gen_reprE [OF rel(2,3)] .
  have len: "length (nums g) = 1" using gen_okD(6) [OF rel(1) assms(2)] .
  let ?v = "lcg31 (nums g ! 0)"
  let ?g' = "g\<lparr>nums := [?v]\<rparr>"
  have "(nums g)[0 := ?v] = [?v]" using len by (cases "nums g") auto
  then have "random_locked st = Some (ucast ?v,
      st\<lparr>rand_x := a + 4, rmem := put (rmem st) a (enc32 (h # [?v]))\<rparr>)"
    using buffer_rd_num [OF g(2), of 0] buffer_wr_num [OF g(2), of 0] len assms(2) g(3)
    by (simp add: random_locked_def g(6) Let_def)
  moreover have "gen_next g = (?v, ?g')" using assms(2) by (simp add: gen_next_def Let_def)
  ultimately show ?thesis
    using gen_ok_next [OF rel(1)] g(3-5,7) buffer_put [OF g(2), of ?g' h] len
    by (auto simp: gen_rel_def gen_repr_def buf_size_def active_def intro: frameI)
qed

lemma advance_cast:
  assumes "i < 64" "n < 64"
  shows "(if (of_nat i :: u64) + 1 = of_nat n then 0 else ucast ((of_nat i :: u64) + 1)) =
    (of_nat (advance n i) :: i32)"
  using assms by (simp only: of_nat_step ucast_step) (simp add: advance_def)

lemma random_locked_feedback:
  assumes "gen_rel a st g" "degree g \<noteq> 0"
  shows "\<exists>st'. random_locked st = Some (ucast (fst (gen_next g)), st')
    \<and> gen_rel a st' (snd (gen_next g)) \<and> frame a (buf_size g) st st'"
proof -
  have rel: "gen_ok g" "gen_shape g" "gen_repr a st g"
    using assms(1) by (simp_all add: gen_rel_def gen_ok_def)
  obtain h where g: "active st a" "buffer (rmem st) a h g" "rand_n st = of_nat (degree g)"
      "rand_i st = of_nat (front g)" "rand_j st = of_nat (rear g)"
      "x_ptr st = (a + 4, st\<lparr>rand_x := a + 4\<rparr>)" "a + 4 \<noteq> 0"
    using gen_reprE [OF rel(2,3)] .
  note ok = gen_okD [OF rel(1)]
  let ?v = "nums g ! front g + nums g ! rear g" and ?g' = "snd (gen_next g)"
  have g': "gen_next g = (drop_bit 1 ?v, ?g')" "nums ?g' = (nums g)[front g := ?v]"
      "degree ?g' = degree g" "front ?g' = advance (degree g) (front g)"
      "rear ?g' = advance (degree g) (rear g)"
    using assms(2) by (simp_all add: gen_next_def Let_def)
  let ?st' = "st\<lparr>rand_x := a + 4, rmem := put (rmem st) a (enc32 (h # nums ?g')),
      rand_i := of_nat (advance (degree g) (front g)),
      rand_j := of_nat (advance (degree g) (rear g))\<rparr>"
  have "random_locked st = Some (ucast (drop_bit 1 ?v), ?st')"
    using buffer_rd_num [OF g(2), of "front g"] buffer_rd_num [OF g(2), of "rear g"]
      buffer_wr_num [OF g(2), of "front g"] ok(5) [OF assms(2)] assms(2) ok(1-3) g(3-5) g'(2)
    by (simp add: random_locked_def g(6) degree_0_iff index_cast advance_cast Let_def)
  moreover have "gen_rel a ?st' ?g'"
    using gen_ok_next [OF rel(1)] g'(2-5) g(3,7) buffer_put [OF g(2), of ?g' h]
    by (auto simp: gen_rel_def gen_repr_def active_def)
  moreover have "frame a (buf_size g) st ?st'"
    using g'(2) by (auto simp: buf_size_def intro: frameI)
  ultimately show ?thesis using g'(1) by (metis fst_conv)
qed

lemma random_locked_refines:
  assumes "gen_rel a st g"
  shows "\<exists>st'. random_locked st = Some (ucast (fst (gen_next g)), st')
    \<and> gen_rel a st' (snd (gen_next g)) \<and> frame a (buf_size g) st st'"
  using random_locked_lcg [OF assms] random_locked_feedback [OF assms] by blast


subsection \<open>Seeding\<close>

lemma length_seed_words [simp]: "length (seed_words n s) = n"
  by (induction n arbitrary: s) simp_all

lemma seed_loop_correct:
  assumes "bytes_at m a (enc32 (h # ys @ zs))" "4 * (1 + length ys + length zs) \<le> 2 ^ 64"
  shows "seed_loop [length ys..<length ys + length zs] (a + 4) s m =
    Some (put m a (enc32 (h # ys @ seed_words (length zs) s)))"
  using assms
proof (induction zs arbitrary: ys m s)
  case Nil
  then show ?case by (simp add: put_same)
next
  case (Cons z zs)
  let ?v = "ucast (drop_bit 32 (lcg64 s)) :: u32"
  let ?m = "put m a (enc32 (h # (ys @ [?v]) @ zs))"
  have wr: "wr32 m (a + 4 + 4 * of_nat (length ys)) ?v = Some ?m"
    using buffer_wr [OF Cons.prems(1), of "Suc (length ys)" ?v] Cons.prems(2)
    by (simp add: algebra_simps)
  have "bytes_at ?m a (enc32 (h # (ys @ [?v]) @ zs))"
    using Cons.prems(2) by (intro bytes_at_put) simp
  then have "seed_loop [length (ys @ [?v])..<length (ys @ [?v]) + length zs] (a + 4) (lcg64 s) ?m =
      Some (put ?m a (enc32 (h # (ys @ [?v]) @ seed_words (length zs) (lcg64 s))))"
    using Cons.prems(2) by (intro Cons.IH) simp_all
  moreover have "put ?m a (enc32 (h # (ys @ [?v]) @ seed_words (length zs) (lcg64 s))) =
      put m a (enc32 (h # ys @ seed_words (length (z # zs)) s))"
    by (subst put_put_same) simp_all
  moreover have "[length ys..<length ys + length (z # zs)] =
      length ys # [length (ys @ [?v])..<length (ys @ [?v]) + length zs]"
    by (simp add: upt_conv_Cons del: upt_Suc)
  ultimately show ?case using wr by (simp add: Let_def del: upt_Suc)
qed

lemma gen_ok_seed: "gen_shape g \<Longrightarrow> gen_ok (gen_seed seed g)"
  by (auto simp: gen_ok_def gen_shape_def gen_seed_def Let_def)

lemma degree_cases:
  assumes "gen_shape g"
  shows "(of_nat (degree g) :: c_int) = 31 \<longleftrightarrow> degree g = 31"
    "(of_nat (degree g) :: c_int) = 7 \<longleftrightarrow> degree g = 7"
  using assms by (auto simp: gen_shape_def)

lemma srandom_locked_lcg:
  assumes "gen_shape g" "gen_repr a st g" "degree g = 0"
  shows "\<exists>st'. srandom_locked seed st = Some st' \<and> gen_rel a st' (gen_seed seed g)
    \<and> frame a (buf_size g) st st'"
proof -
  obtain h where g: "active st a" "buffer (rmem st) a h g" "rand_n st = of_nat (degree g)"
      "rand_i st = of_nat (front g)" "rand_j st = of_nat (rear g)"
      "x_ptr st = (a + 4, st\<lparr>rand_x := a + 4\<rparr>)" "a + 4 \<noteq> 0"
    using gen_reprE [OF assms(1,2)] .
  have len: "length (nums g) = 1" using gen_shapeD(6) [OF assms(1,3)] .
  let ?g' = "g\<lparr>nums := [seed]\<rparr>"
  have "(nums g)[0 := seed] = [seed]" using len by (cases "nums g") auto
  then have "srandom_locked seed st =
      Some (st\<lparr>rand_x := a + 4, rmem := put (rmem st) a (enc32 (h # [seed]))\<rparr>)"
    using buffer_wr_num [OF g(2), of 0 seed] len assms(3) g(3)
    by (simp add: srandom_locked_def g(6) Let_def)
  moreover have "gen_seed seed g = ?g'" using assms(3) by (simp add: gen_seed_def)
  ultimately show ?thesis
    using gen_ok_seed [OF assms(1), of seed] g(3-5,7) buffer_put [OF g(2), of ?g' h] len
    by (auto simp: gen_rel_def gen_repr_def buf_size_def active_def intro: frameI)
qed

lemma srandom_locked_feedback:
  assumes "gen_shape g" "gen_repr a st g" "degree g \<noteq> 0"
  shows "\<exists>st'. srandom_locked seed st = Some st' \<and> gen_rel a st' (gen_seed seed g)
    \<and> frame a (buf_size g) st st'"
proof -
  obtain h where g: "active st a" "buffer (rmem st) a h g" "rand_n st = of_nat (degree g)"
      "rand_i st = of_nat (front g)" "rand_j st = of_nat (rear g)"
      "x_ptr st = (a + 4, st\<lparr>rand_x := a + 4\<rparr>)" "a + 4 \<noteq> 0"
    using gen_reprE [OF assms(1,2)] .
  note ok = gen_shapeD [OF assms(1)] and len = gen_shapeD(5) [OF assms(1,3)]
  let ?ws = "seed_words (degree g) (ucast seed)" and ?g' = "gen_seed seed g"
  let ?m1 = "put (rmem st) a (enc32 (h # ?ws))"
  have g': "nums ?g' = ?ws[0 := ?ws ! 0 OR 1]" "degree ?g' = degree g" "rear ?g' = 0"
      "front ?g' = (if degree g = 31 \<or> degree g = 7 then 3 else 1)"
    using assms(3) by (simp_all add: gen_seed_def Let_def)
  have loop: "seed_loop [0..<degree g] (a + 4) (ucast seed) (rmem st) = Some ?m1"
    using seed_loop_correct [of "rmem st" a h "[]" "nums g" "ucast seed"] g(2) len
    by (simp add: buffer_def)
  have b1: "buffer ?m1 a h (g\<lparr>nums := ?ws\<rparr>)"
    using buffer_put [OF g(2), of "g\<lparr>nums := ?ws\<rparr>" h] len by simp
  have rd: "rd32 ?m1 (a + 4) = Some (?ws ! 0)"
    using buffer_rd_num [OF b1, of 0] assms(3) by simp
  have wr: "wr32 ?m1 (a + 4) v = Some (put (rmem st) a (enc32 (h # ?ws[0 := v])))" for v
    using buffer_wr_num [OF b1, of 0 v] assms(3) by (simp add: put_put_same)
  have n: "sint (rand_n st) = int (degree g)" using ok(1) g(3) by (simp add: small_nat_32)
  let ?st' = "st\<lparr>rand_x := a + 4, rand_i := of_nat (front ?g'), rand_j := 0,
      rmem := put (rmem st) a (enc32 (h # nums ?g'))\<rparr>"
  have "srandom_locked seed st = Some ?st'"
    using assms(3) loop rd wr n g(3) g' degree_cases [OF assms(1)] ok(1)
    by (simp add: srandom_locked_def g(6) degree_0_iff Let_def)
  moreover have "gen_rel a ?st' ?g'"
    using gen_ok_seed [OF assms(1), of seed] g' g(3,7) buffer_put [OF g(2), of ?g' h] len
    by (auto simp: gen_rel_def gen_repr_def active_def)
  moreover have "frame a (buf_size g) st ?st'"
    using g'(1) len by (auto simp: buf_size_def intro: frameI)
  ultimately show ?thesis by blast
qed

lemma srandom_locked_refines:
  assumes "gen_shape g" "gen_repr a st g"
  shows "\<exists>st'. srandom_locked seed st = Some st' \<and> gen_rel a st' (gen_seed seed g)
    \<and> frame a (buf_size g) st st'"
  using srandom_locked_lcg [OF assms] srandom_locked_feedback [OF assms] by blast


subsection \<open>Saving and loading\<close>

lemma high_bits_zero:
  assumes "n < (64 :: nat)" "6 \<le> k"
  shows "bit n k \<longleftrightarrow> False"
proof -
  have "(2 :: nat) ^ 6 \<le> 2 ^ k" using assms(2) by (intro power_increasing) simp_all
  then have "n div 2 ^ k = 0" using assms(1) by (intro div_less) simp
  then show ?thesis by (simp add: bit_iff_odd)
qed

lemma and_byte: "(x :: u32) AND 0xff = take_bit 8 x"
  by (simp add: take_bit_eq_mask mask_eq_exp_minus_1)

lemma header_fields:
  assumes "gen_shape g"
  shows "drop_bit 16 (header g) = of_nat (degree g)"
    "drop_bit 8 (header g) AND 0xff = of_nat (front g)" "header g AND 0xff = of_nat (rear g)"
proof -
  note ok = gen_shapeD [OF assms]
  note zero = high_bits_zero [OF ok(1)] high_bits_zero [OF ok(2)] high_bits_zero [OF ok(3)]
  show "drop_bit 16 (header g) = of_nat (degree g)"
  proof (rule bit_word_eqI)
    fix k assume "k < LENGTH(32)"
    then show "bit (drop_bit 16 (header g)) k \<longleftrightarrow> bit (of_nat (degree g) :: u32) k"
      by (cases "k < 16") (auto simp: header_def bit_simps zero not_less)
  qed
  show "drop_bit 8 (header g) AND 0xff = of_nat (front g)"
    unfolding and_byte
  proof (rule bit_word_eqI)
    fix k assume "k < LENGTH(32)"
    then show "bit (take_bit 8 (drop_bit 8 (header g))) k \<longleftrightarrow> bit (of_nat (front g) :: u32) k"
      by (cases "k < 8") (auto simp: header_def bit_simps zero not_less)
  qed
  show "header g AND 0xff = of_nat (rear g)"
    unfolding and_byte
  proof (rule bit_word_eqI)
    fix k assume "k < LENGTH(32)"
    then show "bit (take_bit 8 (header g)) k \<longleftrightarrow> bit (of_nat (rear g) :: u32) k"
      by (cases "k < 8") (auto simp: header_def bit_simps zero not_less)
  qed
qed

lemma savestate_eq:
  assumes "gen_shape g" "gen_repr a st g"
  shows "savestate st =
    Some (a, st\<lparr>rand_x := a + 4, rmem := put (rmem st) a (enc32 (header g # nums g))\<rparr>)"
proof -
  obtain h where g: "active st a" "buffer (rmem st) a h g"
      "rand_n st = of_nat (degree g)" "rand_i st = of_nat (front g)" "rand_j st = of_nat (rear g)"
    using assms(2) by (auto simp: gen_repr_def)
  note x = x_ptr_active [OF g(1) buffer_no_wrap [OF g(2) gen_shapeD(4) [OF assms(1)]]]
  have "a + 4 - 4 = a" by simp
  with buffer_wr_header [OF g(2)] g(3-5) show ?thesis
    by (simp add: savestate_def x header_def Let_def)
qed

lemma loadstate_eq:
  assumes "saved a (rmem st) g"
  shows "loadstate a st = Some (st\<lparr>rand_x := a + 4, rand_n := of_nat (degree g),
    rand_i := of_nat (front g), rand_j := of_nat (rear g)\<rparr>)"
proof -
  have "gen_shape g" "bytes_at (rmem st) a (enc32 (header g # nums g))"
    using assms by (auto simp: saved_def gen_ok_def buffer_def)
  with rd32_array [of "rmem st" a "header g # nums g" 0] show ?thesis
    by (simp add: loadstate_def header_fields Let_def)
qed

lemma saved_put:
  assumes "saved a m g" "disjoint_spans b (length bs) a (buf_size g)"
    "length bs \<le> 2 ^ 64"
  shows "saved a (put m b bs) g"
proof -
  have "buf_size g \<le> 2 ^ 64" using assms(1) by (simp add: saved_def buffer_def buf_size_def)
  then have "bytes_at (put m b bs) a (enc32 (header g # nums g)) \<longleftrightarrow>
      bytes_at m a (enc32 (header g # nums g))"
    using assms(2, 3) by (intro bytes_at_put_disjoint) (simp_all add: buf_size_def)
  then show ?thesis using assms(1) by (simp add: saved_def buffer_def)
qed

lemma words_of_bytes: "length bs = 4 * n \<Longrightarrow> \<exists>ws. length ws = n \<and> enc32 ws = bs"
proof (induction n arbitrary: bs)
  case (Suc n)
  let ?w = "of_le (take 4 bs) :: u32"
  have "to_le 4 ?w = take 4 bs"
    using to_le_of_le [of "take 4 bs", where 'a = 32] Suc.prems by (simp add: min_absorb2)
  moreover obtain ws where "length ws = n" "enc32 ws = drop 4 bs"
    using Suc.IH [of "drop 4 bs"] Suc.prems by auto
  ultimately show ?case by (intro exI [of _ "?w # ws"]) (simp add: enc32_Cons)
qed simp

lemma mapped_buffer:
  assumes "mapped m b sz" "4 * (1 + n) \<le> sz" "unat b + sz \<le> 2 ^ 64"
  obtains h ws where "length ws = n" "bytes_at m b (enc32 (h # ws))" "unat b + 4 * (1 + n) \<le> 2 ^ 64"
proof -
  obtain bs where bs: "length bs = 4 * Suc n" "bytes_at m b bs"
    using mapped_bytes_at [OF mapped_mono [OF assms(1), of "4 * Suc n"]] assms(2) by auto
  then obtain us where us: "length us = Suc n" "enc32 us = bs" using words_of_bytes by blast
  then obtain h ws where "us = h # ws" by (cases us) auto
  then show ?thesis using that [of ws h] us bs assms(2, 3) by simp
qed


subsection \<open>The lock\<close>

lemma spin_lock:
  "spin (compare_exchange 0 1) st = (if random_lock st = 0 then Some (st\<lparr>random_lock := 1\<rparr>) else None)"
proof (cases "random_lock st = 0")
  case True
  then show ?thesis by (subst spin.simps) (simp add: compare_exchange_def)
next
  case False
  have "random_lock st = 0" if "spin (compare_exchange 0 1) st = Some st'" for st'
    by (rule spin.raw_induct [where P = "\<lambda>c st _. c = compare_exchange 0 1 \<longrightarrow> random_lock st = 0",
          OF _ that, THEN mp, OF _ refl])
      (auto simp: compare_exchange_def Let_def split: if_splits)
  with False show ?thesis by (cases "spin (compare_exchange 0 1) st") auto
qed

lemmas call_defs = exec_value_def exec_unit_def random_code_def srandom_code_def
  initstate_code_def setstate_code_def lock_def unlock_def spin_lock

lemma gen_repr_lock [simp]: "gen_repr a (st\<lparr>random_lock := l\<rparr>) g = gen_repr a st g"
  by (simp add: gen_repr_def active_def)

lemma gen_rel_lock [simp]: "gen_rel a (st\<lparr>random_lock := l\<rparr>) g = gen_rel a st g"
  by (simp add: gen_rel_def)


subsection \<open>Generators behind a lock\<close>

text \<open>
  The state between two operations: the generator at \<open>b\<close> is active, the lock is free, and a
  generator set aside at \<open>a\<close> is in memory that the active one does not use.
\<close>

definition ready :: "ptr \<Rightarrow> random_state \<Rightarrow> generator \<Rightarrow> bool" where
  "ready b st g \<longleftrightarrow> gen_rel b st g \<and> random_lock st = 0"

definition aside :: "ptr \<Rightarrow> generator \<Rightarrow> ptr \<Rightarrow> random_state \<Rightarrow> generator \<Rightarrow> bool" where
  "aside a g0 b st g \<longleftrightarrow> ready b st g \<and> saved a (rmem st) g0
     \<and> disjoint_spans b (buf_size g) a (buf_size g0)"

lemma frame_saved:
  assumes "frame b n st st'" "saved a (rmem st) g0" "disjoint_spans b n a (buf_size g0)" "n \<le> 2 ^ 64"
  shows "saved a (rmem st') g0"
proof -
  obtain bs where bs: "length bs = n" "rmem st' = put (rmem st) b bs"
    using assms(1) by (auto simp: frame_def)
  then show ?thesis using saved_put [OF assms(2), of b bs] assms(3, 4) by simp
qed

lemma buf_size_le: "gen_rel b st g \<Longrightarrow> buf_size g \<le> 2 ^ 64"
  by (auto simp: gen_rel_def gen_repr_def buffer_def buf_size_def)

lemma aside_step:
  assumes "aside a g0 b st g" "ready b st' g'" "frame b (buf_size g) st st'"
    "buf_size g' = buf_size g"
  shows "aside a g0 b st' g'"
proof -
  have "gen_rel b st g" using assms(1) by (simp add: aside_def ready_def)
  then have "saved a (rmem st') g0"
    using assms(1) by (intro frame_saved [OF assms(3)] buf_size_le) (auto simp: aside_def)
  with assms show ?thesis by (simp add: aside_def)
qed

lemma buf_size_step [simp]:
  "gen_shape g \<Longrightarrow> buf_size (gen_seed seed g) = buf_size g"
  "gen_shape g \<Longrightarrow> buf_size (snd (gen_next g)) = buf_size g"
  using gen_shapeD [of g] by (auto simp: buf_size_def gen_seed_def gen_next_def Let_def)

lemma random_ready:
  assumes "ready b st g"
  shows "\<exists>st'. random st = Some (ucast (fst (gen_next g)), st') \<and> ready b st' (snd (gen_next g))
    \<and> frame b (buf_size g) st st'"
proof -
  have "gen_rel b (st\<lparr>random_lock := 1\<rparr>) g" "random_lock st = 0"
    using assms by (simp_all add: ready_def)
  then obtain st' where st': "random_locked (st\<lparr>random_lock := 1\<rparr>) = Some (ucast (fst (gen_next g)), st')"
      "gen_rel b st' (snd (gen_next g))" "frame b (buf_size g) (st\<lparr>random_lock := 1\<rparr>) st'"
    using random_locked_refines by blast
  then show ?thesis
    using \<open>random_lock st = 0\<close>
    by (auto simp: call_defs ready_def frame_def)
qed

lemma srandom_ready:
  assumes "ready b st g"
  shows "\<exists>st'. srandom seed st = Some st' \<and> ready b st' (gen_seed seed g)
    \<and> frame b (buf_size g) st st'"
proof -
  have "gen_shape g" "gen_repr b (st\<lparr>random_lock := 1\<rparr>) g" "random_lock st = 0"
    using assms by (simp_all add: ready_def gen_rel_def gen_ok_def)
  then obtain st' where st': "srandom_locked seed (st\<lparr>random_lock := 1\<rparr>) = Some st'"
      "gen_rel b st' (gen_seed seed g)" "frame b (buf_size g) (st\<lparr>random_lock := 1\<rparr>) st'"
    using srandom_locked_refines by blast
  then show ?thesis
    using \<open>random_lock st = 0\<close>
    by (auto simp: call_defs ready_def frame_def)
qed

lemma random_boot_ready:
  assumes "unat a + 128 \<le> 2 ^ 64" "mapped m a 128"
  shows "ready a (random_boot a m)
    \<lparr>degree = 31, front = 3, rear = 0, nums = tl RANDOM_INIT\<rparr>"
proof -
  have "RANDOM_INIT = 0 # tl RANDOM_INIT" by (simp add: RANDOM_INIT_def)
  moreover have len: "length RANDOM_INIT = 32" by (simp add: RANDOM_INIT_def)
  moreover have "bytes_at (put m a (enc32 RANDOM_INIT)) a (enc32 RANDOM_INIT)"
    by (rule bytes_at_put) (simp add: len)
  ultimately have "buffer (put m a (enc32 RANDOM_INIT)) a 0
      \<lparr>degree = 31, front = 3, rear = 0, nums = tl RANDOM_INIT\<rparr>"
    using assms(1) by (simp add: buffer_def)
  then show ?thesis
    using len by (auto simp: ready_def gen_rel_def gen_repr_def gen_ok_def gen_shape_def
        random_boot_def active_def N_DEFAULT_def)
qed


subsection \<open>Sequences of numbers\<close>

datatype random_op = Next | Seed c_uint

fun random_step :: "random_op \<Rightarrow> random_state \<times> i64 list \<Rightarrow> (random_state \<times> i64 list) option" where
  "random_step Next (st, out) = do { (r, st') \<leftarrow> random st; Some (st', out @ [r]) }"
| "random_step (Seed s) (st, out) = do { st' \<leftarrow> srandom s st; Some (st', out) }"

fun gen_step :: "random_op \<Rightarrow> generator \<times> i64 list \<Rightarrow> generator \<times> i64 list" where
  "gen_step Next (g, out) = (snd (gen_next g), out @ [ucast (fst (gen_next g))])"
| "gen_step (Seed s) (g, out) = (gen_seed s g, out)"

fun out_rel :: "ptr \<Rightarrow> generator \<Rightarrow> ptr \<Rightarrow> random_state \<times> i64 list \<Rightarrow> generator \<times> i64 list \<Rightarrow> bool" where
  "out_rel a g0 b (st, out) (g, out') \<longleftrightarrow> aside a g0 b st g \<and> out = out'"

interpretation random: simulation "out_rel a g0 b" random_step gen_step for a g0 b
proof unfold_locales
  fix s c x
  assume rel: "out_rel a g0 b s c"
  obtain st out g where s: "s = (st, out)" "c = (g, out)" "aside a g0 b st g"
    using rel by (cases s; cases c) auto
  then have r: "ready b st g" "gen_shape g"
    by (auto simp: aside_def ready_def gen_rel_def gen_ok_def)
  show "\<exists>s'. random_step x s = Some s' \<and> out_rel a g0 b s' (gen_step x c)"
  proof (cases x)
    case Next
    then show ?thesis
      using random_ready [OF r(1)] aside_step [OF s(3)] r(2) by (fastforce simp: s)
  next
    case (Seed seed)
    then show ?thesis
      using srandom_ready [OF r(1), of seed] aside_step [OF s(3)] r(2) by (fastforce simp: s)
  qed
qed


subsection \<open>Exchanging generators\<close>

definition size_degree :: "nat \<Rightarrow> nat" where
  "size_degree n = (if n < 32 then 0 else if n < 64 then 7 else if n < 128 then 15
     else if n < 256 then 31 else 63)"

definition gen_init :: "c_uint \<Rightarrow> nat \<Rightarrow> generator \<Rightarrow> generator" where
  "gen_init seed n g = gen_seed seed (g\<lparr>degree := n, nums := replicate (max 1 n) 0\<rparr>)"

lemma degree_of_size_eq: "degree_of_size sz = of_nat (size_degree (unat sz))"
  by (simp add: degree_of_size_def size_degree_def word_less_nat_alt)

lemma size_degree_bounds:
  "8 \<le> n \<Longrightarrow> 4 * (1 + max 1 (size_degree n)) \<le> n"
  "size_degree n \<in> {0, 7, 15, 31, 63}"
  by (auto simp: size_degree_def)

lemma gen_seed_nums: "gen_seed seed (g\<lparr>nums := ws\<rparr>) = gen_seed seed (g\<lparr>nums := ws'\<rparr>)"
  by (simp add: gen_seed_def Let_def)

text \<open>Saving writes the header of the active generator, whose buffer can be loaded again then.\<close>

lemma savestate_ready:
  assumes "gen_rel a st g"
  shows "\<exists>st'. savestate st = Some (a, st') \<and> gen_rel a st' g \<and> saved a (rmem st') g
    \<and> frame a (buf_size g) st st'"
proof -
  have g: "gen_ok g" "gen_shape g" "gen_repr a st g"
    using assms by (simp_all add: gen_rel_def gen_ok_def)
  obtain h where buf: "buffer (rmem st) a h g" "a + 4 \<noteq> 0" using gen_reprE [OF g(2,3)] by metis
  let ?st' = "st\<lparr>rand_x := a + 4, rmem := put (rmem st) a (enc32 (header g # nums g))\<rparr>"
  note buf' = buffer_put [OF buf(1), of g "header g"]
  have "gen_rel a ?st' g" "saved a (rmem ?st') g"
    using g(1,3) buf(2) buf' by (auto simp: gen_rel_def gen_repr_def active_def saved_def)
  moreover have "frame a (buf_size g) st ?st'" by (auto simp: buf_size_def intro: frameI)
  ultimately show ?thesis using savestate_eq [OF g(2,3)] by blast
qed

text \<open>A buffer of the caller becomes the active one before it is seeded.\<close>

lemma install_buffer:
  assumes "gen_rel a st g" "8 \<le> sz" "mapped (rmem st) b sz" "unat b + sz \<le> 2 ^ 64"
  obtains ws where "length ws = max 1 (size_degree sz)"
    "gen_shape (g\<lparr>degree := size_degree sz, nums := ws\<rparr>)"
    "gen_repr b (st\<lparr>rand_n := of_nat (size_degree sz), rand_x := b + 4\<rparr>)
      (g\<lparr>degree := size_degree sz, nums := ws\<rparr>)"
proof -
  let ?n = "size_degree sz"
  obtain h ws where ws: "length ws = max 1 ?n" "bytes_at (rmem st) b (enc32 (h # ws))"
      "unat b + 4 * (1 + max 1 ?n) \<le> 2 ^ 64"
    using mapped_buffer [OF assms(3) size_degree_bounds(1) [OF assms(2)] assms(4)] by blast
  let ?g' = "g\<lparr>degree := ?n, nums := ws\<rparr>"
  have buf: "buffer (rmem st) b h ?g'" using ws by (simp add: buffer_def)
  have "b + 4 \<noteq> 0" using buffer_no_wrap [OF buf] ws(1) by simp
  then have "gen_repr b (st\<lparr>rand_n := of_nat ?n, rand_x := b + 4\<rparr>) ?g'"
    using buf assms(1) by (auto simp: gen_rel_def gen_repr_def active_def)
  moreover have "gen_shape ?g'"
    using assms(1) ws(1) size_degree_bounds(2) [of sz]
    by (auto simp: gen_rel_def gen_ok_def gen_shape_def)
  ultimately show ?thesis using that ws(1) by blast
qed

lemma initstate_ready:
  assumes "ready a st g" "8 \<le> unat sz" "mapped (rmem st) b (unat sz)"
    "unat b + unat sz \<le> 2 ^ 64" "disjoint_spans b (unat sz) a (buf_size g)"
  shows "\<exists>st'. initstate seed b sz st = Some (a, st')
    \<and> aside a g b st' (gen_init seed (size_degree (unat sz)) g)"
proof -
  let ?n = "size_degree (unat sz)"
  have lock0: "random_lock st = 0" "gen_rel a (st\<lparr>random_lock := 1\<rparr>) g"
    using assms(1) by (simp_all add: ready_def)
  obtain st1 where st1: "savestate (st\<lparr>random_lock := 1\<rparr>) = Some (a, st1)" "gen_rel a st1 g"
      "saved a (rmem st1) g" "frame a (buf_size g) (st\<lparr>random_lock := 1\<rparr>) st1"
    using savestate_ready [OF lock0(2)] by blast
  have "mapped (rmem st1) b (unat sz)"
    using st1(4) assms(3) by (auto simp: frame_def mapped_put)
  then obtain ws where g2: "length ws = max 1 ?n" "gen_shape (g\<lparr>degree := ?n, nums := ws\<rparr>)"
      "gen_repr b (st1\<lparr>rand_n := of_nat ?n, rand_x := b + 4\<rparr>) (g\<lparr>degree := ?n, nums := ws\<rparr>)"
    using install_buffer [OF st1(2) assms(2) _ assms(4)] by blast
  let ?st2 = "st1\<lparr>rand_n := of_nat ?n, rand_x := b + 4\<rparr>" and ?g2 = "g\<lparr>degree := ?n, nums := ws\<rparr>"
  have g3: "gen_seed seed ?g2 = gen_init seed ?n g" unfolding gen_init_def
    using gen_seed_nums [where g = "g\<lparr>degree := ?n\<rparr>" and ws = ws] by simp
  obtain st3 where st3: "srandom_locked seed ?st2 = Some st3" "gen_rel b st3 (gen_init seed ?n g)"
      "frame b (buf_size ?g2) ?st2 st3"
    using srandom_locked_refines [OF g2(2,3), of seed] unfolding g3 by blast
  obtain st4 where st4: "savestate st3 = Some (b, st4)" "gen_rel b st4 (gen_init seed ?n g)"
      "frame b (buf_size (gen_init seed ?n g)) st3 st4"
    using savestate_ready [OF st3(2)] by blast
  have size: "buf_size (gen_init seed ?n g) = buf_size ?g2" "buf_size ?g2 \<le> unat sz"
    using g2(1,2) g3 buf_size_step(1) [of ?g2 seed] size_degree_bounds(1) [OF assms(2)]
    by (simp_all add: buf_size_def)
  have disj: "disjoint_spans b (buf_size ?g2) a (buf_size g)"
    using assms(5) span_mono [OF size(2), of b] by blast
  have le: "buf_size ?g2 \<le> 2 ^ 64" using size(2) assms(4) by linarith
  have "saved a (rmem st3) g" using frame_saved [OF st3(3) _ disj le] st1(3) by simp
  then have "saved a (rmem st4) g" using frame_saved [OF st4(3)] disj le size(1) by simp
  then have "aside a g b (st4\<lparr>random_lock := 0\<rparr>) (gen_init seed ?n g)"
    using st4(2) disj size(1) by (simp add: aside_def ready_def)
  moreover have "\<not> sz < 8" using assms(2) by (simp add: word_less_nat_alt)
  then have "initstate seed b sz st = Some (a, st4\<lparr>random_lock := 0\<rparr>)"
    using lock0(1) st1(1) st3(1) st4(1)
    by (simp add: call_defs initstate_locked_def degree_of_size_eq Let_def)
  ultimately show ?thesis by blast
qed

lemma setstate_ready:
  assumes "aside a g0 b st g"
  shows "\<exists>st'. setstate a st = Some (b, st') \<and> aside b g a st' g0"
proof -
  have g: "gen_rel b (st\<lparr>random_lock := 1\<rparr>) g" "random_lock st = 0" "saved a (rmem st) g0"
      "disjoint_spans b (buf_size g) a (buf_size g0)"
    using assms by (simp_all add: aside_def ready_def)
  obtain st1 where st1: "savestate (st\<lparr>random_lock := 1\<rparr>) = Some (b, st1)" "saved b (rmem st1) g"
      "frame b (buf_size g) (st\<lparr>random_lock := 1\<rparr>) st1"
    using savestate_ready [OF g(1)] by blast
  have saved0: "saved a (rmem st1) g0"
    using frame_saved [OF st1(3)] g(3,4) buf_size_le [OF g(1)] by simp
  let ?st2 = "st1\<lparr>rand_x := a + 4, rand_n := of_nat (degree g0), rand_i := of_nat (front g0),
      rand_j := of_nat (rear g0)\<rparr>"
  have "a + 4 \<noteq> 0"
    using buffer_no_wrap [of "rmem st1" a "header g0" g0] saved0 gen_okD(4) [of g0]
    by (simp add: saved_def)
  then have "aside b g a (?st2\<lparr>random_lock := 0\<rparr>) g0"
    using saved0 st1(2) g(4) disjoint_spans_commute
    by (auto simp: aside_def ready_def gen_rel_def gen_repr_def saved_def active_def)
  moreover have "setstate a st = Some (b, ?st2\<lparr>random_lock := 0\<rparr>)"
    using g(2) st1(1) loadstate_eq [OF saved0] by (simp add: call_defs setstate_locked_def)
  ultimately show ?thesis by blast
qed


subsection \<open>Correctness\<close>

definition boot_gen :: generator where
  "boot_gen = \<lparr>degree = 31, front = 3, rear = 0, nums = tl RANDOM_INIT\<rparr>"

text \<open>
  The table of the built-in state is the seed 1: a program that calls \<open>random\<close> first gets the
  numbers it would get after \<open>srandom(1)\<close>.
\<close>

theorem random_init_is_seed_1: "gen_seed 1 boot_gen = boot_gen"
proof -
  have "seed_words 31 1 = tl RANDOM_INIT"
    by code_simp
  moreover have "(tl RANDOM_INIT)[0 := tl RANDOM_INIT ! 0 OR 1] = tl RANDOM_INIT"
    by (simp add: RANDOM_INIT_def)
  ultimately show ?thesis by (simp add: gen_seed_def boot_gen_def Let_def)
qed

lemma gen_next_bound: "0 \<le> sint (ucast (fst (gen_next g)) :: i64) \<and> sint (ucast (fst (gen_next g)) :: i64) < 2 ^ 31"
proof -
  have "(0x7fffffff :: u32) = mask 31" by (simp add: mask_eq_exp_minus_1)
  then have l: "lcg31 x = take_bit 31 (1103515245 * x + 12345)" for x
    by (simp only: lcg31_def take_bit_eq_mask)
  have "uint (lcg31 x) < 2 ^ 31" for x
    unfolding l unsigned_take_bit_eq by (rule take_bit_int_less_exp)
  moreover have "uint (drop_bit 1 v) < 2 ^ 31" for v :: u32
    using uint_lt2p [of v] by (simp add: drop_bit_eq_div uint_div)
  ultimately have b: "uint (fst (gen_next g)) < 2 ^ 31"
    by (simp add: gen_next_def Let_def)
  then have "uint (ucast (fst (gen_next g)) :: i64) = uint (fst (gen_next g))"
    by (simp add: unsigned_ucast_eq take_bit_int_eq_self)
  with b show ?thesis by (simp add: sint_64)
qed

text \<open>
  C17. \<open>random\<close> computes the next number of the generator, in \<open>0 .. 2\<^sup>3\<^sup>1 - 1\<close>, leaves the lock free
  and writes nothing but the active buffer; \<open>srandom\<close> seeds the generator in the same way. In
  a well-formed state neither can fail.
\<close>

theorem random_refines_generator:
  assumes "ready b st g"
  shows "(\<exists>st' r. random st = Some (r, st') \<and> r = ucast (fst (gen_next g))
      \<and> 0 \<le> sint r \<and> sint r < 2 ^ 31 \<and> ready b st' (snd (gen_next g))
      \<and> frame b (buf_size g) st st')
    \<and> (\<exists>st'. srandom seed st = Some st' \<and> ready b st' (gen_seed seed g)
      \<and> frame b (buf_size g) st st')"
  using random_ready [OF assms] srandom_ready [OF assms, of seed] gen_next_bound [of g] by auto

text \<open>A memory of 256 bytes at 4096 for concrete inputs, with the built-in buffer at its start.\<close>

definition random_demo :: random_state where
  "random_demo = random_boot 4096 (mem_of 4096 (replicate 256 0))"

lemma random_demo_mapped:
  "i + n \<le> 256 \<Longrightarrow> mapped (mem_of 4096 (replicate 256 0)) (4096 + of_nat i) n"
  using mapped_shift [OF bytes_at_mapped [OF bytes_at_mem_of [of "replicate 256 (0 :: u8)" 4096]]]
  by simp

lemma random_demo_ready: "ready 4096 random_demo boot_gen"
  unfolding random_demo_def boot_gen_def
  using random_demo_mapped [of 0 128] by (intro random_boot_ready) simp_all

theorem random_refines_generator_witness:
  "\<exists>st' r. random random_demo = Some (r, st') \<and> 0 \<le> sint r \<and> sint r < 2 ^ 31
    \<and> ready 4096 st' (snd (gen_next boot_gen))"
  using random_refines_generator [OF random_demo_ready] by blast


subsection \<open>Seeds determine the numbers\<close>

text \<open>The part of a generator that its numbers depend on.\<close>

definition gen_eq :: "generator \<Rightarrow> generator \<Rightarrow> bool" where
  "gen_eq g g' \<longleftrightarrow> degree g = degree g' \<and> nums g = nums g'
     \<and> (degree g \<noteq> 0 \<longrightarrow> front g = front g' \<and> rear g = rear g')"

lemma gen_eq_next:
  "gen_eq g g' \<Longrightarrow> fst (gen_next g) = fst (gen_next g') \<and> gen_eq (snd (gen_next g)) (snd (gen_next g'))"
  by (auto simp: gen_eq_def gen_next_def Let_def)

lemma gen_eq_seed: "degree g = degree g' \<Longrightarrow> gen_eq (gen_seed s g) (gen_seed s g')"
  by (auto simp: gen_eq_def gen_seed_def Let_def)

lemma gen_eq_run:
  "gen_eq g g' \<Longrightarrow>
    snd (fold gen_step (replicate k Next) (g, out)) = snd (fold gen_step (replicate k Next) (g', out))"
  by (induction k arbitrary: g g' out) (simp_all add: gen_eq_next)

fun ready_rel :: "ptr \<Rightarrow> random_state \<times> i64 list \<Rightarrow> generator \<times> i64 list \<Rightarrow> bool" where
  "ready_rel b (st, out) (g, out') \<longleftrightarrow> ready b st g \<and> out = out'"

interpretation alone: simulation "ready_rel b" random_step gen_step for b
proof unfold_locales
  fix s c x
  assume rel: "ready_rel b s c"
  obtain st out g where s: "s = (st, out)" "c = (g, out)" "ready b st g"
    using rel by (cases s; cases c) auto
  show "\<exists>s'. random_step x s = Some s' \<and> ready_rel b s' (gen_step x c)"
  proof (cases x)
    case Next
    then show ?thesis using random_ready [OF s(3)] by (auto simp: s)
  next
    case (Seed seed)
    then show ?thesis using srandom_ready [OF s(3), of seed] by (auto simp: s)
  qed
qed

text \<open>
  C34. The numbers after \<open>srandom\<close> depend on the seed and the degree of the generator alone: two
  states of the same degree that are seeded alike return the same sequence of any length.
\<close>

theorem srandom_determines_numbers:
  assumes "ready a st g" "ready b st' g'" "degree g = degree g'"
  shows "\<exists>out st1 st2. length out = k
    \<and> run_all random_step (Seed seed # replicate k Next) (st, []) = Some (st1, out)
    \<and> run_all random_step (Seed seed # replicate k Next) (st', []) = Some (st2, out)"
proof -
  let ?ops = "Seed seed # replicate k Next"
  have "ready_rel a (st, []) (g, [])" "ready_rel b (st', []) (g', [])" using assms(1, 2) by simp_all
  then obtain s1 s2 where s: "run_all random_step ?ops (st, []) = Some s1"
      "ready_rel a s1 (fold gen_step ?ops (g, []))"
      "run_all random_step ?ops (st', []) = Some s2"
      "ready_rel b s2 (fold gen_step ?ops (g', []))"
    using alone.run_all_simulates by metis
  have "snd (fold gen_step ?ops (g, [])) = snd (fold gen_step ?ops (g', []))"
    using gen_eq_run [OF gen_eq_seed [OF assms(3)]] by simp
  moreover have "length (snd (fold gen_step (replicate k Next) (u, out))) = length out + k" for u out
    by (induction k arbitrary: u out) simp_all
  then have "length (snd (fold gen_step ?ops (g, []))) = k" by simp
  ultimately show ?thesis using s
    by (cases s1; cases s2; cases "fold gen_step ?ops (g, [])"; cases "fold gen_step ?ops (g', [])") auto
qed

theorem srandom_determines_numbers_witness:
  "\<exists>out st1 st2. length out = 3
    \<and> run_all random_step (Seed 42 # replicate 3 Next) (random_demo, []) = Some (st1, out)
    \<and> run_all random_step (Seed 42 # replicate 3 Next) (random_demo, []) = Some (st2, out)"
  by (rule srandom_determines_numbers [OF random_demo_ready random_demo_ready]) simp


subsection \<open>Every run from program start\<close>

text \<open>
  C21. From program start no sequence of calls of \<open>random\<close> and \<open>srandom\<close> can fail: the state stays
  well formed (a generator laid out in the built-in buffer, indices in range, lock free) and
  every number handed out is at least 0 and below \<open>2 ^ 31\<close>.
\<close>

theorem random_well_formed:
  assumes "unat a + 128 \<le> 2 ^ 64" "mapped m a 128"
  shows "\<exists>st out g. run_all random_step ops (random_boot a m, []) = Some (st, out)
    \<and> ready a st g \<and> degree g = 31 \<and> (\<forall>r\<in>set out. 0 \<le> sint r \<and> sint r < 2 ^ 31)"
proof -
  let ?P = "\<lambda>(g, out). degree g = 31 \<and> (\<forall>r\<in>set out. 0 \<le> sint r \<and> sint (r :: i64) < 2 ^ 31)"
  have start: "ready_rel a (random_boot a m, []) (boot_gen, [])"
    using random_boot_ready [OF assms] by (simp add: boot_gen_def)
  have step: "?P (gen_step x c)" if "?P c" for x c
  proof -
    have "degree (snd (gen_next g)) = degree g" "degree (gen_seed s g) = degree g" for g s
      by (simp_all add: gen_next_def gen_seed_def Let_def)
    then show ?thesis using that gen_next_bound by (cases x; cases c) auto
  qed
  have init: "?P (boot_gen, [])" by (simp add: boot_gen_def)
  from alone.run_all_invariant [where P = ?P, OF start init step]
  obtain s c where "run_all random_step ops (random_boot a m, []) = Some s" "ready_rel a s c" "?P c"
    by blast
  then show ?thesis by (cases s; cases c) auto
qed

theorem random_well_formed_witness:
  "\<exists>st out g. run_all random_step [Next, Seed 7, Next] (random_demo, []) = Some (st, out)
    \<and> ready 4096 st g \<and> degree g = 31 \<and> (\<forall>r\<in>set out. 0 \<le> sint r \<and> sint r < 2 ^ 31)"
  unfolding random_demo_def
  by (rule random_well_formed) (use random_demo_mapped [of 0 128] in simp_all)


subsection \<open>initstate and setstate\<close>

text \<open>
  C5. \<open>initstate\<close> with a buffer of at least 8 bytes that does not overlap the active one returns
  the old buffer and starts a generator of the degree that the size allows; any numbers may be
  drawn and seeds set in between; \<open>setstate\<close> of the returned buffer brings back the old
  generator exactly, so that the next number is the one the old generator would have given.
\<close>

theorem initstate_setstate_roundtrip:
  assumes "ready a st g" "8 \<le> unat sz" "mapped (rmem st) b (unat sz)"
    "unat b + unat sz \<le> 2 ^ 64" "disjoint_spans b (unat sz) a (buf_size g)"
  shows "\<exists>st1 st2 out st3 r s s'. initstate seed b sz st = Some (a, st1)
    \<and> ready b st1 (gen_init seed (size_degree (unat sz)) g)
    \<and> run_all random_step ops (st1, []) = Some (st2, out)
    \<and> setstate a st2 = Some (b, st3) \<and> ready a st3 g
    \<and> random st = Some (r, s) \<and> random st3 = Some (r, s')"
proof -
  obtain st1 where st1: "initstate seed b sz st = Some (a, st1)"
      "aside a g b st1 (gen_init seed (size_degree (unat sz)) g)"
    using initstate_ready [OF assms] by blast
  then have "out_rel a g b (st1, []) (gen_init seed (size_degree (unat sz)) g, [])" by simp
  then obtain st2 out g2 where st2: "run_all random_step ops (st1, []) = Some (st2, out)"
      "aside a g b st2 g2"
    using random.run_all_simulates [of a g b "(st1, [])" _ ops]
    by (metis out_rel.elims(2))
  obtain st3 where st3: "setstate a st2 = Some (b, st3)" "aside b g2 a st3 g"
    using setstate_ready [OF st2(2)] by blast
  then have "ready a st3 g" by (simp add: aside_def)
  then show ?thesis
    using st1 st2(1) st3(1) random_ready [OF assms(1)] random_ready [of a st3 g]
    by (auto simp: aside_def)
qed

theorem initstate_setstate_roundtrip_witness:
  "\<exists>st1 st2 out st3 r s s'. initstate 7 4224 128 random_demo = Some (4096, st1)
    \<and> run_all random_step [Next, Seed 3, Next] (st1, []) = Some (st2, out)
    \<and> setstate 4096 st2 = Some (4224, st3) \<and> ready 4096 st3 boot_gen
    \<and> random random_demo = Some (r, s) \<and> random st3 = Some (r, s')"
proof -
  have "length (tl RANDOM_INIT) = 31" by (simp add: RANDOM_INIT_def)
  then have size: "buf_size boot_gen = 128" by (simp add: buf_size_def boot_gen_def)
  have "mapped (rmem random_demo) (4096 + of_nat 128) 128"
    unfolding random_demo_def random_boot_def random_state.select_convs
    by (intro mapped_put random_demo_mapped) simp
  then have mapped: "mapped (rmem random_demo) 4224 (unat (128 :: u64))" by simp
  have "disjoint_spans (4224 :: ptr) 128 4096 128" by (rule disjoint_spans_le) simp_all
  then have disj: "disjoint_spans (4224 :: ptr) (unat (128 :: u64)) 4096 (buf_size boot_gen)"
    by (simp add: size)
  show ?thesis
    using initstate_setstate_roundtrip
      [OF random_demo_ready _ mapped _ disj, of 7 "[Next, Seed 3, Next]"]
    by simp blast
qed

text \<open>
  A buffer below 8 bytes is refused with a null pointer, without taking the lock and without any
  effect.
\<close>

theorem initstate_rejects_small:
  assumes "unat sz < 8"
  shows "initstate seed b sz st = Some (0, st)"
  using assms by (simp add: call_defs word_less_nat_alt)

theorem initstate_rejects_small_witness:
  "initstate 1 4096 7 random_demo = Some (0, random_demo)"
  by (rule initstate_rejects_small) simp

end
