(* ===== verification/Spinlock.thy ===== *)
theory Spinlock
  imports Random_Gen
begin

section \<open>Threads and the lock of the random family\<close>

text \<open>
  The functions \<open>random\<close>, \<open>srandom\<close>, \<open>initstate\<close> and \<open>setstate\<close> of
  \<open>mytilus-prng/src/lib.rs\<close> called by any number of threads. The threads run the statement lists
  that theory \<open>Random_Gen\<close> has for these functions; the step relation knows the statements only,
  not the lock or the calls. A block of plain accesses is not atomic: a thread first reads the
  statics and the buffers and later writes them back, so two threads in such blocks lose updates.
  The acquire and release orderings make the steps of the lock sequentially consistent with the
  accesses they guard, which the interleaving semantics takes as given. The specification is the
  sequence of the same calls, one after the other.
\<close>

subsection \<open>Calls\<close>

datatype call = Random | Srandom c_uint | Initstate c_uint ptr size_t | Setstate ptr

fun call_code :: "call \<Rightarrow> stmt list" where
  "call_code Random = random_code"
| "call_code (Srandom seed) = srandom_code seed"
| "call_code (Initstate seed state sz) = initstate_code seed state sz"
| "call_code (Setstate state) = setstate_code state"

text \<open>The call when no other thread runs.\<close>

definition api :: "call \<Rightarrow> random_state \<Rightarrow> (i64 \<times> random_state) option" where
  "api c st = exec_value (call_code c) st"


subsection \<open>The threads\<close>

text \<open>
  \<open>Run c p r\<close> has the statements \<open>p\<close> of the call \<open>c\<close> left and the result \<open>r\<close>, if there is one
  already. \<open>Work c f st p\<close> is in the middle of the plain accesses \<open>f\<close>, which it began in the state
  \<open>st\<close>.
\<close>

datatype thread =
    Idle
  | Run call "stmt list" "i64 option"
  | Work call "random_state \<Rightarrow> (i64 \<times> random_state) option" random_state "stmt list"

text \<open>\<open>log\<close> has the calls in the order of their accesses, \<open>returned\<close> what each thread got back.\<close>

record sys =
  shared :: random_state
  threads :: "nat \<Rightarrow> thread"
  log :: "(nat \<times> call \<times> i64) list"
  returned :: "nat \<Rightarrow> (call \<times> i64) list"

definition go :: "nat \<Rightarrow> thread \<Rightarrow> sys \<Rightarrow> sys" where
  "go t p s = s\<lparr>threads := (threads s)(t := p)\<rparr>"

definition record_call :: "nat \<Rightarrow> call \<Rightarrow> i64 \<Rightarrow> sys \<Rightarrow> sys" where
  "record_call t c r s = s\<lparr>log := log s @ [(t, c, r)]\<rparr>"

text \<open>The steps of the threads, which make the calls of the set \<open>A\<close>.\<close>

inductive step :: "call set \<Rightarrow> sys \<Rightarrow> sys \<Rightarrow> bool" for A where
  start: "threads s t = Idle \<Longrightarrow> c \<in> A \<Longrightarrow> step A s (go t (Run c (call_code c) None) s)"
| again: "threads s t = Run c (Until f # p) r \<Longrightarrow> f (shared s) = (False, st) \<Longrightarrow>
    step A s (s\<lparr>shared := st\<rparr>)"
| leave: "threads s t = Run c (Until f # p) r \<Longrightarrow> f (shared s) = (True, st) \<Longrightarrow>
    step A s (go t (Run c p r) (s\<lparr>shared := st\<rparr>))"
| atomic: "threads s t = Run c (Atomic f # p) r \<Longrightarrow>
    step A s (go t (Run c p r) (s\<lparr>shared := f (shared s)\<rparr>))"
| load: "threads s t = Run c (Plain f # p) r \<Longrightarrow> step A s (go t (Work c f (shared s) p) s)"
| commit: "threads s t = Work c f st p \<Longrightarrow> f st = Some (v, st') \<Longrightarrow>
    step A s (go t (Run c p (Some v)) (record_call t c v
      (s\<lparr>shared := st'\<lparr>random_lock := random_lock (shared s)\<rparr>\<rparr>)))"
| give: "threads s t = Run c (Give v # p) r \<Longrightarrow>
    step A s (go t (Run c p (Some v)) (record_call t c v s))"
| return: "threads s t = Run c [] (Some v) \<Longrightarrow>
    step A s (go t Idle (s\<lparr>returned := (returned s)(t := returned s t @ [(c, v)])\<rparr>))"

inductive_cases stepE: "step A s s'"

definition sys_init :: "random_state \<Rightarrow> sys" where
  "sys_init st = \<lparr>shared = st, threads = (\<lambda>_. Idle), log = [], returned = (\<lambda>_. [])\<rparr>"

inductive reach :: "call set \<Rightarrow> random_state \<Rightarrow> sys \<Rightarrow> bool" for A st where
  init: "reach A st (sys_init st)"
| more: "reach A st s \<Longrightarrow> step A s s' \<Longrightarrow> reach A st s'"

text \<open>
  A thread whose next or current accesses are to the data under the lock, or whose next step is the
  release. The definition looks at the statements that are left, not at how it got there.
\<close>

fun inside :: "thread \<Rightarrow> bool" where
  "inside (Run c (Plain f # p) r) \<longleftrightarrow> True"
| "inside (Run c (Atomic f # p) r) \<longleftrightarrow> True"
| "inside (Work c f st p) \<longleftrightarrow> True"
| "inside _ \<longleftrightarrow> False"

fun in_call :: "thread \<Rightarrow> call option" where
  "in_call Idle = None"
| "in_call (Run c p r) = Some c"
| "in_call (Work c f st p) = Some c"

text \<open>A call that is in the log and has not returned yet.\<close>

fun pending :: "thread \<Rightarrow> (call \<times> i64) list" where
  "pending (Run c p (Some v)) = [(c, v)]"
| "pending _ = []"

definition results :: "nat \<Rightarrow> (nat \<times> call \<times> i64) list \<Rightarrow> (call \<times> i64) list" where
  "results t xs = map snd (filter (\<lambda>(u, _). u = t) xs)"

text \<open>The calls of the log, made one after the other, with the results they returned.\<close>

fun replay :: "(nat \<times> call \<times> i64) list \<Rightarrow> random_state \<Rightarrow> random_state option" where
  "replay [] st = Some st"
| "replay ((t, c, r) # xs) st =
     (case api c st of
       None \<Rightarrow> None
     | Some (r', st') \<Rightarrow> if r' = r then replay xs st' else None)"

lemma replay_append: "replay (xs @ ys) st = replay xs st \<bind> replay ys"
  by (induction xs arbitrary: st) (auto split: option.splits)

lemma step_simps [simp]:
  "shared (go t p s) = shared s" "log (go t p s) = log s" "returned (go t p s) = returned s"
  "threads (go t p s) = (threads s)(t := p)"
  "shared (record_call t c v s) = shared s" "threads (record_call t c v s) = threads s"
  "returned (record_call t c v s) = returned s" "log (record_call t c v s) = log s @ [(t, c, v)]"
  by (simp_all add: go_def record_call_def)


subsection \<open>The shape of the calls\<close>

text \<open>Every function is its body between \<open>lock\<close> and \<open>unlock\<close>, or returns at once.\<close>

fun body :: "call \<Rightarrow> random_state \<Rightarrow> (i64 \<times> random_state) option" where
  "body Random = random_locked"
| "body (Srandom seed) = (\<lambda>st. map_option (\<lambda>st'. (0, st')) (srandom_locked seed st))"
| "body (Initstate seed state sz) = initstate_locked seed state sz"
| "body (Setstate state) = setstate_locked state"

fun locks :: "call \<Rightarrow> bool" where
  "locks (Initstate seed state sz) \<longleftrightarrow> \<not> sz < 8"
| "locks _ \<longleftrightarrow> True"

abbreviation guarded :: "call \<Rightarrow> stmt list" where
  "guarded c \<equiv> Plain (body c) # unlock"

lemma call_code_eq: "call_code c = (if locks c then Until (compare_exchange 0 1) # guarded c else [Give 0])"
  by (cases c) (simp_all add: random_code_def srandom_code_def initstate_code_def
      setstate_code_def lock_def)

lemma api_refused: "\<not> locks c \<Longrightarrow> api c st = Some (0, st)"
  by (simp add: api_def exec_value_def call_code_eq)

lemma api_locked:
  "locks c \<Longrightarrow> random_lock st = 0 \<Longrightarrow>
    api c st = map_option (\<lambda>(v, st'). (v, st'\<lparr>random_lock := 0\<rparr>)) (body c (st\<lparr>random_lock := 1\<rparr>))"
  by (cases "body c (st\<lparr>random_lock := 1\<rparr>)")
    (auto simp: api_def exec_value_def call_code_eq spin_lock unlock_def)


subsection \<open>The invariant\<close>

text \<open>Where a thread can be when the shared state is \<open>sh\<close>.\<close>

fun fits :: "random_state \<Rightarrow> thread \<Rightarrow> bool" where
  "fits sh Idle \<longleftrightarrow> True"
| "fits sh (Run c p r) \<longleftrightarrow> p = call_code c \<and> r = None \<or> locks c \<and> p = guarded c \<and> r = None
     \<or> locks c \<and> p = unlock \<and> r \<noteq> None \<or> p = [] \<and> r \<noteq> None"
| "fits sh (Work c f st p) \<longleftrightarrow> locks c \<and> f = body c \<and> st = sh \<and> p = unlock"

lemma fits_until:
  "fits sh (Run c (Until f # p) r) \<longleftrightarrow> locks c \<and> f = compare_exchange 0 1 \<and> p = guarded c \<and> r = None"
  by (auto simp: call_code_eq unlock_def)

lemma fits_atomic: "fits sh (Run c (Atomic f # p) r) \<longleftrightarrow> locks c \<and> Atomic f # p = unlock \<and> r \<noteq> None"
  by (auto simp: call_code_eq unlock_def)

lemma fits_plain:
  "fits sh (Run c (Plain f # p) r) \<longleftrightarrow> locks c \<and> f = body c \<and> p = unlock \<and> r = None"
  by (auto simp: call_code_eq unlock_def)

lemma fits_give:
  "fits sh (Run c (Give v # p) r) \<longleftrightarrow> \<not> locks c \<and> v = 0 \<and> p = [] \<and> r = None"
  by (auto simp: call_code_eq unlock_def)

lemmas fits_cases = fits_until fits_atomic fits_plain fits_give

lemma fits_outside: "\<not> inside p \<Longrightarrow> fits sh p \<Longrightarrow> fits sh' p"
  by (cases p rule: inside.cases) auto

definition lock_inv :: "sys \<Rightarrow> bool" where
  "lock_inv s \<longleftrightarrow> (\<forall>t. fits (shared s) (threads s t))
     \<and> (\<forall>t u. inside (threads s t) \<and> inside (threads s u) \<longrightarrow> t = u)
     \<and> random_lock (shared s) = (if \<exists>t. inside (threads s t) then 1 else 0)"

lemma lock_invD:
  assumes "lock_inv s"
  shows "fits (shared s) (threads s t)"
    and "inside (threads s t) \<Longrightarrow> random_lock (shared s) = 1"
    and "inside (threads s t) \<Longrightarrow> u \<noteq> t \<Longrightarrow> \<not> inside (threads s u)"
    and "random_lock (shared s) = 0 \<Longrightarrow> \<not> inside (threads s t)"
  using assms by (auto simp: lock_inv_def split: if_splits)

text \<open>A step of the thread \<open>t\<close> to \<open>p\<close> and \<open>sh\<close>, when no other thread is inside, or when \<open>t\<close> stays out.\<close>

lemma lock_inv_alone:
  assumes "lock_inv s" "\<And>u. u \<noteq> t \<Longrightarrow> \<not> inside (threads s u)" "fits (shared s') p"
    and "random_lock (shared s') = (if inside p then 1 else 0)" "threads s' = (threads s)(t := p)"
  shows "lock_inv s'"
proof -
  have "fits (shared s') (threads s' u)" for u
    using fits_outside [OF assms(2) lock_invD(1) [OF assms(1)], of u] assms(3,5)
    by (cases "u = t") simp_all
  moreover have "inside (threads s' u) \<longleftrightarrow> u = t \<and> inside p" for u
    using assms(2,5) by (cases "u = t") auto
  ultimately show ?thesis using assms(4) by (auto simp: lock_inv_def)
qed

lemma lock_inv_outside:
  assumes "lock_inv s" "\<not> inside (threads s t)" "\<not> inside p" "fits (shared s) p"
    and "shared s' = shared s" "threads s' = (threads s)(t := p)"
  shows "lock_inv s'"
proof -
  have "inside (threads s' u) \<longleftrightarrow> inside (threads s u)" for u using assms(2,3,6) by simp
  moreover have "fits (shared s') (threads s' u)" for u
    using assms(1,4-6) lock_invD(1) [OF assms(1), of u] by simp
  ultimately show ?thesis using assms(1,5) by (simp add: lock_inv_def)
qed

lemma code_outside: "\<not> inside (Run c (call_code c) r)" "fits sh (Run c (call_code c) None)"
  by (simp_all add: call_code_eq)

lemma lock_inv_step:
  assumes "step A s s'" "lock_inv s"
  shows "lock_inv s'"
  using assms(1)
proof cases
  case (start t c)
  then show ?thesis
    using code_outside by (intro lock_inv_outside [OF assms(2), of t]) (simp_all del: fits.simps)
next
  case (again t c f p r st)
  have "f = compare_exchange 0 1"
    using lock_invD(1) [OF assms(2), of t] unfolding again(2) fits_cases by blast+
  then have "st = shared s" using again by (auto simp: compare_exchange_def split: if_splits)
  with again(1) assms(2) show ?thesis by simp
next
  case (leave t c f p r st)
  have at: "locks c" "f = compare_exchange 0 1" "p = guarded c" "r = None"
    using lock_invD(1) [OF assms(2), of t] unfolding leave(2) fits_cases by blast+
  then have "random_lock (shared s) = 0" "st = shared s\<lparr>random_lock := 1\<rparr>"
    using leave by (auto simp: compare_exchange_def split: if_splits)
  then show ?thesis
    using leave(1) at lock_invD(4) [OF assms(2)] by (intro lock_inv_alone [OF assms(2), of t]) auto
next
  case (atomic t c f p r)
  have "inside (threads s t)" using atomic by simp
  note others = lock_invD(3) [OF assms(2) this]
  have "Atomic f # p = unlock" "r \<noteq> None"
    using lock_invD(1) [OF assms(2), of t] unfolding atomic(2) fits_cases by blast+
  then show ?thesis
    using atomic(1) others by (intro lock_inv_alone [OF assms(2), of t]) (auto simp: unlock_def)
next
  case (load t c f p r)
  have "inside (threads s t)" using load by simp
  note in_t = lock_invD(2,3) [OF assms(2) this]
  have "locks c" "f = body c" "p = unlock"
    using lock_invD(1) [OF assms(2), of t] unfolding load(2) fits_cases by blast+
  then show ?thesis
    using load(1) in_t by (intro lock_inv_alone [OF assms(2), of t]) auto
next
  case (commit t c f st p v st')
  have "inside (threads s t)" using commit by simp
  note in_t = lock_invD(2,3) [OF assms(2) this]
  have "locks c" "p = unlock" using lock_invD(1) [OF assms(2), of t] commit(2) by simp_all
  then show ?thesis
    using commit(1) in_t by (intro lock_inv_alone [OF assms(2), of t]) (auto simp: unlock_def)
next
  case (give t c v p r)
  have "p = []" using lock_invD(1) [OF assms(2), of t] unfolding give(2) fits_cases by blast+
  then show ?thesis
    using give by (intro lock_inv_outside [OF assms(2), of t]) simp_all
next
  case (return t c v)
  then show ?thesis by (intro lock_inv_outside [OF assms(2), of t]) simp_all
qed

text \<open>
  The log is a run of the same calls without threads; of each thread it has the calls that
  returned, in their order, and then the one that is about to return, if there is one.
\<close>

definition log_inv :: "random_state \<Rightarrow> sys \<Rightarrow> bool" where
  "log_inv st s \<longleftrightarrow> replay (log s) st = Some (shared s\<lparr>random_lock := 0\<rparr>)
     \<and> (\<forall>t. results t (log s) = returned s t @ pending (threads s t))"

lemma results_append: "results t (xs @ [(u, c, r)]) = results t xs @ (if u = t then [(c, r)] else [])"
  by (simp add: results_def)

lemma log_inv_quiet:
  assumes "log_inv st s" "log s' = log s" "returned s' = returned s"
    and "pending p = pending (threads s t)" "shared s'\<lparr>random_lock := 0\<rparr> = shared s\<lparr>random_lock := 0\<rparr>"
    and "threads s' = (threads s)(t := p)"
  shows "log_inv st s'"
  using assms by (simp add: log_inv_def)

lemma log_inv_call:
  assumes "log_inv st s" "pending (threads s t) = []"
    and "api c (shared s\<lparr>random_lock := 0\<rparr>) = Some (v, shared s'\<lparr>random_lock := 0\<rparr>)"
    and "returned s' = returned s" "log s' = log s @ [(t, c, v)]"
    and "threads s' = (threads s)(t := Run c p (Some v))"
  shows "log_inv st s'"
  using assms by (simp add: log_inv_def replay_append results_append)

lemma log_inv_step:
  assumes "step A s s'" "lock_inv s" "log_inv st0 s"
  shows "log_inv st0 s'"
  using assms(1)
proof cases
  case (start t c)
  then show ?thesis by (intro log_inv_quiet [OF assms(3), of _ _ t]) simp_all
next
  case (again t c f p r st)
  have "f = compare_exchange 0 1"
    using lock_invD(1) [OF assms(2), of t] unfolding again(2) fits_cases by blast
  then have "st = shared s" using again by (auto simp: compare_exchange_def split: if_splits)
  with again(1) assms(3) show ?thesis by simp
next
  case (leave t c f p r st)
  have at: "f = compare_exchange 0 1" "r = None"
    using lock_invD(1) [OF assms(2), of t] unfolding leave(2) fits_cases by blast+
  then have "st = shared s\<lparr>random_lock := 1\<rparr>"
    using leave by (auto simp: compare_exchange_def split: if_splits)
  then show ?thesis using leave at by (intro log_inv_quiet [OF assms(3), of _ _ t]) simp_all
next
  case (atomic t c f p r)
  have "Atomic f # p = unlock"
    using lock_invD(1) [OF assms(2), of t] unfolding atomic(2) fits_cases by blast
  moreover have "pending (Run c ps r) = pending (Run c qs r)" for ps qs by (cases r) simp_all
  ultimately show ?thesis
    using atomic by (intro log_inv_quiet [OF assms(3), of _ _ t]) (simp_all add: unlock_def)
next
  case (load t c f p r)
  have "r = None" using lock_invD(1) [OF assms(2), of t] unfolding load(2) fits_cases by blast
  then show ?thesis using load by (intro log_inv_quiet [OF assms(3), of _ _ t]) simp_all
next
  case (commit t c f st p v st')
  have "inside (threads s t)" using commit by simp
  from lock_invD(2) [OF assms(2) this] have held: "shared s\<lparr>random_lock := 1\<rparr> = shared s" by simp
  have "locks c" "body c (shared s) = Some (v, st')"
    using lock_invD(1) [OF assms(2), of t] commit by simp_all
  then have "api c (shared s\<lparr>random_lock := 0\<rparr>) = Some (v, st'\<lparr>random_lock := 0\<rparr>)"
    by (simp add: api_locked held)
  then show ?thesis using commit by (intro log_inv_call [OF assms(3)]) simp_all
next
  case (give t c v p r)
  have "\<not> locks c" "v = 0" "r = None"
    using lock_invD(1) [OF assms(2), of t] unfolding give(2) fits_cases by blast+
  then show ?thesis
    using give by (intro log_inv_call [OF assms(3)]) (simp_all add: api_refused)
next
  case (return t c v)
  then show ?thesis using assms(3) by (auto simp: log_inv_def)
qed

lemma reach_inv:
  assumes "reach A st s" "random_lock st = 0"
  shows "lock_inv s \<and> log_inv st s"
  using assms(1)
proof induction
  case init
  then show ?case using assms(2) by (simp add: sys_init_def lock_inv_def log_inv_def results_def)
next
  case (more s s')
  then show ?case using lock_inv_step log_inv_step by blast
qed


subsection \<open>Correctness\<close>

text \<open>
  C11. Mutual exclusion: in every reachable state at most one of the threads that run the four
  functions is at its accesses to the guarded data or at the release behind them, and the lock
  word is 1 exactly when there is one.
\<close>

theorem mutual_exclusion:
  assumes "reach A st s" "random_lock st = 0"
  shows "(\<forall>t u. inside (threads s t) \<and> inside (threads s u) \<longrightarrow> t = u)
    \<and> (random_lock (shared s) = 1 \<longleftrightarrow> (\<exists>t. inside (threads s t)))"
  using reach_inv [OF assms] by (auto simp: lock_inv_def)

text \<open>
  C3. Whatever the interleaving of the statements, the calls behave as if they had been made one
  after the other in the order of the log: the sequential functions give the same results in that
  order and end in the shared state, so that no update is lost; and what a thread got back is
  what the log has for it, in its own order.
\<close>

theorem calls_linearize:
  assumes "reach A st s" "random_lock st = 0"
  shows "replay (log s) st = Some (shared s\<lparr>random_lock := 0\<rparr>)
    \<and> results t (log s) = returned s t @ pending (threads s t)"
  using reach_inv [OF assms] by (simp add: log_inv_def)


subsection \<open>Progress\<close>

lemma calls_allowed:
  assumes "reach A st s"
  shows "(in_call (threads s t) = Some c \<longrightarrow> c \<in> A) \<and> ((u, d, r) \<in> set (log s) \<longrightarrow> d \<in> A)"
  using assms
proof (induction arbitrary: t c u d r)
  case init
  then show ?case by (simp add: sys_init_def)
next
  case (more s s')
  have A: "in_call (threads s t) = Some c \<Longrightarrow> c \<in> A" "(u, d, r) \<in> set (log s) \<Longrightarrow> d \<in> A"
    for t c u d r using more.IH by blast+
  then have at: "threads s t = Run c p r \<Longrightarrow> c \<in> A" "threads s t = Work c f st p \<Longrightarrow> c \<in> A"
    for t c p r f st by (metis in_call.simps)+
  from more.hyps(2) show ?case by cases (auto split: if_splits intro: A at)
qed

lemma replay_ready:
  assumes "ready b st g" "replay xs st = Some st'" "\<And>t c r. (t, c, r) \<in> set xs \<Longrightarrow> c = Random \<or> (\<exists>s. c = Srandom s)"
  shows "\<exists>g'. ready b st' g'"
  using assms
proof (induction xs arbitrary: st g)
  case (Cons x xs)
  obtain t c r where x: "x = (t, c, r)" by (cases x)
  obtain st1 where st1: "api c st = Some (r, st1)" "replay xs st1 = Some st'"
    using Cons.prems(2) by (auto simp: x split: option.splits if_splits)
  have "c = Random \<or> (\<exists>s. c = Srandom s)" using Cons.prems(3) by (auto simp: x)
  then obtain g1 where "ready b st1 g1"
  proof
    assume "c = Random"
    then show ?thesis using that st1(1) random_ready [OF Cons.prems(1)] by (auto simp: api_def)
  next
    assume "\<exists>s. c = Srandom s"
    then obtain seed where "c = Srandom seed" ..
    then have "srandom seed st = Some st1" using st1(1) by (simp add: api_def exec_value_def exec_unit_def)
    then show ?thesis using that srandom_ready [OF Cons.prems(1), of seed] by auto
  qed
  then show ?case by (rule Cons.IH [OF _ st1(2)]) (use Cons.prems(3) in auto)
qed auto

lemma body_defined:
  assumes "ready b (st\<lparr>random_lock := 0\<rparr>) g" "c = Random \<or> (\<exists>s. c = Srandom s)"
  shows "\<exists>r st'. body c st = Some (r, st')"
proof -
  have g: "gen_rel b st g" using assms(1) by (simp add: ready_def)
  then have "gen_shape g" "gen_repr b st g" by (simp_all add: gen_rel_def gen_ok_def)
  then show ?thesis
    using assms(2) random_locked_refines [OF g] srandom_locked_refines by fastforce
qed

lemma body_returns:
  assumes "reach A st s" "ready b st g" "A \<subseteq> insert Random (range Srandom)"
    and "in_call (threads s t) = Some c"
  obtains v st' where "body c ((shared s)\<lparr>random_lock := l\<rparr>) = Some (v, st')"
proof -
  have "random_lock st = 0" using assms(2) by (simp add: ready_def)
  then have "replay (log s) st = Some (shared s\<lparr>random_lock := 0\<rparr>)"
    using reach_inv [OF assms(1)] by (simp add: log_inv_def)
  moreover have "d = Random \<or> (\<exists>seed. d = Srandom seed)" if "(u, d, r) \<in> set (log s)" for u d r
    using that calls_allowed [OF assms(1)] assms(3) by blast
  ultimately obtain g' where "ready b (shared s\<lparr>random_lock := 0\<rparr>) g'"
    using replay_ready [OF assms(2)] by blast
  moreover have "c = Random \<or> (\<exists>seed. c = Srandom seed)"
    using assms(3,4) calls_allowed [OF assms(1)] by blast
  ultimately show ?thesis using that body_defined [of b "(shared s)\<lparr>random_lock := l\<rparr>" g' c] by auto
qed

text \<open>From \<open>s\<close>, thread \<open>t\<close> can return from its call, and the others stay where they are.\<close>

definition finishes :: "nat \<Rightarrow> call \<Rightarrow> sys \<Rightarrow> sys \<Rightarrow> bool" where
  "finishes t c s s' \<longleftrightarrow> (step {})\<^sup>*\<^sup>* s s' \<and> threads s' = (threads s)(t := Idle)
     \<and> (\<exists>r. returned s' = (returned s)(t := returned s t @ [(c, r)]))"

lemma finishes_step:
  assumes "step {} s s1" "threads s1 = (threads s)(t := p)" "returned s1 = returned s"
    and "\<exists>s'. finishes t c s1 s'"
  shows "\<exists>s'. finishes t c s s'"
  using assms unfolding finishes_def by (metis converse_rtranclp_into_rtranclp fun_upd_upd)

lemma finishes_return:
  assumes "threads s t = Run c [] (Some v)"
  shows "\<exists>s'. finishes t c s s'"
proof -
  have "finishes t c s (go t Idle (s\<lparr>returned := (returned s)(t := returned s t @ [(c, v)])\<rparr>))"
    using step.return [OF assms] unfolding finishes_def by (auto intro: exI [of _ v])
  then show ?thesis ..
qed

lemma finishes_unlock:
  assumes "threads s t = Run c unlock (Some v)"
  shows "\<exists>s'. finishes t c s s'"
  by (rule finishes_step [OF step.atomic [OF assms [unfolded unlock_def]]])
    (simp_all add: finishes_return)

lemma finishes_work:
  assumes "threads s t = Work c f st unlock" "f st = Some (v, st')"
  shows "\<exists>s'. finishes t c s s'"
  by (rule finishes_step [OF step.commit [OF assms]]) (simp_all add: finishes_unlock)

lemma finishes_plain:
  assumes "threads s t = Run c (Plain f # unlock) r" "f (shared s) = Some (v, st')"
  shows "\<exists>s'. finishes t c s s'"
  by (rule finishes_step [OF step.load [OF assms(1)]]) (use assms(2) in \<open>simp_all add: finishes_work\<close>)

lemma finishes_spin:
  assumes "threads s t = Run c (Until (compare_exchange 0 1) # guarded c) r"
    and "random_lock (shared s) = 0" "body c ((shared s)\<lparr>random_lock := 1\<rparr>) = Some (v, st')"
  shows "\<exists>s'. finishes t c s s'"
proof -
  have "compare_exchange 0 1 (shared s) = (True, (shared s)\<lparr>random_lock := 1\<rparr>)"
    using assms(2) by (simp add: compare_exchange_def)
  from finishes_step [OF step.leave [OF assms(1) this]] show ?thesis
    using assms(3) by (simp add: finishes_plain)
qed

lemma inside_finishes:
  assumes "reach A st s" "ready b st g" "A \<subseteq> insert Random (range Srandom)"
    and "in_call (threads s t) = Some c" "inside (threads s t)"
  shows "\<exists>s'. finishes t c s s'"
proof -
  obtain v st' where "body c ((shared s)\<lparr>random_lock := random_lock (shared s)\<rparr>) = Some (v, st')"
    using body_returns [OF assms(1-4)] .
  then have returns: "body c (shared s) = Some (v, st')" by simp
  have "lock_inv s" using reach_inv [OF assms(1)] assms(2) by (simp add: ready_def)
  from lock_invD(1) [OF this, of t] have at: "fits (shared s) (threads s t)" .
  from assms(4,5) consider
      (plain) f p r where "threads s t = Run c (Plain f # p) r"
    | (atomic) f p r where "threads s t = Run c (Atomic f # p) r"
    | (work) f st1 p where "threads s t = Work c f st1 p"
    by (cases "threads s t" rule: inside.cases) auto
  then show ?thesis
  proof cases
    case plain
    then have "f = body c" "p = unlock" using at unfolding plain fits_cases by blast+
    then show ?thesis using plain returns finishes_plain by blast
  next
    case atomic
    then have "Atomic f # p = unlock" "r \<noteq> None" using at unfolding atomic fits_cases by blast+
    then show ?thesis using atomic finishes_unlock by fastforce
  next
    case work
    with at returns show ?thesis by (auto intro: finishes_work)
  qed
qed

lemma outside_finishes:
  assumes "reach A st s" "ready b st g" "A \<subseteq> insert Random (range Srandom)"
    and "in_call (threads s t) = Some c" "\<not> inside (threads s t)" "random_lock (shared s) = 0"
  shows "\<exists>s'. finishes t c s s'"
proof -
  obtain v st' where returns: "body c ((shared s)\<lparr>random_lock := 1\<rparr>) = Some (v, st')"
    using body_returns [OF assms(1-4)] .
  have "lock_inv s" using reach_inv [OF assms(1)] assms(2) by (simp add: ready_def)
  from lock_invD(1) [OF this, of t] have at: "fits (shared s) (threads s t)" .
  have "c \<in> A" using calls_allowed [OF assms(1)] assms(4) by blast
  then have "locks c" using assms(3) by (cases c) auto
  from assms(4,5) obtain p r where p: "threads s t = Run c p r" by (cases "threads s t") auto
  show ?thesis
  proof (cases p)
    case Nil
    then show ?thesis using at p \<open>locks c\<close> by (auto simp: call_code_eq unlock_def intro: finishes_return)
  next
    case (Cons i q)
    then have "p = Until (compare_exchange 0 1) # guarded c"
      using at p \<open>locks c\<close> assms(5) by (auto simp: call_code_eq unlock_def)
    then show ?thesis using p returns assms(6) finishes_spin by blast
  qed
qed

text \<open>
  C18. No deadlock: when threads call \<open>random\<close> and \<open>srandom\<close>, and only these, on a well-formed
  state, then in every reachable state every call that has begun can return, with no further call
  by any thread: when another thread holds the lock, that thread can finish and release it first.
\<close>

theorem no_deadlock:
  assumes "reach A st s" "ready b st g" "A \<subseteq> insert Random (range Srandom)"
    and "in_call (threads s t) = Some c"
  shows "\<exists>s'. (step {})\<^sup>*\<^sup>* s s' \<and> threads s' t = Idle \<and> (\<exists>r. returned s' t = returned s t @ [(c, r)])"
proof -
  have lock0: "random_lock st = 0" using assms(2) by (simp add: ready_def)
  have mono: "step {} u v \<Longrightarrow> step A u v" for u v by (induction rule: step.induct) (auto intro: step.intros)
  have reach: "(step {})\<^sup>*\<^sup>* u v \<Longrightarrow> reach A st u \<Longrightarrow> reach A st v" for u v
    by (induction rule: rtranclp_induct) (auto intro: reach.more mono)
  note inv = reach_inv [OF _ lock0, THEN conjunct1]
  show ?thesis
  proof (cases "(\<exists>u. inside (threads s u)) \<and> \<not> inside (threads s t)")
    case True
    then obtain u where u: "inside (threads s u)" "u \<noteq> t" by blast
    then obtain d where "in_call (threads s u) = Some d" by (cases "threads s u") auto
    from inside_finishes [OF assms(1-3) this u(1)]
    obtain s1 where s1: "(step {})\<^sup>*\<^sup>* s s1" "threads s1 = (threads s)(u := Idle)" "returned s1 t = returned s t"
      using u(2) by (auto simp: finishes_def)
    have r1: "reach A st s1" using reach [OF s1(1) assms(1)] .
    have "\<not> inside (threads s1 v)" for v
      using lock_invD(3) [OF inv [OF assms(1)] u(1), of v] by (simp add: s1(2))
    then have "random_lock (shared s1) = 0" using inv [OF r1] by (simp add: lock_inv_def)
    moreover have "threads s1 t = threads s t" using u(2) by (simp add: s1(2))
    ultimately obtain s' where "finishes t c s1 s'"
      using outside_finishes [OF r1 assms(2,3), of t c] assms(4) True by auto
    then show ?thesis using s1(1,3) by (auto simp: finishes_def intro: rtranclp_trans)
  next
    case False
    have "\<exists>s'. finishes t c s s'"
    proof (cases "inside (threads s t)")
      case outside: False
      then have "random_lock (shared s) = 0" using False inv [OF assms(1)] by (auto simp: lock_inv_def)
      then show ?thesis using outside by (intro outside_finishes [OF assms])
    qed (rule inside_finishes [OF assms])
    then show ?thesis by (auto simp: finishes_def)
  qed
qed


subsection \<open>Concrete runs\<close>

text \<open>Thread 0 is about to draw a number while thread 1 spins.\<close>

lemma demo_lock: "random_lock random_demo = 0"
  using random_demo_ready by (simp add: ready_def)

lemma demo_run:
  obtains s where "reach {Random} random_demo s" "threads s 0 = Run Random (guarded Random) None"
    "threads s 1 = Run Random random_code None" "log s = []" "returned s = (\<lambda>_. [])"
    "shared s = random_demo\<lparr>random_lock := 1\<rparr>"
proof -
  let ?s0 = "sys_init random_demo"
  let ?s1 = "go 0 (Run Random random_code None) ?s0"
  let ?s2 = "go 1 (Run Random random_code None) ?s1"
  let ?s3 = "go 0 (Run Random (guarded Random) None) (?s2\<lparr>shared := random_demo\<lparr>random_lock := 1\<rparr>\<rparr>)"
  have "step {Random} ?s0 (go 0 (Run Random (call_code Random) None) ?s0)"
    by (rule step.start) (simp_all add: sys_init_def)
  moreover have "step {Random} ?s1 (go 1 (Run Random (call_code Random) None) ?s1)"
    by (rule step.start) (simp_all add: sys_init_def)
  moreover have "step {Random} ?s2 ?s3"
    by (rule step.leave [where f = "compare_exchange 0 1"])
      (simp_all add: sys_init_def random_code_def lock_def compare_exchange_def demo_lock)
  ultimately have "reach {Random} random_demo ?s3" by (simp del: go_def) (meson reach.intros)
  then show ?thesis by (rule that) (simp_all add: sys_init_def)
qed

theorem mutual_exclusion_witness:
  "\<exists>s. reach {Random} random_demo s \<and> random_lock (shared s) = 1
    \<and> threads s 1 = Run Random random_code None \<and> (\<forall>u. inside (threads s u) \<longrightarrow> u = 0)"
proof -
  obtain s where s: "reach {Random} random_demo s" "threads s 0 = Run Random (guarded Random) None"
      "threads s 1 = Run Random random_code None"
    using demo_run .
  then have "inside (threads s 0)" by simp
  with s mutual_exclusion [OF s(1) demo_lock] show ?thesis by blast
qed

theorem calls_linearize_witness:
  "\<exists>s r st1. reach {Random} random_demo s \<and> results 0 (log s) = [(Random, r)]
    \<and> random random_demo = Some (r, st1) \<and> shared s\<lparr>random_lock := 0\<rparr> = st1"
proof -
  obtain s where s: "reach {Random} random_demo s" "threads s 0 = Run Random (guarded Random) None"
      "log s = []" "returned s = (\<lambda>_. [])"
    using demo_run .
  have "in_call (threads s 0) = Some Random" "{Random} \<subseteq> insert Random (range Srandom)"
    using s(2) by simp_all
  from body_returns [OF s(1) random_demo_ready this(2,1)]
  obtain r st' where "body Random (shared s\<lparr>random_lock := random_lock (shared s)\<rparr>) = Some (r, st')"
    by blast
  then have b: "body Random (shared s) = Some (r, st')" by simp
  let ?s1 = "go 0 (Work Random (body Random) (shared s) unlock) s"
  have "reach {Random} random_demo ?s1" using s(1, 2) by (meson reach.more step.load)
  then obtain s2 where s2: "reach {Random} random_demo s2" "log s2 = [(0, Random, r)]"
    using reach.more [OF _ step.commit [of ?s1 0 Random "body Random" "shared s" unlock r st']] s(3) b
    by fastforce
  from calls_linearize [OF s2(1) demo_lock, of 0] s2 show ?thesis
    by (auto simp: api_def results_def split: option.splits if_splits)
qed

theorem no_deadlock_witness:
  "\<exists>s s' r. reach {Random} random_demo s \<and> inside (threads s 0)
    \<and> threads s 1 = Run Random random_code None \<and> (step {})\<^sup>*\<^sup>* s s'
    \<and> threads s' 1 = Idle \<and> returned s' 1 = [(Random, r)]"
proof -
  obtain s where s: "reach {Random} random_demo s" "threads s 0 = Run Random (guarded Random) None"
      "threads s 1 = Run Random random_code None" "returned s = (\<lambda>_. [])"
    using demo_run .
  have "in_call (threads s 1) = Some Random" using s(3) by simp
  from no_deadlock [OF s(1) random_demo_ready _ this] obtain s' r
    where "(step {})\<^sup>*\<^sup>* s s'" "threads s' 1 = Idle" "returned s' 1 = [(Random, r)]"
    by (auto simp: s(4))
  moreover have "inside (threads s 0)" using s(2) by simp
  ultimately show ?thesis using s(1,3) by blast
qed

end
