(* ===== verification/Aarch64.thy ===== *)
theory Aarch64
  imports Syscall Words
begin

unbundle bit_operations_syntax

section \<open>The aarch64 instructions of the assembly files\<close>

text \<open>
  The machine for the assembly of the repository: \<open>asm/memcpy.S\<close>, \<open>asm/memset.S\<close>,
  \<open>asm/setjmp.s\<close>, \<open>asm/longjmp.s\<close>, \<open>asm/syscall_cp.s\<close> and the inline assembly of the
  \<open>crt\<close> objects. A program is a list of labelled blocks in the order of the source, and the
  code of a label is its block and all blocks behind it. Only the instructions that these files
  use are there, each with the effect the architecture manual gives it. Register 31 is the stack
  pointer in an address and in \<open>mov\<close> to and from \<open>sp\<close>, and the zero register elsewhere.
  A load or store of bytes that are not mapped, and the trap \<open>brk\<close>, are None.
\<close>

subsection \<open>State\<close>

record 'k machine =
  xreg :: "nat \<Rightarrow> u64"
  spreg :: u64
  vreg :: "nat \<Rightarrow> 128 word"
  fN :: bool
  fZ :: bool
  fC :: bool
  fV :: bool
  mram :: mem
  mkern :: 'k

text \<open>
  What the code does not fix: the kernel, the value of \<open>dczid_el0\<close>, the addresses the linker
  gives to symbols, and the address behind a \<open>bl\<close>.
\<close>

record 'k env =
  kernel :: "'k kernel"
  dczid :: u64
  symbol :: "string \<Rightarrow> u64"
  behind_bl :: u64

definition rd :: "'k machine \<Rightarrow> nat \<Rightarrow> u64" where
  "rd s r = (if r = 31 then 0 else xreg s r)"

definition rd_sp :: "'k machine \<Rightarrow> nat \<Rightarrow> u64" where
  "rd_sp s r = (if r = 31 then spreg s else xreg s r)"

definition wr :: "nat \<Rightarrow> u64 \<Rightarrow> 'k machine \<Rightarrow> 'k machine" where
  "wr r a s = (if r = 31 then s else s\<lparr>xreg := (xreg s)(r := a)\<rparr>)"

definition wr_sp :: "nat \<Rightarrow> u64 \<Rightarrow> 'k machine \<Rightarrow> 'k machine" where
  "wr_sp r a s = (if r = 31 then s\<lparr>spreg := a\<rparr> else s\<lparr>xreg := (xreg s)(r := a)\<rparr>)"



subsection \<open>Instructions\<close>

datatype cond = EQ | NE | HS | LO | HI | LS

primrec holds_cond :: "cond \<Rightarrow> 'k machine \<Rightarrow> bool" where
  "holds_cond EQ s \<longleftrightarrow> fZ s"
| "holds_cond NE s \<longleftrightarrow> \<not> fZ s"
| "holds_cond HS s \<longleftrightarrow> fC s"
| "holds_cond LO s \<longleftrightarrow> \<not> fC s"
| "holds_cond HI s \<longleftrightarrow> fC s \<and> \<not> fZ s"
| "holds_cond LS s \<longleftrightarrow> \<not> (fC s \<and> \<not> fZ s)"

text \<open>Offset, pre-indexed \<open>[b, i]!\<close> and post-indexed \<open>[b], i\<close> addresses.\<close>

datatype mode = Off | Pre | Post

text \<open>Loads and stores, integer instructions, and those of vectors, caches and the system.\<close>

datatype mem_instr =
    Ldr nat nat nat i64
  | Str nat nat nat i64
  | LdrbR nat nat nat
  | StrbR nat nat nat
  | Ldp nat nat nat mode i64
  | Stp nat nat nat mode i64
  | LdpD nat nat nat i64
  | StpD nat nat nat i64
  | StrQ nat nat i64
  | StpQ nat nat nat mode i64

datatype alu_instr =
    MovI nat u64
  | Mov nat nat
  | MovSp nat nat
  | AddR nat nat nat
  | SubR nat nat nat
  | SubI nat nat u64
  | SubsI nat nat u64
  | AddI nat nat u64
  | AndI nat nat u64
  | AndWI nat nat u32
  | BicI nat nat u64
  | LsrI nat nat nat
  | CmpI nat u64
  | CmpWI nat u32
  | CcmpWI nat u32 bool bool bool bool cond
  | CsincW nat nat nat cond

datatype sys_instr =
    Dup16B nat nat
  | MovD0 nat nat
  | MrsDczid nat
  | DcZva nat
  | Adrp nat string
  | AddLo12 nat nat string
  | Svc
  | Brk
  | Nop

text \<open>The flags of a subtraction \<open>a - b\<close>; \<open>C\<close> is set when there is no borrow.\<close>

definition sub_flags :: "'a::len word \<Rightarrow> 'a word \<Rightarrow> 'k machine \<Rightarrow> 'k machine" where
  "sub_flags a b s = s\<lparr>fN := (a - b) <s 0, fZ := (a = b), fC := (b \<le> a),
     fV := (sint a - sint b \<noteq> sint (a - b))\<rparr>"

definition address :: "'k machine \<Rightarrow> nat \<Rightarrow> mode \<Rightarrow> i64 \<Rightarrow> ptr" where
  "address s b md i = (if md = Post then rd_sp s b else rd_sp s b + i)"

definition writeback :: "nat \<Rightarrow> mode \<Rightarrow> ptr \<Rightarrow> 'k machine \<Rightarrow> 'k machine" where
  "writeback b md a s = (if md = Off then s else wr_sp b a s)"

definition ldn :: "mem \<Rightarrow> ptr \<Rightarrow> nat \<Rightarrow> u64 option" where
  "ldn m p n = map_option of_le (load_bytes m p n)"

definition stn :: "mem \<Rightarrow> ptr \<Rightarrow> nat \<Rightarrow> 'a::len word \<Rightarrow> mem option" where
  "stn m p n a = store_bytes m p (to_le n a)"


text \<open>The effect of one instruction. The block that \<open>dc zva\<close> clears has 64 bytes when the
  register says so; the code uses it in no other case.\<close>

primrec exec_mem :: "mem_instr \<Rightarrow> 'k machine \<Rightarrow> 'k machine option" where
  "exec_mem (Ldr n t b i) s = do {
     a \<leftarrow> ldn (mram s) (rd_sp s b + i) n;
     Some (wr t a s)
   }"
| "exec_mem (Str n t b i) s = do {
     m \<leftarrow> stn (mram s) (rd_sp s b + i) n (rd s t);
     Some (s\<lparr>mram := m\<rparr>)
   }"
| "exec_mem (LdrbR t b r) s = do {
     a \<leftarrow> ldn (mram s) (rd_sp s b + rd s r) 1;
     Some (wr t a s)
   }"
| "exec_mem (StrbR t b r) s = do {
     m \<leftarrow> stn (mram s) (rd_sp s b + rd s r) 1 (rd s t);
     Some (s\<lparr>mram := m\<rparr>)
   }"
| "exec_mem (Ldp t t' b md i) s = do {
     a \<leftarrow> ldn (mram s) (address s b md i) 8;
     a' \<leftarrow> ldn (mram s) (address s b md i + 8) 8;
     Some (writeback b md (rd_sp s b + i) (wr t' a' (wr t a s)))
   }"
| "exec_mem (Stp t t' b md i) s = do {
     m \<leftarrow> stn (mram s) (address s b md i) 8 (rd s t);
     m' \<leftarrow> stn m (address s b md i + 8) 8 (rd s t');
     Some (writeback b md (rd_sp s b + i) (s\<lparr>mram := m'\<rparr>))
   }"
| "exec_mem (LdpD t t' b i) s = do {
     a \<leftarrow> ldn (mram s) (rd_sp s b + i) 8;
     a' \<leftarrow> ldn (mram s) (rd_sp s b + i + 8) 8;
     Some (s\<lparr>vreg := (vreg s)(t := ucast a, t' := ucast a')\<rparr>)
   }"
| "exec_mem (StpD t t' b i) s = do {
     m \<leftarrow> stn (mram s) (rd_sp s b + i) 8 (vreg s t);
     m' \<leftarrow> stn m (rd_sp s b + i + 8) 8 (vreg s t');
     Some (s\<lparr>mram := m'\<rparr>)
   }"
| "exec_mem (StrQ t b i) s = do {
     m \<leftarrow> stn (mram s) (rd_sp s b + i) 16 (vreg s t);
     Some (s\<lparr>mram := m\<rparr>)
   }"
| "exec_mem (StpQ t t' b md i) s = do {
     m \<leftarrow> stn (mram s) (address s b md i) 16 (vreg s t);
     m' \<leftarrow> stn m (address s b md i + 16) 16 (vreg s t');
     Some (writeback b md (rd_sp s b + i) (s\<lparr>mram := m'\<rparr>))
   }"

primrec exec_alu :: "alu_instr \<Rightarrow> 'k machine \<Rightarrow> 'k machine" where
  "exec_alu (MovI t a) s = wr t a s"
| "exec_alu (Mov t r) s = wr t (rd s r) s"
| "exec_alu (MovSp t r) s = wr_sp t (rd_sp s r) s"
| "exec_alu (AddR t a b) s = wr t (rd s a + rd s b) s"
| "exec_alu (AddI t a i) s = wr_sp t (rd_sp s a + i) s"
| "exec_alu (SubR t a b) s = wr t (rd s a - rd s b) s"
| "exec_alu (SubI t a i) s = wr_sp t (rd_sp s a - i) s"
| "exec_alu (SubsI t a i) s = wr t (rd_sp s a - i) (sub_flags (rd_sp s a) i s)"
| "exec_alu (AndI t a i) s = wr_sp t (rd s a AND i) s"
| "exec_alu (AndWI t a i) s = wr_sp t (ucast ((ucast (rd s a) :: u32) AND i)) s"
| "exec_alu (BicI t a i) s = wr_sp t (rd s a AND NOT i) s"
| "exec_alu (LsrI t a n) s = wr t (drop_bit n (rd s a)) s"
| "exec_alu (CmpI a i) s = sub_flags (rd_sp s a) i s"
| "exec_alu (CmpWI a i) s = sub_flags (ucast (rd_sp s a)) i s"
| "exec_alu (CcmpWI a i n z c ov cc) s =
     (if holds_cond cc s then sub_flags (ucast (rd s a)) i s
      else s\<lparr>fN := n, fZ := z, fC := c, fV := ov\<rparr>)"
| "exec_alu (CsincW t a b cc) s =
     wr t (ucast (if holds_cond cc s then ucast (rd s a) else ucast (rd s b) + 1 :: u32)) s"

primrec exec_sys :: "'k env \<Rightarrow> sys_instr \<Rightarrow> 'k machine \<Rightarrow> 'k machine option" where
  "exec_sys E (Dup16B t r) s =
     Some (s\<lparr>vreg := (vreg s)(t := of_le (replicate 16 (ucast (rd s r))))\<rparr>)"
| "exec_sys E (MovD0 t r) s = Some (wr t (ucast (vreg s r)) s)"
| "exec_sys E (MrsDczid t) s = Some (wr t (dczid E) s)"
| "exec_sys E (DcZva r) s =
     (if take_bit 5 (dczid E) = 4 then do {
        m \<leftarrow> store_bytes (mram s) (rd s r AND NOT 63) (replicate 64 0);
        Some (s\<lparr>mram := m\<rparr>)
      } else None)"
| "exec_sys E (Adrp t l) s = Some (wr t (symbol E l AND NOT 0xfff) s)"
| "exec_sys E (AddLo12 t a l) s = Some (wr t (rd s a + (symbol E l AND 0xfff)) s)"
| "exec_sys E Svc s = do {
     (r, m, k) \<leftarrow> kernel E (xreg s 8) (map (xreg s) [0..<6]) (mram s) (mkern s);
     Some (s\<lparr>xreg := (xreg s)(0 := r), mram := m, mkern := k\<rparr>)
   }"
| "exec_sys E Brk s = None"
| "exec_sys E Nop s = Some s"

subsection \<open>Programs\<close>

text \<open>
  A line is an instruction or a branch. Control leaves the code to an address, by \<open>ret\<close> or
  \<open>br\<close>, or to a symbol of another object, by a branch or a call.
\<close>

datatype 'l line =
    Mem mem_instr
  | Alu alu_instr
  | Sys sys_instr
  | Bcc cond 'l
  | Tbz nat nat 'l
  | Tbnz nat nat 'l
  | Cbz nat 'l
  | CbnzW nat 'l
  | Br nat
  | Jump string
  | Bl string

datatype exit = To u64 | Goto string

abbreviation (input) Ret :: "'l line" where
  "Ret \<equiv> Br 30"

type_synonym 'l program = "('l \<times> 'l line list) list"

definition code :: "'l program \<Rightarrow> 'l \<Rightarrow> 'l line list" where
  "code P l = concat (map snd (dropWhile (\<lambda>b. fst b \<noteq> l) P))"

partial_function (option) run ::
  "'k env \<Rightarrow> 'l program \<Rightarrow> 'l line list \<Rightarrow> 'k machine \<Rightarrow> (exit \<times> 'k machine) option" where
  "run E P is s =
     (case is of
       [] \<Rightarrow> None
     | i # is' \<Rightarrow>
        (case i of
          Mem j \<Rightarrow> do { s' \<leftarrow> exec_mem j s; run E P is' s' }
        | Alu j \<Rightarrow> run E P is' (exec_alu j s)
        | Sys j \<Rightarrow> do { s' \<leftarrow> exec_sys E j s; run E P is' s' }
        | Bcc c l \<Rightarrow> run E P (if holds_cond c s then code P l else is') s
        | Tbz r n l \<Rightarrow> run E P (if \<not> bit (rd s r) n then code P l else is') s
        | Tbnz r n l \<Rightarrow> run E P (if bit (rd s r) n then code P l else is') s
        | Cbz r l \<Rightarrow> run E P (if rd s r = 0 then code P l else is') s
        | CbnzW r l \<Rightarrow> run E P (if take_bit 32 (rd s r) \<noteq> 0 then code P l else is') s
        | Br r \<Rightarrow> Some (To (rd s r), s)
        | Jump l \<Rightarrow> Some (Goto l, s)
        | Bl l \<Rightarrow> Some (Goto l, wr 30 (behind_bl E) s)))"

lemma run_line [simp]:
  "run E P (Mem i # is) s = exec_mem i s \<bind> run E P is"
  "run E P (Alu j # is) s = run E P is (exec_alu j s)"
  "run E P (Sys k # is) s = exec_sys E k s \<bind> run E P is"
  "run E P (Bcc c l # is) s = (if holds_cond c s then run E P (code P l) s else run E P is s)"
  "run E P (Tbz r n l # is) s = (if bit (rd s r) n then run E P is s else run E P (code P l) s)"
  "run E P (Tbnz r n l # is) s = (if bit (rd s r) n then run E P (code P l) s else run E P is s)"
  "run E P (Cbz r l # is) s = (if rd s r = 0 then run E P (code P l) s else run E P is s)"
  "run E P (CbnzW r l # is) s =
     (if take_bit 32 (rd s r) = 0 then run E P is s else run E P (code P l) s)"
  "run E P (Br r # is) s = Some (To (rd s r), s)"
  "run E P (Jump y # is) s = Some (Goto y, s)"
  "run E P (Bl y # is) s = Some (Goto y, wr 30 (behind_bl E) s)"
  by (simp_all add: run.simps [of E P "_ # _"])


subsection \<open>Loads and stores\<close>

lemma stn_eq: "mapped m p n \<Longrightarrow> stn m p n a = Some (put m p (to_le n a))"
  by (simp add: stn_def store_bytes_def)

lemma load_bytes_cong:
  assumes "\<And>j. j < n \<Longrightarrow> m' (p + of_nat j) = m (p + of_nat j)"
  shows "load_bytes m' p n = load_bytes m p n"
proof -
  have "map (\<lambda>i. the (m' (p + of_nat i))) [0..<n] = map (\<lambda>i. the (m (p + of_nat i))) [0..<n]"
    using assms by (intro map_cong) simp_all
  moreover have "mapped m' p n \<longleftrightarrow> mapped m p n" using assms by (simp add: mapped_def)
  ultimately show ?thesis by (simp only: load_bytes_def)
qed

lemma ldn_cong: "(\<And>j. j < n \<Longrightarrow> m' (p + of_nat j) = m (p + of_nat j)) \<Longrightarrow> ldn m' p n = ldn m p n"
  unfolding ldn_def using load_bytes_cong [of n m' p m] by simp


subsection \<open>Alignment\<close>

lemma mask_parts: "(a AND NOT k) + (a AND k) = (a :: u64)"
proof -
  have "(a AND NOT k) AND (a AND k) = 0" "(a AND NOT k) OR (a AND k) = a"
    by (auto intro!: bit_word_eqI simp: bit_simps)
  with word_plus_and_or [of "a AND NOT k" "a AND k"] show ?thesis by simp
qed

lemma low_bits: "unat ((a :: u64) AND mask n) = unat a mod 2 ^ n"
  unfolding take_bit_eq_mask [symmetric] unsigned_take_bit_eq by (simp add: take_bit_eq_mod)

lemma align_down: "(a :: u64) AND NOT (mask n) = a - of_nat (unat a mod 2 ^ n)"
proof -
  have "a AND mask n = of_nat (unat a mod 2 ^ n)" by (intro of_nat_unat_eq low_bits)
  with mask_parts [of a "mask n"] show ?thesis by (simp add: eq_diff_eq)
qed

lemma unat_align_down: "unat ((a :: u64) AND NOT (mask n)) = unat a - unat a mod 2 ^ n"
proof -
  have "unat a mod 2 ^ n \<le> unat a" "unat a mod 2 ^ n < 2 ^ 64"
    using unat_lt_64 [of a] by (auto intro: le_less_trans [OF mod_less_eq_dividend])
  then have low: "unat (of_nat (unat a mod 2 ^ n) :: u64) = unat a mod 2 ^ n"
      "of_nat (unat a mod 2 ^ n) \<le> a"
    by (simp_all add: unat_of_nat_64 word_le_nat_alt)
  show ?thesis using unat_sub [OF low(2)] low(1) by (simp only: align_down)
qed

end
