(* ===== verification/Startup.thy ===== *)
theory Startup
  imports Aarch64
begin

unbundle bit_operations_syntax

section \<open>Program start, setjmp and longjmp\<close>

text \<open>
  The assembly of \<open>mytilus-startup\<close>: \<open>asm/setjmp.s\<close> and \<open>asm/longjmp.s\<close>, the \<open>_start\<close> of
  \<open>crt1\<close>, \<open>rcrt1\<close> and \<open>Scrt1\<close> with the \<open>_start_c\<close> of \<open>crt/start.rs\<close> behind it, and the
  frames of \<open>_init\<close> and \<open>_fini\<close> that \<open>crti\<close> opens and \<open>crtn\<close> closes. None of this code
  branches within itself, so its program of labelled blocks is empty.
\<close>

subsection \<open>setjmp.s and longjmp.s\<close>

definition setjmp :: "unit line list" where
  "setjmp =
    [Mem (Stp 19 20 0 Off 0),
     Mem (Stp 21 22 0 Off 16),
     Mem (Stp 23 24 0 Off 32),
     Mem (Stp 25 26 0 Off 48),
     Mem (Stp 27 28 0 Off 64),
     Mem (Stp 29 30 0 Off 80),
     Alu (MovSp 2 31),
     Mem (Str 8 2 0 104),
     Mem (StpD 8 9 0 112),
     Mem (StpD 10 11 0 128),
     Mem (StpD 12 13 0 144),
     Mem (StpD 14 15 0 160),
     Alu (MovI 0 0),
     Ret]"

definition longjmp :: "unit line list" where
  "longjmp =
    [Mem (Ldp 19 20 0 Off 0),
     Mem (Ldp 21 22 0 Off 16),
     Mem (Ldp 23 24 0 Off 32),
     Mem (Ldp 25 26 0 Off 48),
     Mem (Ldp 27 28 0 Off 64),
     Mem (Ldp 29 30 0 Off 80),
     Mem (Ldr 8 2 0 104),
     Alu (MovSp 31 2),
     Mem (LdpD 8 9 0 112),
     Mem (LdpD 10 11 0 128),
     Mem (LdpD 12 13 0 144),
     Mem (LdpD 14 15 0 160),
     Alu (CmpWI 1 0),
     Alu (CsincW 0 1 31 NE),
     Br 30]"

text \<open>
  The register-save area: \<open>__jb\<close> of the 312 bytes of a \<open>__jmp_buf_tag\<close>, 22 words at its
  start, of which slot 12 is never written. \<open>saved_words s\<close> are the slots and the words of
  the state \<open>s\<close> that belong there.
\<close>

definition jmp_buf_words :: nat where
  "jmp_buf_words = 22"

definition saved_words :: "'k machine \<Rightarrow> (u64 \<times> u64) list" where
  "saved_words s =
    [(0, xreg s 19), (8, xreg s 20), (16, xreg s 21), (24, xreg s 22), (32, xreg s 23),
     (40, xreg s 24), (48, xreg s 25), (56, xreg s 26), (64, xreg s 27), (72, xreg s 28),
     (80, xreg s 29), (88, xreg s 30), (104, spreg s),
     (112, ucast (vreg s 8)), (120, ucast (vreg s 9)), (128, ucast (vreg s 10)),
     (136, ucast (vreg s 11)), (144, ucast (vreg s 12)), (152, ucast (vreg s 13)),
     (160, ucast (vreg s 14)), (168, ucast (vreg s 15))]"

definition saves :: "mem \<Rightarrow> ptr \<Rightarrow> 'k machine \<Rightarrow> bool" where
  "saves m p s \<longleftrightarrow> (\<forall>(i, a)\<in>set (saved_words s). ldn m (p + i) 8 = Some a)"

lemma saves_cong:
  assumes "saves m p s" "\<And>i. i < 8 * jmp_buf_words \<Longrightarrow> m' (p + of_nat i) = m (p + of_nat i)"
  shows "saves m' p s"
proof -
  have "ldn m' (p + i) 8 = ldn m (p + i) 8" if "(i, a) \<in> set (saved_words s)" for i a
  proof (rule ldn_cong)
    fix j :: nat assume "j < 8"
    with that have "unat i + j < 8 * jmp_buf_words"
      by (auto simp: saved_words_def jmp_buf_words_def)
    from assms(2) [OF this] show "m' (p + i + of_nat j) = m (p + i + of_nat j)"
      by (simp add: add.assoc)
  qed
  with assms(1) show ?thesis by (auto simp: saves_def)
qed

lemma ldn_put_same: "to_le 8 (a :: 'a::len word) = to_le 8 w \<Longrightarrow> ldn (put m p (to_le 8 a)) p 8 = Some w"
  by (simp add: ldn_def of_le_load bytes_at_put del: map_option_eq_Some)

lemma to_le_ucast: "LENGTH('b::len) \<ge> 64 \<Longrightarrow> to_le 8 (a :: 'b word) = to_le 8 (ucast a :: u64)"
  by (auto simp: to_le_def bit_simps intro!: bit_word_eqI)

lemma ldn_put_other:
  assumes "unat i + 8 \<le> unat j \<or> unat j + 8 \<le> unat i" "unat i < 176" "unat j < 176"
  shows "ldn (put m (p + i) (to_le 8 a)) (p + j) 8 = ldn m (p + j) 8"
proof -
  have "put m (p + i) (to_le 8 a) (p + j + of_nat k) = m (p + j + of_nat k)" if "k < 8" for k
  proof (rule put_out)
    show "p + j + of_nat k \<notin> span (p + i) (length (to_le 8 a))"
    proof
      assume "p + j + of_nat k \<in> span (p + i) (length (to_le 8 a))"
      then obtain l where "l < 8" "p + j + of_nat k = p + i + of_nat l"
        by (auto simp: in_span_iff)
      then have "j + of_nat k = i + (of_nat l :: u64)" by (simp add: add.assoc)
      then have "(of_nat (unat j + k) :: u64) = of_nat (unat i + l)" by simp
      then show False
        using assms that \<open>l < 8\<close> by (subst (asm) of_nat_eq_64) auto
    qed
  qed
  then show ?thesis by (rule ldn_cong)
qed

lemma to_le_128: "to_le 8 (a :: 128 word) = to_le 8 (ucast a :: u64)"
  by (rule to_le_ucast) simp

lemma mapped_slot: "mapped m p 176 \<Longrightarrow> unat i + 8 \<le> 176 \<Longrightarrow> mapped m (p + i) 8"
  using mapped_shift [of m p 176 "unat i" 8] by simp

lemma ldn_put_at: "ldn (put m p (to_le 8 (w :: u64))) p 8 = Some w"
  by (rule ldn_put_same) simp

lemma ldn_put_base:
  assumes "8 \<le> unat i" "unat i < 176"
  shows "ldn (put m p (to_le 8 a)) (p + i) 8 = ldn m (p + i) 8"
    and "ldn (put m (p + i) (to_le 8 a)) p 8 = ldn m p 8"
  using ldn_put_other [of 0 i m p a] ldn_put_other [of i 0 m p a] assms by simp_all

lemma put_outside:
  assumes "unat i + length bs \<le> n" "n \<le> 2 ^ 64" "a \<notin> span p n"
  shows "put m (p + i) bs a = m a"
proof (rule put_out)
  show "a \<notin> span (p + i) (length bs)"
  proof
    assume "a \<in> span (p + i) (length bs)"
    then obtain l where "l < length bs" "a = p + i + of_nat l"
      using assms(1, 2) by (auto simp: in_span_iff)
    then have "a = p + of_nat (unat i + l)" by (simp add: add.assoc)
    then show False using assms \<open>l < length bs\<close> by (metis add_in_span add_strict_left_mono less_le_trans)
  qed
qed

lemmas register_simps = rd_def rd_sp_def wr_def wr_sp_def address_def writeback_def

lemma numeral_add: "numeral k + p = (p :: u64) + numeral k"
  by (rule add.commute)

lemma setjmp_run:
  assumes "mapped (mram s) p 176" "xreg s 0 = p"
  shows "\<exists>s1. run E P setjmp s = Some (To (xreg s 30), s1)
    \<and> xreg s1 = (xreg s)(2 := spreg s, 0 := 0) \<and> spreg s1 = spreg s \<and> vreg s1 = vreg s
    \<and> saves (mram s1) p s \<and> ldn (mram s1) (p + 96) 8 = ldn (mram s) (p + 96) 8
    \<and> (\<forall>a. a \<notin> span p 176 \<longrightarrow> mram s1 a = mram s a)"
  using assms mapped_slot [OF assms(1), of 0]
  by (simp add: setjmp_def register_simps stn_eq mapped_slot mapped_put numeral_add
      saves_def saved_words_def ldn_put_at ldn_put_other ldn_put_base to_le_128
      put_outside [where n = 176] put_outside [where i = 0 and p = p and n = 176, simplified])

text \<open>The 32-bit view of a register, and the low half of a vector register.\<close>

lemma ucast_32_0: "(ucast (a :: u64) :: u32) = 0 \<longleftrightarrow> take_bit 32 a = 0"
  by (auto simp: bit_eq_iff bit_simps)

lemma ucast_ucast_32: "(ucast (ucast (a :: u64) :: u32) :: u64) = take_bit 32 a"
  by (rule bit_word_eqI) (auto simp: bit_simps)

lemma low_half: "(ucast (ucast (ucast (a :: 128 word) :: u64) :: 128 word) :: u64) = ucast a"
  by (rule bit_word_eqI) (auto simp: bit_simps)

lemma callee_saved:
  "{19..30} = {19, 20, 21, 22, 23, 24, 25, 26, 27, 28, 29, 30 :: nat}"
  "{8..15} = {8, 9, 10, 11, 12, 13, 14, 15 :: nat}"
  by (simp_all add: set_eq_iff) presburger+

lemma longjmp_run:
  assumes "saves (mram t) p s" "xreg t 0 = p"
  shows "\<exists>t'. run E P longjmp t = Some (To (xreg s 30), t')
    \<and> (\<forall>r\<in>{19..30}. xreg t' r = xreg s r) \<and> spreg t' = spreg s \<and> mram t' = mram t
    \<and> (\<forall>r\<in>{8..15}. ucast (vreg t' r) = (ucast (vreg s r) :: u64))
    \<and> xreg t' 0 = (if take_bit 32 (xreg t 1) = 0 then 1 else take_bit 32 (xreg t 1))"
  using assms
  by (simp add: longjmp_def register_simps numeral_add saves_def saved_words_def sub_flags_def
      callee_saved ucast_32_0 ucast_ucast_32 low_half)

text \<open>
  C6. The pair is a non-local return. \<open>setjmp\<close> returns 0 to its caller, changes no callee-saved
  register and writes only the 176 bytes of the register-save area. From then on any machine
  state in which these bytes are what \<open>setjmp\<close> left and that has their address in \<open>x0\<close> can call
  \<open>longjmp\<close>: control goes to the address \<open>setjmp\<close> returned to, with the callee-saved registers,
  the stack pointer and the low halves of \<open>d8\<close> to \<open>d15\<close> as they were at the call of
  \<open>setjmp\<close>, and the value of \<open>w1\<close>, or 1 when that is 0, as the result.
\<close>

theorem longjmp_returns_to_setjmp:
  fixes s :: "'k machine"
  assumes "mapped (mram s) (xreg s 0) 176"
  shows "\<exists>s1. run E P setjmp s = Some (To (xreg s 30), s1) \<and> xreg s1 0 = 0
    \<and> (\<forall>r\<in>{19..30}. xreg s1 r = xreg s r) \<and> spreg s1 = spreg s \<and> vreg s1 = vreg s
    \<and> (\<forall>a. a \<notin> span (xreg s 0) 176 \<longrightarrow> mram s1 a = mram s a)
    \<and> (\<forall>t. xreg t 0 = xreg s 0
          \<and> (\<forall>i<176. mram t (xreg s 0 + of_nat i) = mram s1 (xreg s 0 + of_nat i)) \<longrightarrow>
        (\<exists>t'. run E P longjmp t = Some (To (xreg s 30), t')
          \<and> (\<forall>r\<in>{19..30}. xreg t' r = xreg s r) \<and> spreg t' = spreg s \<and> mram t' = mram t
          \<and> (\<forall>r\<in>{8..15}. ucast (vreg t' r) = (ucast (vreg s r) :: u64))
          \<and> xreg t' 0 = (if take_bit 32 (xreg t 1) = 0 then 1 else take_bit 32 (xreg t 1))))"
proof -
  obtain s1 where s1: "run E P setjmp s = Some (To (xreg s 30), s1)"
      "xreg s1 = (xreg s)(2 := spreg s, 0 := 0)" "spreg s1 = spreg s" "vreg s1 = vreg s"
      "saves (mram s1) (xreg s 0) s" "\<forall>a. a \<notin> span (xreg s 0) 176 \<longrightarrow> mram s1 a = mram s a"
    using setjmp_run [OF assms refl] by blast
  have saved: "saves m (xreg s 0) s"
    if "\<forall>i<176. m (xreg s 0 + of_nat i) = mram s1 (xreg s 0 + of_nat i)" for m
    using saves_cong [OF s1(5)] that by (simp add: jmp_buf_words_def)
  show ?thesis
  proof (rule exI [of _ s1], intro conjI allI impI ballI)
    fix t :: "'k machine" assume t: "xreg t 0 = xreg s 0
      \<and> (\<forall>i<176. mram t (xreg s 0 + of_nat i) = mram s1 (xreg s 0 + of_nat i))"
    show "\<exists>t'. run E P longjmp t = Some (To (xreg s 30), t')
        \<and> (\<forall>r\<in>{19..30}. xreg t' r = xreg s r) \<and> spreg t' = spreg s \<and> mram t' = mram t
        \<and> (\<forall>r\<in>{8..15}. ucast (vreg t' r) = (ucast (vreg s r) :: u64))
        \<and> xreg t' 0 = (if take_bit 32 (xreg t 1) = 0 then 1 else take_bit 32 (xreg t 1))"
      by (rule longjmp_run) (use t saved in simp_all)
  qed (use s1 in auto)
qed

text \<open>A machine whose register \<open>r\<close> holds \<open>r\<close>, with 176 bytes at the address in \<open>x0\<close>.\<close>

definition jump_env :: "unit env" where
  "jump_env = \<lparr>kernel = (\<lambda>_ _ _ _. None), dczid = 4, symbol = (\<lambda>_. 0x1234), behind_bl = 0\<rparr>"

definition jump_demo :: "unit machine" where
  "jump_demo = \<lparr>xreg = (of_nat(0 := 4096)), spreg = 8200, vreg = of_nat, fN = False, fZ = False,
     fC = False, fV = False, mram = mem_of 4096 (replicate 176 0), mkern = ()\<rparr>"

theorem longjmp_returns_to_setjmp_witness:
  "\<exists>s1 t'. run jump_env [] setjmp jump_demo = Some (To 30, s1)
    \<and> run jump_env [] longjmp (s1\<lparr>xreg := (\<lambda>_. 7)(0 := 4096), spreg := 0\<rparr>) = Some (To 30, t')
    \<and> xreg t' 0 = 7 \<and> xreg t' 19 = 19 \<and> spreg t' = 8200"
proof -
  have "mapped (mram jump_demo) (xreg jump_demo 0) 176"
    using bytes_at_mapped [OF bytes_at_mem_of [of "replicate 176 (0 :: u8)" 4096]]
    by (simp add: jump_demo_def)
  from longjmp_returns_to_setjmp [OF this, of jump_env "[]"]
  obtain s1 where s1: "run jump_env [] setjmp jump_demo = Some (To (xreg jump_demo 30), s1)"
    and again: "\<forall>t. xreg t 0 = xreg jump_demo 0
          \<and> (\<forall>i<176. mram t (xreg jump_demo 0 + of_nat i) = mram s1 (xreg jump_demo 0 + of_nat i)) \<longrightarrow>
        (\<exists>t'. run jump_env [] longjmp t = Some (To (xreg jump_demo 30), t')
          \<and> (\<forall>r\<in>{19..30}. xreg t' r = xreg jump_demo r) \<and> spreg t' = spreg jump_demo \<and> mram t' = mram t
          \<and> (\<forall>r\<in>{8..15}. ucast (vreg t' r) = (ucast (vreg jump_demo r) :: u64))
          \<and> xreg t' 0 = (if take_bit 32 (xreg t 1) = 0 then 1 else take_bit 32 (xreg t 1)))"
    by (elim exE conjE) (rule that)
  have regs: "xreg jump_demo 0 = 4096" "xreg jump_demo 19 = 19" "xreg jump_demo 30 = 30"
      "spreg jump_demo = 8200"
    by (simp_all add: jump_demo_def)
  show ?thesis
    using s1 again [rule_format, of "s1\<lparr>xreg := (\<lambda>_. 7)(0 := 4096), spreg := 0\<rparr>"]
    by (auto simp: regs)
qed


subsection \<open>The start of a program\<close>

text \<open>\<open>_start\<close> of the three kinds of executables; the sources are equal.\<close>

definition crt1_start :: "unit line list" where
  "crt1_start =
    [Alu (MovI 29 0),
     Alu (MovI 30 0),
     Alu (MovSp 0 31),
     Sys (Adrp 1 ''_DYNAMIC''),
     Sys (AddLo12 1 1 ''_DYNAMIC''),
     Alu (AndI 31 0 (- 16)),
     Bl ''_start_c'']"

definition rcrt1_start :: "unit line list" where
  "rcrt1_start =
    [Alu (MovI 29 0),
     Alu (MovI 30 0),
     Alu (MovSp 0 31),
     Sys (Adrp 1 ''_DYNAMIC''),
     Sys (AddLo12 1 1 ''_DYNAMIC''),
     Alu (AndI 31 0 (- 16)),
     Bl ''_start_c'']"

definition Scrt1_start :: "unit line list" where
  "Scrt1_start =
    [Alu (MovI 29 0),
     Alu (MovI 30 0),
     Alu (MovSp 0 31),
     Sys (Adrp 1 ''_DYNAMIC''),
     Sys (AddLo12 1 1 ''_DYNAMIC''),
     Alu (AndI 31 0 (- 16)),
     Bl ''_start_c'']"

text \<open>
  The arguments of \<open>__libc_start_main\<close>, which this repository does not have yet, and
  \<open>_start_c\<close>, which reads \<open>argc\<close> and calls it with the address of \<open>main\<close>.
\<close>

record libc_start_args =
  ls_main :: u64
  ls_argc :: c_int
  ls_argv :: ptr
  ls_init :: u64
  ls_fini :: u64
  ls_ldso_fini :: u64

definition start_c :: "u64 \<Rightarrow> mem \<Rightarrow> ptr \<Rightarrow> ptr \<Rightarrow> libc_start_args option" where
  "start_c main_addr m stack dynamic = do {
     w \<leftarrow> rd64 m stack;
     let argc = ucast w;
     let argv = stack + 8;
     Some \<lparr>ls_main = main_addr, ls_argc = argc, ls_argv = argv, ls_init = 0, ls_fini = 0,
       ls_ldso_fini = 0\<rparr>
   }"

text \<open>
  C19. From the initial stack of the kernel, \<open>argc\<close> as a word and the pointers of \<open>argv\<close> behind
  it, every \<open>_start\<close> reaches \<open>_start_c\<close> with the untouched stack as argument, a stack pointer
  that is rounded down to a multiple of 16 and a cleared frame pointer, and \<open>_start_c\<close> hands
  \<open>argc\<close> and the address of \<open>argv\<close> to \<open>__libc_start_main\<close>.
\<close>

theorem start_passes_arguments:
  assumes "rd64 (mram s) (spreg s) = Some argc" "start \<in> {crt1_start, rcrt1_start, Scrt1_start}"
  shows "\<exists>s'. run E P start s = Some (Goto ''_start_c'', s')
    \<and> xreg s' 0 = spreg s \<and> xreg s' 1 = symbol E ''_DYNAMIC'' \<and> xreg s' 29 = 0
    \<and> 16 dvd unat (spreg s') \<and> spreg s' \<le> spreg s \<and> unat (spreg s) < 16 + unat (spreg s')
    \<and> start_c main_addr (mram s') (xreg s' 0) (xreg s' 1) =
        Some \<lparr>ls_main = main_addr, ls_argc = ucast argc, ls_argv = spreg s + 8, ls_init = 0,
          ls_fini = 0, ls_ldso_fini = 0\<rparr>"
proof -
  have same: "start = crt1_start"
    using assms(2) by (auto simp: crt1_start_def rcrt1_start_def Scrt1_start_def)
  have "(- 16 :: u64) = NOT (mask 4)" "(4095 :: u64) = mask 12" "(- 4096 :: u64) = NOT (mask 12)"
    by (simp_all add: mask_eq_exp_minus_1)
  note masks = this
  have dyn: "(b AND - 4096) + (b AND 4095) = b" for b :: u64
    unfolding masks by (rule mask_parts)
  have below: "unat (spreg s AND - 16) = unat (spreg s) - unat (spreg s) mod 16"
    unfolding masks using unat_align_down [of "spreg s" 4] by simp
  then have "16 dvd unat (spreg s AND - 16)" "unat (spreg s AND - 16) \<le> unat (spreg s)"
      "unat (spreg s) < 16 + unat (spreg s AND - 16)"
    by (simp_all add: dvd_minus_mod)
  then have sp: "16 dvd unat (spreg s AND - 16)" "spreg s AND - 16 \<le> spreg s"
      "unat (spreg s) < 16 + unat (spreg s AND - 16)"
    by (simp_all add: word_le_nat_alt)
  have "\<exists>s'. run E P start s = Some (Goto ''_start_c'', s') \<and> xreg s' 0 = spreg s
      \<and> xreg s' 1 = symbol E ''_DYNAMIC'' \<and> xreg s' 29 = 0 \<and> spreg s' = spreg s AND - 16
      \<and> mram s' = mram s"
    by (simp add: same crt1_start_def register_simps dyn)
  then show ?thesis using assms(1) sp by (auto simp: start_c_def)
qed

theorem start_passes_arguments_witness:
  "\<exists>s'. run jump_env [] rcrt1_start (jump_demo\<lparr>spreg := 4104\<rparr>) = Some (Goto ''_start_c'', s')
    \<and> 16 dvd unat (spreg s')
    \<and> start_c 0x4000 (mram s') (xreg s' 0) (xreg s' 1) =
        Some \<lparr>ls_main = 0x4000, ls_argc = 0, ls_argv = 4112, ls_init = 0, ls_fini = 0, ls_ldso_fini = 0\<rparr>"
proof -
  have "bytes_at (mem_of 4096 (replicate 176 0)) 4096 (replicate 8 (0 :: u8) @ to_le 8 (0 :: u64) @ replicate 160 0)"
    using bytes_at_mem_of [of "replicate 176 (0 :: u8)" 4096]
    by (simp add: to_le_def replicate_add [symmetric] map_replicate_const)
  then have "rd64 (mram (jump_demo\<lparr>spreg := 4104\<rparr>)) (spreg (jump_demo\<lparr>spreg := 4104\<rparr>)) = Some 0"
    by (simp add: rd64_iff bytes_at_append jump_demo_def)
  from start_passes_arguments [OF this, of rcrt1_start jump_env "[]" "0x4000"]
  show ?thesis by auto
qed


subsection \<open>The frames of _init and _fini\<close>

text \<open>
  The linker joins the \<open>.init\<close> sections of \<open>crti\<close>, of any other objects and of \<open>crtn\<close> to
  one function, and likewise the \<open>.fini\<close> sections.
\<close>

definition crti_init :: "unit line list" where
  "crti_init = [Mem (Stp 29 30 31 Pre (- 16)), Alu (MovSp 29 31)]"

definition crti_fini :: "unit line list" where
  "crti_fini = [Mem (Stp 29 30 31 Pre (- 16)), Alu (MovSp 29 31)]"

definition crtn_init :: "unit line list" where
  "crtn_init = [Mem (Ldp 29 30 31 Post 16), Ret]"

definition crtn_fini :: "unit line list" where
  "crtn_fini = [Mem (Ldp 29 30 31 Post 16), Ret]"

text \<open>
  What the sections in between may do: anything that falls through, leaves the stack pointer
  where it found it and keeps the 16 bytes of the frame.
\<close>

definition keeps_frame :: "'k env \<Rightarrow> unit program \<Rightarrow> unit line list \<Rightarrow> bool" where
  "keeps_frame E P body \<longleftrightarrow> (\<forall>t is. \<exists>t'. run E P (body @ is) t = run E P is t' \<and> spreg t' = spreg t
     \<and> (\<forall>i\<in>{0, 8}. ldn (mram t') (spreg t + i) 8 = ldn (mram t) (spreg t + i) 8))"

lemma frame_joined:
  assumes "mapped (mram s) (spreg s - 16) 16" "keeps_frame E P body"
  shows "\<exists>s'. run E P (crti_init @ body @ crtn_init) s = Some (To (xreg s 30), s')
    \<and> xreg s' 29 = xreg s 29 \<and> spreg s' = spreg s"
proof -
  define p where "p = spreg s - 16"
  define m where "m = put (put (mram s) p (to_le 8 (xreg s 29))) (p + 8) (to_le 8 (xreg s 30))"
  define t where "t = s\<lparr>mram := m, spreg := p, xreg := (xreg s)(29 := p)\<rparr>"
  have sp: "spreg s = p + 16" by (simp add: p_def)
  have "mapped (mram s) p 8" "mapped (mram s) (p + 8) 8"
    using assms(1) mapped_shift [of "mram s" p 16 0 8] mapped_shift [of "mram s" p 16 8 8]
    by (simp_all add: p_def)
  then have "run E P (crti_init @ body @ crtn_init) s = run E P (body @ crtn_init) t"
    by (simp add: crti_init_def register_simps stn_eq mapped_put t_def m_def sp)
  moreover obtain t' where t': "run E P (body @ crtn_init) t = run E P crtn_init t'"
      "spreg t' = p" "ldn (mram t') p 8 = ldn m p 8" "ldn (mram t') (p + 8) 8 = ldn m (p + 8) 8"
    using assms(2) unfolding keeps_frame_def by (fastforce simp: t_def)
  moreover have "ldn m p 8 = Some (xreg s 29)" "ldn m (p + 8) 8 = Some (xreg s 30)"
    by (simp_all add: m_def ldn_put_at ldn_put_base)
  ultimately show ?thesis
    by (simp add: crtn_init_def register_simps sp)
qed

text \<open>
  \<open>_init\<close> and \<open>_fini\<close>, joined with any such sections, return to their caller with its frame
  pointer and stack pointer.
\<close>

theorem init_fini_frames:
  assumes "mapped (mram s) (spreg s - 16) 16" "keeps_frame E P body"
  shows "(\<exists>s'. run E P (crti_init @ body @ crtn_init) s = Some (To (xreg s 30), s')
      \<and> xreg s' 29 = xreg s 29 \<and> spreg s' = spreg s)
    \<and> (\<exists>s'. run E P (crti_fini @ body @ crtn_fini) s = Some (To (xreg s 30), s')
      \<and> xreg s' 29 = xreg s 29 \<and> spreg s' = spreg s)"
  using frame_joined [OF assms]
  unfolding crti_init_def crti_fini_def crtn_init_def crtn_fini_def by simp

theorem init_fini_frames_witness:
  "\<exists>s'. run jump_env [] (crti_init @ [Alu (MovI 3 1)] @ crtn_init) (jump_demo\<lparr>spreg := 4112\<rparr>) =
      Some (To 30, s') \<and> xreg s' 29 = 29 \<and> spreg s' = 4112"
proof -
  have "mapped (mram (jump_demo\<lparr>spreg := 4112\<rparr>)) (spreg (jump_demo\<lparr>spreg := 4112\<rparr>) - 16) 16"
    using mapped_mono [OF bytes_at_mapped [OF bytes_at_mem_of [of "replicate 176 (0 :: u8)" 4096]]]
    by (simp add: jump_demo_def)
  moreover have "keeps_frame jump_env [] [Alu (MovI 3 1)]"
    unfolding keeps_frame_def by (intro allI exI [of _ "wr 3 1 _"]) (simp add: register_simps)
  ultimately show ?thesis
    using init_fini_frames [of "jump_demo\<lparr>spreg := 4112\<rparr>" jump_env "[]" "[Alu (MovI 3 1)]"]
    by (simp add: jump_demo_def)
qed


subsection \<open>The panic handlers\<close>

text \<open>
  \<open>panic\<close> of \<open>mytilus/src/lib.rs\<close>: the operands of the inline assembly in their registers, the
  system call and the trap behind it. It asks for the end of the process with status 127 and does
  not return even when the kernel does.
\<close>

definition panic_handler :: "unit line list" where
  "panic_handler =
    [Alu (MovI 8 94),
     Alu (MovI 0 127),
     Sys Svc,
     Sys Brk]"

lemma panic_request:
  "run E P (take 3 panic_handler @ is) s =
     kernel E SYS_exit_group (127 # map (xreg s) [1..<6]) (mram s) (mkern s) \<bind>
       (\<lambda>(r, m, k). run E P is (s\<lparr>xreg := (xreg s)(8 := SYS_exit_group, 0 := r), mram := m, mkern := k\<rparr>))"
  by (simp add: panic_handler_def register_simps SYS_exit_group_def upt_rec fun_upd_twist split_def
      bind_assoc)

lemma panic_never_returns: "run E P panic_handler s = None"
  by (simp add: panic_handler_def split: bind_splits)

text \<open>
  The panic handlers of the \<open>crt\<close> objects, each with a copy of its own: a loop over
  \<open>spin_loop()\<close>, a hint that changes no state.
\<close>

partial_function (option) start_panic :: "'k machine \<Rightarrow> 'k machine option" where
  "start_panic s = start_panic s"

partial_function (option) crti_panic :: "'k machine \<Rightarrow> 'k machine option" where
  "crti_panic s = crti_panic s"

partial_function (option) crtn_panic :: "'k machine \<Rightarrow> 'k machine option" where
  "crtn_panic s = crtn_panic s"

lemma crt_panics_never_return: "start_panic s = None" "crti_panic s = None" "crtn_panic s = None"
proof -
  have "False" if "start_panic s = Some t" for t
    by (rule start_panic.raw_induct [where P = "\<lambda>_ _. False", OF _ that])
  then show "start_panic s = None" by (cases "start_panic s") auto
  have "False" if "crti_panic s = Some t" for t
    by (rule crti_panic.raw_induct [where P = "\<lambda>_ _. False", OF _ that])
  then show "crti_panic s = None" by (cases "crti_panic s") auto
  have "False" if "crtn_panic s = Some t" for t
    by (rule crtn_panic.raw_induct [where P = "\<lambda>_ _. False", OF _ that])
  then show "crtn_panic s = None" by (cases "crtn_panic s") auto
qed

end
