(* ===== verification/Cancel_Point.thy ===== *)
theory Cancel_Point
  imports Aarch64
begin

section \<open>The assembly of a cancellation point\<close>

text \<open>
  \<open>asm/syscall_cp.s\<close> as the program it is, and that the definition \<open>syscall_cp_asm\<close> of the
  wrappers is what it computes.
\<close>

datatype cp_label = Cp_begin | Cp_end | Cp_cancel

definition syscall_cp_s :: "cp_label program" where
  "syscall_cp_s =
    [(Cp_begin,
      [Mem (Ldr 4 0 0 0),
       CbnzW 0 Cp_cancel,
       Alu (Mov 8 1),
       Alu (Mov 0 2),
       Alu (Mov 1 3),
       Alu (Mov 2 4),
       Alu (Mov 3 5),
       Alu (Mov 4 6),
       Alu (Mov 5 7),
       Sys Svc]),
     (Cp_end, [Ret]),
     (Cp_cancel, [Jump ''__cancel''])]"

definition syscall_cp_entry :: "'k env \<Rightarrow> 'k machine \<Rightarrow> (exit \<times> 'k machine) option" where
  "syscall_cp_entry E s = run E syscall_cp_s (code syscall_cp_s Cp_begin) s"

lemma ldn_rd32: "rd32 m p = Some a \<Longrightarrow> ldn m p 4 = Some (ucast a)"
proof -
  have "of_le bs = (ucast (of_le bs :: u32) :: u64)" if "length bs = 4" for bs
    using that by (intro bit_word_eqI) (auto simp: bit_of_le bit_simps)
  then show "rd32 m p = Some a \<Longrightarrow> ?thesis"
    by (auto simp: rd32_def ldn_def load_bytes_iff)
qed

text \<open>
  C15. When the flag behind \<open>x0\<close> is set the stub jumps to \<open>__cancel\<close> before any call. Otherwise it
  does what the model of the wrappers says: one call of the kernel with the number from \<open>x1\<close>
  and the arguments from \<open>x2\<close> to \<open>x7\<close>, whose result it returns in \<open>x0\<close>, with every
  callee-saved register as before.
\<close>

theorem syscall_cp_s_implements:
  assumes "rd32 (mram s) (xreg s 0) = Some (dummy_cancel w)" "mram s = ram w" "mkern s = kern w"
  shows "if dummy_cancel w \<noteq> 0
    then \<exists>s'. syscall_cp_entry E s = Some (Goto ''__cancel'', s') \<and> mram s' = ram w \<and> mkern s' = kern w
    else case syscall_cp_asm (kernel E) (xreg s 1) (xreg s 2) (xreg s 3) (xreg s 4) (xreg s 5)
        (xreg s 6) (xreg s 7) w of
      None \<Rightarrow> syscall_cp_entry E s = None
    | Some (r, w') \<Rightarrow> \<exists>s'. syscall_cp_entry E s = Some (To (xreg s 30), s') \<and> xreg s' 0 = r
        \<and> mram s' = ram w' \<and> mkern s' = kern w' \<and> spreg s' = spreg s
        \<and> (\<forall>i\<ge>19. xreg s' i = xreg s i)"
proof -
  have flag: "ldn (mram s) (xreg s 0) 4 = Some (ucast (dummy_cancel w))"
    by (rule ldn_rd32 [OF assms(1)])
  have zero: "take_bit 32 (ucast a :: u64) = 0 \<longleftrightarrow> a = 0" for a :: u32
    by (auto simp: bit_eq_iff bit_simps)
  show ?thesis
  proof (cases "dummy_cancel w = 0")
    case False
    then show ?thesis
      using flag assms(2, 3)
      by (simp add: syscall_cp_entry_def code_def syscall_cp_s_def rd_def rd_sp_def wr_def zero)
  next
    case True
    then show ?thesis
      using flag assms(2, 3)
      by (cases "kernel E (xreg s 1) (map (xreg s) [2..<8]) (ram w) (kern w)")
        (auto simp: syscall_cp_entry_def code_def syscall_cp_s_def rd_def rd_sp_def wr_def
          syscall_cp_asm_def svc_def upt_rec)
  qed
qed

definition cp_env :: "unit env" where
  "cp_env = \<lparr>kernel = (\<lambda>n args m k. Some (n + sum_list args, m, k)), dczid = 4,
     symbol = (\<lambda>_. 0), behind_bl = 0\<rparr>"

definition cp_demo :: "unit machine" where
  "cp_demo = \<lparr>xreg = of_nat(0 := 4096, 1 := 57), spreg = 8192, vreg = of_nat, fN = False, fZ = False,
     fC = False, fV = False, mram = mem_of 4096 [0, 0, 0, 0], mkern = ()\<rparr>"

theorem syscall_cp_s_implements_witness:
  "\<exists>s'. syscall_cp_entry cp_env cp_demo = Some (To 30, s') \<and> xreg s' 0 = 84"
proof -
  let ?w = "initial_world (mem_of 4096 [0, 0, 0, 0]) ()"
  have "rd32 (mram cp_demo) (xreg cp_demo 0) = Some (dummy_cancel ?w)"
    using bytes_at_mem_of [of "[0, 0, 0, 0]" 4096]
    by (simp add: cp_demo_def initial_world_def rd32_iff to_le_def upt_rec)
  then show ?thesis
    using syscall_cp_s_implements [of cp_demo ?w cp_env]
    by (auto simp: cp_demo_def cp_env_def initial_world_def syscall_cp_asm_def svc_def)
qed

end
