(* ===== verification/Chunks.thy ===== *)
theory Chunks
  imports Aarch64
begin

unbundle bit_operations_syntax

section \<open>Copies in chunks\<close>

text \<open>
  What the two assembly routines for memory share: the memory after some of the bytes of a list
  have been written to their places, addresses and counters as offsets, and loads and stores of
  whole chunks of the list. Chunks may overlap, so the bytes written are a set of indices.
\<close>

named_theorems chunk_simps

text \<open>The definitions that the effect of an instruction unfolds.\<close>

lemmas run_simps = rd_def rd_sp_def wr_def wr_sp_def address_def writeback_def sub_flags_def

definition copied :: "mem \<Rightarrow> ptr \<Rightarrow> u8 list \<Rightarrow> nat set \<Rightarrow> mem" where
  "copied m d bs A = (\<lambda>a. if unat (a - d) < length bs \<and> unat (a - d) \<in> A
     then Some (bs ! unat (a - d)) else m a)"

definition adr :: "ptr \<Rightarrow> nat \<Rightarrow> ptr" where
  "adr p i = p + of_nat i"

definition num :: "nat \<Rightarrow> u64" where
  "num n = of_nat n"

definition chunk :: "u8 list \<Rightarrow> nat \<Rightarrow> nat \<Rightarrow> u64" where
  "chunk bs i k = of_le (take k (drop i bs))"


subsection \<open>Offsets\<close>

lemma numeral_last: "numeral k + (i :: nat) = i + numeral k"
  by (rule add.commute)

lemma adr_0: "p = adr p 0"
  by (simp add: adr_def)

lemma adr_add [chunk_simps]:
  "adr p i + numeral k = adr p (i + numeral k)"
  "numeral k + adr p i = adr p (i + numeral k)"
  "adr p i + num n = adr p (i + n)"
  by (simp_all add: adr_def num_def)

lemma adr_sub [chunk_simps]: "numeral k \<le> i \<Longrightarrow> adr p i - numeral k = adr p (i - numeral k)"
  by (simp add: adr_def of_nat_diff)

lemma adr_sub_1 [chunk_simps]: "1 \<le> i \<Longrightarrow> adr p i - 1 = adr p (i - 1)"
  by (simp add: adr_def of_nat_diff)

lemma adr_sub_add [chunk_simps]:
  assumes "numeral k \<le> (numeral l :: nat)"
  shows "adr p i - numeral k + numeral l = adr p (i + (numeral l - numeral k))"
proof -
  have "adr p i - of_nat a + of_nat b = adr p (i + (b - a))" if "a \<le> b" for a b
    using that by (simp add: adr_def of_nat_diff)
  from this [OF assms] show ?thesis by (simp only: of_nat_numeral)
qed

lemma num_sub [chunk_simps]: "numeral k \<le> n \<Longrightarrow> num n - numeral k = num (n - numeral k)"
  by (simp add: num_def of_nat_diff)

lemma num_add [chunk_simps]: "num n + num k = num (n + k)"
  by (simp add: num_def)

lemma unat_numeral_64: "(numeral k :: nat) < 2 ^ 64 \<Longrightarrow> unat (numeral k :: u64) = numeral k"
  using unat_of_nat_64 [of "numeral k"] by (simp only: of_nat_numeral)

lemma num_le [chunk_simps]:
  "n < 2 ^ 64 \<Longrightarrow> (numeral k :: nat) < 2 ^ 64 \<Longrightarrow> numeral k \<le> num n \<longleftrightarrow> numeral k \<le> n"
  by (simp only: num_def word_le_nat_alt unat_of_nat_64 unat_numeral_64)

lemma num_eq [chunk_simps]:
  "n < 2 ^ 64 \<Longrightarrow> (numeral k :: nat) < 2 ^ 64 \<Longrightarrow> num n = numeral k \<longleftrightarrow> n = numeral k"
  unfolding num_def using of_nat_eq_64 [of n "numeral k"] by (simp only: of_nat_numeral)

lemma num_eq_0 [chunk_simps]: "n < 2 ^ 64 \<Longrightarrow> num n = 0 \<longleftrightarrow> n = 0"
  by (simp only: num_def of_nat_eq_0_64)

lemma num_bit [chunk_simps]: "n < 2 ^ Suc k \<Longrightarrow> k < 64 \<Longrightarrow> bit (num n) k \<longleftrightarrow> 2 ^ k \<le> n"
proof -
  assume n: "n < 2 ^ Suc k" "k < 64"
  have "bit n k \<longleftrightarrow> odd (n div 2 ^ k)" by (simp add: bit_iff_odd)
  moreover have "n div 2 ^ k = (if 2 ^ k \<le> n then 1 else 0)"
    using n(1) by (auto simp: div_nat_eqI)
  ultimately show ?thesis using n(2) by (simp add: num_def bit_simps)
qed

lemma num_half [chunk_simps]: "n < 2 ^ 64 \<Longrightarrow> drop_bit (Suc 0) (num n) = num (n div 2)"
  unfolding num_def
  by (rule of_nat_unat_eq) (simp only: unat_drop_bit_eq unat_of_nat_64, simp add: drop_bit_eq_div)


lemma aligned_parts:
  assumes "k = unat d mod 16"
  shows "adr d 0 AND 15 = num k" "adr d 0 AND - 16 = adr d (16 - k) - 16"
    "adr q 0 - num k = adr q (16 - k) - 16"
proof -
  have mask: "(15 :: u64) = mask 4" "(- 16 :: u64) = NOT (mask 4)"
    by (simp_all add: mask_eq_exp_minus_1)
  have "k < 16" using assms by simp
  then have shift: "p - of_nat k = adr p (16 - k) - 16" for p
    by (simp add: adr_def of_nat_diff)
  show "adr d 0 AND 15 = num k"
    unfolding mask num_def by (rule of_nat_unat_eq) (simp add: low_bits assms adr_def)
  show "adr d 0 AND - 16 = adr d (16 - k) - 16"
    unfolding mask using shift [of d] by (simp add: align_down adr_def assms)
  show "adr q 0 - num k = adr q (16 - k) - 16"
    using shift [of q] by (simp add: adr_def num_def)
qed

lemma disjoint_half:
  assumes "disjoint_spans d n q n"
  shows "n \<le> 2 ^ 63"
proof (cases "n = 0")
  case False
  then have "q \<notin> span d n" "d \<notin> span q n"
    using assms by (auto simp: span_def disjoint_iff)
  then have "n \<le> unat (q - d)" "n \<le> unat (d - q)" by (simp_all add: span_def)
  moreover have "unat (q - d) + unat (d - q) \<le> 2 ^ 64"
    using unat_lt_64 [of d] unat_lt_64 [of q] by (simp add: unat_sub_if')
  ultimately show ?thesis by simp
qed simp


subsection \<open>The memory of a copy\<close>

lemma copied_none: "copied m d bs {} = m"
  by (simp add: copied_def)

lemma copied_Nil [simp]: "copied m d [] A = m"
  by (simp add: copied_def)

lemma copied_all: "{0..<length bs} \<subseteq> A \<Longrightarrow> copied m d bs A = put m d bs"
  by (auto simp: copied_def put_def fun_eq_iff)

lemma copied_put:
  assumes "i + length cs \<le> length bs" "cs = take (length cs) (drop i bs)" "length bs < 2 ^ 64"
  shows "put (copied m d bs A) (adr d i) cs = copied m d bs (A \<union> {i..<i + length cs})"
proof
  fix a
  define j where "j = unat (a - d)"
  have j: "j < 2 ^ 64" "a - adr d i = of_nat j - of_nat i"
    using unat_lt_64 [of "a - d"] by (simp_all add: j_def adr_def)
  have "unat (of_nat j - of_nat i :: u64) = (if i \<le> j then j - i else 2 ^ 64 + j - i)"
    using j(1) assms(1, 3) unat_of_nat_64 [of i] unat_of_nat_64 [of j]
    by (auto simp: unat_sub_if')
  then have "unat (a - adr d i) < length cs \<longleftrightarrow> i \<le> j \<and> j < i + length cs"
    and "i \<le> j \<Longrightarrow> unat (a - adr d i) = j - i"
    using assms(1, 3) by (auto simp: j(2))
  moreover have "cs ! (j - i) = bs ! j" if "i \<le> j" "j < i + length cs"
    using that assms(1) by (subst assms(2)) simp
  ultimately show "put (copied m d bs A) (adr d i) cs a = copied m d bs (A \<union> {i..<i + length cs}) a"
    using assms(1) unfolding put_def copied_def j_def [symmetric] by auto
qed

lemma merge_intervals [chunk_simps]:
  "i \<le> j \<Longrightarrow> j \<le> k \<Longrightarrow> A \<union> {i..<j} \<union> {j..<k} = A \<union> {i..<k}" for i j k :: nat
  by auto

lemma merge_intervals' [chunk_simps]:
  "i \<le> j \<Longrightarrow> j \<le> k \<Longrightarrow> {i..<j} \<union> {j..<k} = {i..<k}" for i j k :: nat
  by (rule ivl_disj_un_two(3))

lemma mapped_copied: "mapped m p k \<Longrightarrow> mapped (copied m d bs A) p k"
  by (simp add: mapped_def copied_def)

lemma mapped_part: "mapped m d n \<Longrightarrow> i + k \<le> n \<Longrightarrow> mapped (copied m d bs A) (adr d i) k"
  unfolding adr_def by (intro mapped_copied mapped_shift)

lemma to_le_short:
  assumes "8 * length bs \<le> LENGTH('a::len)"
  shows "to_le (length bs) (of_le bs :: 'a word) = bs"
proof (rule nth_equalityI)
  fix i assume i: "i < length (to_le (length bs) (of_le bs :: 'a word))"
  then have "8 * i + k < LENGTH('a)" if "k < 8" for k using assms that by simp
  then show "to_le (length bs) (of_le bs :: 'a word) ! i = bs ! i"
    using i by (intro bit_word_eqI) (simp add: to_le_def bit_simps bit_of_le)
qed simp

text \<open>A store of a chunk whose bytes are the next ones of the list.\<close>

lemma stn_part:
  assumes "mapped m d (length bs)" "length bs < 2 ^ 64" "i + k \<le> length bs"
    and "to_le k a = take k (drop i bs)"
  shows "stn (copied m d bs A) (adr d i) k a = Some (copied m d bs (A \<union> {i..<i + k}))"
  using assms copied_put [of i "to_le k a" bs m d A] mapped_part [OF assms(1,3)]
  by (simp add: stn_eq)


subsection \<open>Returning to the caller\<close>

text \<open>
  The code returns with memory \<open>m\<close>, its first argument as result, and the registers that the
  procedure-call standard reserves for the caller as they were.
\<close>

definition returns :: "'k env \<Rightarrow> 'l program \<Rightarrow> 'l line list \<Rightarrow> 'k machine \<Rightarrow> mem \<Rightarrow> bool" where
  "returns E P is s m \<longleftrightarrow> (\<exists>s'. run E P is s = Some (To (xreg s 30), s') \<and> mram s' = m
     \<and> xreg s' 0 = xreg s 0 \<and> spreg s' = spreg s \<and> mkern s' = mkern s
     \<and> (\<forall>r\<ge>18. xreg s' r = xreg s r) \<and> (\<forall>r\<in>{8..15}. vreg s' r = vreg s r))"

text \<open>One state stands for another in which only scratch registers, flags and memory differ.\<close>

definition same_caller :: "'k machine \<Rightarrow> 'k machine \<Rightarrow> bool" where
  "same_caller s t \<longleftrightarrow> xreg t 0 = xreg s 0 \<and> spreg t = spreg s \<and> mkern t = mkern s
     \<and> (\<forall>r\<ge>18. xreg t r = xreg s r) \<and> (\<forall>r\<in>{8..15}. vreg t r = vreg s r)"

lemma returns_via:
  assumes "returns E P is' t m" "run E P is s = run E P is' t" "same_caller s t"
  shows "returns E P is s m"
  using assms unfolding returns_def same_caller_def by force


subsection \<open>Counted loops\<close>

text \<open>
  The loops of both routines handle 64 bytes in an iteration and count down the bytes that are
  left: \<open>inv c s\<close> holds at the start of an iteration with \<open>c\<close> to go. The loop repeats while
  more than 64 are left and goes on behind it otherwise. It then returns, with no bound on \<open>c\<close>.
\<close>

locale counted_loop =
  fixes E :: "'k env" and P :: "'l program" and loop rest :: "'l line list"
    and inv :: "nat \<Rightarrow> 'k machine \<Rightarrow> bool" and m :: mem
  assumes again: "inv c s \<Longrightarrow> 64 < c \<Longrightarrow>
      \<exists>t. run E P loop s = run E P loop t \<and> same_caller s t \<and> inv (c - 64) t"
    and leave: "inv c s \<Longrightarrow> 0 < c \<Longrightarrow> c \<le> 64 \<Longrightarrow>
      \<exists>t. run E P loop s = run E P rest t \<and> same_caller s t \<and> returns E P rest t m"
begin

lemma loop_returns: "inv c s \<Longrightarrow> 0 < c \<Longrightarrow> returns E P loop s m"
proof (induction c arbitrary: s rule: less_induct)
  case (less c)
  show ?case
  proof (cases "64 < c")
    case True
    then obtain t where "run E P loop s = run E P loop t" "same_caller s t" "inv (c - 64) t"
      using again less.prems(1) by blast
    moreover have "returns E P loop t m" using less.IH [OF _ \<open>inv (c - 64) t\<close>] True by simp
    ultimately show ?thesis by (blast intro: returns_via)
  next
    case False
    then show ?thesis using leave [OF less.prems] by (auto intro: returns_via)
  qed
qed

end


subsection \<open>Machines for concrete inputs\<close>

definition zva_env :: "unit env" where
  "zva_env = \<lparr>kernel = (\<lambda>_ _ _ _. None), dczid = 4, symbol = (\<lambda>_. 0), behind_bl = 0\<rparr>"

definition machine_with :: "u64 \<Rightarrow> u64 \<Rightarrow> u64 \<Rightarrow> mem \<Rightarrow> unit machine" where
  "machine_with a b c m = \<lparr>xreg = of_nat(0 := a, 1 := b, 2 := c), spreg = 8192, vreg = of_nat,
     fN = False, fZ = False, fC = False, fV = False, mram = m, mkern = ()\<rparr>"

end
