(* ===== verification/Memcpy_Asm.thy ===== *)
theory Memcpy_Asm
  imports Chunks Mem_Ops
begin

unbundle bit_operations_syntax

section \<open>memcpy.S\<close>

text \<open>
  The \<open>memcpy\<close> of the target, \<open>mytilus-string/asm/memcpy.S\<close>, and that it is the byte loop of
  \<open>mem.rs\<close>: blocks of the source in its order, with its register aliases resolved.
\<close>

datatype memcpy_label =
    Memcpy | Copy16 | Copy8 | Copy4 | Copy0 | Copy32_128 | Copy128 | Copy96
  | Copy_long | Loop64 | Copy64_from_end

type_synonym memcpy_code = "memcpy_label line list"

definition memcpy_entry :: memcpy_code where
  "memcpy_entry =
    [Alu (AddR 4 1 2),
     Alu (AddR 5 0 2),
     Alu (CmpI 2 128),
     Bcc HI Copy_long,
     Alu (CmpI 2 32),
     Bcc HI Copy32_128,
     Alu (CmpI 2 16),
     Bcc LO Copy16,
     Mem (Ldp 6 7 1 Off 0),
     Mem (Ldp 12 13 4 Off (- 16)),
     Mem (Stp 6 7 0 Off 0),
     Mem (Stp 12 13 5 Off (- 16)),
     Ret]"

definition copy16 :: memcpy_code where
  "copy16 =
    [Tbz 2 3 Copy8,
     Mem (Ldr 8 6 1 0),
     Mem (Ldr 8 7 4 (- 8)),
     Mem (Str 8 6 0 0),
     Mem (Str 8 7 5 (- 8)),
     Ret]"

definition copy8 :: memcpy_code where
  "copy8 =
    [Tbz 2 2 Copy4,
     Mem (Ldr 4 6 1 0),
     Mem (Ldr 4 8 4 (- 4)),
     Mem (Str 4 6 0 0),
     Mem (Str 4 8 5 (- 4)),
     Ret]"

definition copy4 :: memcpy_code where
  "copy4 =
    [Cbz 2 Copy0,
     Alu (LsrI 14 2 1),
     Mem (Ldr 1 6 1 0),
     Mem (Ldr 1 10 4 (- 1)),
     Mem (LdrbR 8 1 14),
     Mem (Str 1 6 0 0),
     Mem (StrbR 8 0 14),
     Mem (Str 1 10 5 (- 1))]"

definition copy0 :: memcpy_code where
  "copy0 = [Ret]"

definition copy32_128 :: memcpy_code where
  "copy32_128 =
    [Mem (Ldp 6 7 1 Off 0),
     Mem (Ldp 8 9 1 Off 16),
     Mem (Ldp 10 11 4 Off (- 32)),
     Mem (Ldp 12 13 4 Off (- 16)),
     Alu (CmpI 2 64),
     Bcc HI Copy128,
     Mem (Stp 6 7 0 Off 0),
     Mem (Stp 8 9 0 Off 16),
     Mem (Stp 10 11 5 Off (- 32)),
     Mem (Stp 12 13 5 Off (- 16)),
     Ret]"

definition copy128 :: memcpy_code where
  "copy128 =
    [Mem (Ldp 14 15 1 Off 32),
     Mem (Ldp 16 17 1 Off 48),
     Alu (CmpI 2 96),
     Bcc LS Copy96,
     Mem (Ldp 2 3 4 Off (- 64)),
     Mem (Ldp 1 4 4 Off (- 48)),
     Mem (Stp 2 3 5 Off (- 64)),
     Mem (Stp 1 4 5 Off (- 48))]"

definition copy96 :: memcpy_code where
  "copy96 =
    [Mem (Stp 6 7 0 Off 0),
     Mem (Stp 8 9 0 Off 16),
     Mem (Stp 14 15 0 Off 32),
     Mem (Stp 16 17 0 Off 48),
     Mem (Stp 10 11 5 Off (- 32)),
     Mem (Stp 12 13 5 Off (- 16)),
     Ret]"

definition copy_long :: memcpy_code where
  "copy_long =
    [Mem (Ldp 12 13 1 Off 0),
     Alu (AndI 14 0 15),
     Alu (BicI 3 0 15),
     Alu (SubR 1 1 14),
     Alu (AddR 2 2 14),
     Mem (Ldp 6 7 1 Off 16),
     Mem (Stp 12 13 0 Off 0),
     Mem (Ldp 8 9 1 Off 32),
     Mem (Ldp 10 11 1 Off 48),
     Mem (Ldp 12 13 1 Pre 64),
     Alu (SubsI 2 2 144),
     Bcc LS Copy64_from_end]"

definition loop64 :: memcpy_code where
  "loop64 =
    [Mem (Stp 6 7 3 Off 16),
     Mem (Ldp 6 7 1 Off 16),
     Mem (Stp 8 9 3 Off 32),
     Mem (Ldp 8 9 1 Off 32),
     Mem (Stp 10 11 3 Off 48),
     Mem (Ldp 10 11 1 Off 48),
     Mem (Stp 12 13 3 Pre 64),
     Mem (Ldp 12 13 1 Pre 64),
     Alu (SubsI 2 2 64),
     Bcc HI Loop64]"

definition copy64_from_end :: memcpy_code where
  "copy64_from_end =
    [Mem (Ldp 14 15 4 Off (- 64)),
     Mem (Stp 6 7 3 Off 16),
     Mem (Ldp 6 7 4 Off (- 48)),
     Mem (Stp 8 9 3 Off 32),
     Mem (Ldp 8 9 4 Off (- 32)),
     Mem (Stp 10 11 3 Off 48),
     Mem (Ldp 10 11 4 Off (- 16)),
     Mem (Stp 12 13 3 Off 64),
     Mem (Stp 14 15 5 Off (- 64)),
     Mem (Stp 6 7 5 Off (- 48)),
     Mem (Stp 8 9 5 Off (- 32)),
     Mem (Stp 10 11 5 Off (- 16)),
     Ret]"

definition memcpy_S :: "memcpy_label program" where
  "memcpy_S =
    [(Memcpy, memcpy_entry),
     (Copy16, copy16),
     (Copy8, copy8),
     (Copy4, copy4),
     (Copy0, copy0),
     (Copy32_128, copy32_128),
     (Copy128, copy128),
     (Copy96, copy96),
     (Copy_long, copy_long),
     (Loop64, loop64),
     (Copy64_from_end, copy64_from_end)]"

text \<open>A call of the routine with the arguments in \<open>x0\<close>, \<open>x1\<close> and \<open>x2\<close>.\<close>

definition memcpy_asm :: "'k env \<Rightarrow> 'k machine \<Rightarrow> (exit \<times> 'k machine) option" where
  "memcpy_asm E s = run E memcpy_S (code memcpy_S Memcpy) s"

lemma memcpy_code_of:
  "code memcpy_S Copy16 = copy16 @ code memcpy_S Copy8"
  "code memcpy_S Copy8 = copy8 @ code memcpy_S Copy4"
  "code memcpy_S Copy4 = copy4 @ code memcpy_S Copy0"
  "code memcpy_S Copy0 = copy0 @ code memcpy_S Copy32_128"
  "code memcpy_S Copy32_128 = copy32_128 @ code memcpy_S Copy128"
  "code memcpy_S Copy128 = copy128 @ code memcpy_S Copy96"
  "code memcpy_S Copy96 = copy96 @ code memcpy_S Copy_long"
  "code memcpy_S Copy_long = copy_long @ code memcpy_S Loop64"
  "code memcpy_S Loop64 = loop64 @ code memcpy_S Copy64_from_end"
  "code memcpy_S Memcpy = memcpy_entry @ code memcpy_S Copy16"
  by (simp_all add: code_def memcpy_S_def)

lemma memcpy_code_end: "code memcpy_S Copy64_from_end = copy64_from_end"
  by (simp add: code_def memcpy_S_def)


subsection \<open>Chunks of a source that is apart from the destination\<close>

definition copy_args :: "mem \<Rightarrow> ptr \<Rightarrow> ptr \<Rightarrow> u8 list \<Rightarrow> bool" where
  "copy_args m d q bs \<longleftrightarrow> bytes_at m q bs \<and> mapped m d (length bs) \<and> length bs < 2 ^ 64
     \<and> disjoint_spans d (length bs) q (length bs)"

lemma source_copied:
  assumes "copy_args m d q bs"
  shows "bytes_at (copied m d bs A) q bs"
proof -
  have "copied m d bs A (q + of_nat i) = m (q + of_nat i)" if "i < length bs" for i
  proof -
    have "q + of_nat i \<in> span q (length bs)" using that by (rule add_in_span)
    then have "q + of_nat i \<notin> span d (length bs)" using assms by (auto simp: copy_args_def)
    then show ?thesis by (simp add: copied_def span_def)
  qed
  with assms show ?thesis by (simp add: copy_args_def bytes_at_def)
qed

lemma ldn_chunk:
  assumes "copy_args m d q bs" "i + k \<le> length bs"
  shows "ldn (copied m d bs A) (adr q i) k = Some (chunk bs i k)"
proof -
  have "bytes_at (copied m d bs A) q (take i bs @ drop i bs)"
    using source_copied [OF assms(1)] by simp
  then have "bytes_at (copied m d bs A) (adr q i) (take k (drop i bs))"
    using assms(2) by (simp add: bytes_at_append adr_def bytes_at_take min_absorb2 del: append_take_drop_id)
  then have "load_bytes (copied m d bs A) (adr q i) k = Some (take k (drop i bs))"
    using assms(2) by (simp add: load_bytes_iff)
  then show ?thesis by (simp add: ldn_def chunk_def)
qed

lemma stn_chunk:
  assumes "copy_args m d q bs" "k \<le> 8" "i + k \<le> length bs"
  shows "stn (copied m d bs A) (adr d i) k (chunk bs i k) = Some (copied m d bs (A \<union> {i..<i + k}))"
proof (rule stn_part)
  have "to_le (length (take k (drop i bs))) (chunk bs i k) = take k (drop i bs)"
    unfolding chunk_def by (rule to_le_short) (use assms in simp)
  then show "to_le k (chunk bs i k) = take k (drop i bs)" using assms(3) by simp
qed (use assms in \<open>auto simp: copy_args_def\<close>)


subsection \<open>Up to 128 bytes\<close>

definition at_entry :: "'k machine \<Rightarrow> mem \<Rightarrow> ptr \<Rightarrow> ptr \<Rightarrow> u8 list \<Rightarrow> bool" where
  "at_entry s m d q bs \<longleftrightarrow> copy_args m d q bs \<and> xreg s 0 = adr d 0 \<and> xreg s 1 = adr q 0
     \<and> xreg s 2 = num (length bs) \<and> mram s = copied m d bs {}"

lemma entryD:
  assumes "at_entry s m d q bs"
  shows "copy_args m d q bs" "xreg s 0 = adr d 0" "xreg s (Suc 0) = adr q 0" "xreg s 2 = num (length bs)"
    "mram s = copied m d bs {}" "length bs < 2 ^ 64"
  using assms by (simp_all add: at_entry_def copy_args_def)

lemmas memcpy_blocks = memcpy_code_of memcpy_entry_def copy16_def copy8_def copy4_def copy0_def
  copy32_128_def copy128_def copy96_def

lemma memcpy_short:
  assumes "at_entry s m d q bs" "length bs \<le> 128"
  shows "returns E memcpy_S (code memcpy_S Memcpy) s (put m d bs)"
proof -
  note args = entryD [OF assms(1)]
  note mem = ldn_chunk [OF args(1)] stn_chunk [OF args(1)]
  have "bs = [] \<or> bs \<noteq> [] \<and> 1 \<le> length bs" by (cases bs) simp_all
  then consider "bs = []" | "bs \<noteq> []" "1 \<le> length bs" "length bs < 4" | "4 \<le> length bs" "length bs < 8"
    | "8 \<le> length bs" "length bs < 16" | "16 \<le> length bs" "length bs \<le> 32"
    | "32 < length bs" "length bs \<le> 64" | "64 < length bs" "length bs \<le> 96"
    | "96 < length bs" "length bs \<le> 128"
    using assms(2) by linarith
  then show ?thesis
    unfolding returns_def
    by cases
      (simp add: memcpy_blocks run_simps chunk_simps args mem; (rule copied_all; auto)?)+
qed


subsection \<open>The loop\<close>

text \<open>
  Between iterations: the next 64 bytes, from index \<open>i\<close> on, are in the registers, all before
  them are written, and the pointers are where the next iteration wants them.
\<close>

definition in_loop :: "'k machine \<Rightarrow> mem \<Rightarrow> ptr \<Rightarrow> ptr \<Rightarrow> u8 list \<Rightarrow> nat \<Rightarrow> bool" where
  "in_loop s m d q bs i \<longleftrightarrow> copy_args m d q bs
     \<and> xreg s 3 = adr d i - 16 \<and> xreg s 4 = adr q (length bs) \<and> xreg s 5 = adr d (length bs)
     \<and> xreg s 6 = chunk bs i 8 \<and> xreg s 7 = chunk bs (i + 8) 8
     \<and> xreg s 8 = chunk bs (i + 16) 8 \<and> xreg s 9 = chunk bs (i + 24) 8
     \<and> xreg s 10 = chunk bs (i + 32) 8 \<and> xreg s 11 = chunk bs (i + 40) 8
     \<and> xreg s 12 = chunk bs (i + 48) 8 \<and> xreg s 13 = chunk bs (i + 56) 8
     \<and> (\<exists>k\<ge>i. mram s = copied m d bs {0..<k})"

lemma in_loopD:
  assumes "in_loop s m d q bs i"
  shows "copy_args m d q bs" "xreg s 3 = adr d i - 16" "xreg s 4 = adr q (length bs)"
    "xreg s 5 = adr d (length bs)" "xreg s 6 = chunk bs i 8" "xreg s 7 = chunk bs (i + 8) 8"
    "xreg s 8 = chunk bs (i + 16) 8" "xreg s 9 = chunk bs (i + 24) 8"
    "xreg s 10 = chunk bs (i + 32) 8" "xreg s 11 = chunk bs (i + 40) 8"
    "xreg s 12 = chunk bs (i + 48) 8" "xreg s 13 = chunk bs (i + 56) 8"
    "length bs < 2 ^ 64" "\<exists>k\<ge>i. mram s = copied m d bs {0..<k}"
  using assms by (simp_all add: in_loop_def copy_args_def)

lemma from_end:
  assumes "in_loop s m d q bs i" "i + 64 \<le> length bs" "length bs \<le> i + 128"
  shows "returns E memcpy_S (code memcpy_S Copy64_from_end) s (put m d bs)"
proof -
  note regs = in_loopD(1-13) [OF assms(1)]
  note mem = ldn_chunk [OF regs(1)] stn_chunk [OF regs(1)]
  obtain k where k: "i \<le> k" "mram s = copied m d bs {0..<k}"
    using in_loopD(14) [OF assms(1)] by blast
  show ?thesis
    unfolding returns_def using assms(2,3) k
    by (simp add: memcpy_code_end copy64_from_end_def run_simps chunk_simps numeral_last mem regs) (rule copied_all; force)
qed

lemma loop64_step:
  assumes "in_loop s m d q bs i" "length bs = i + 128 + c" "0 < c"
    and "xreg s (Suc 0) = adr q (i + 48)" "xreg s 2 = num c"
  shows "\<exists>t. run E memcpy_S (code memcpy_S Loop64) s =
      run E memcpy_S (code memcpy_S (if 64 < c then Loop64 else Copy64_from_end)) t
    \<and> same_caller s t \<and> in_loop t m d q bs (i + 64)
    \<and> xreg t (Suc 0) = adr q (i + 112) \<and> xreg t 2 = num c - 64"
proof -
  note regs = in_loopD(1-13) [OF assms(1)] assms(4, 5)
  note mem = ldn_chunk [OF regs(1)] stn_chunk [OF regs(1)]
  obtain k where k: "i \<le> k" "mram s = copied m d bs {0..<k}"
    using in_loopD(14) [OF assms(1)] by blast
  define t where "t = s\<lparr>mram := copied m d bs ({0..<k} \<union> {i..<i + 64}),
      xreg := (xreg s)(6 := chunk bs (i + 64) 8, 7 := chunk bs (i + 72) 8,
        8 := chunk bs (i + 80) 8, 9 := chunk bs (i + 88) 8, 10 := chunk bs (i + 96) 8,
        11 := chunk bs (i + 104) 8, 3 := adr d (i + 48), 12 := chunk bs (i + 112) 8,
        13 := chunk bs (i + 120) 8, Suc 0 := adr q (i + 112))\<rparr>"
  have c: "c < 2 ^ 64" "i + 128 < length bs" using regs(13) assms(2,3) by linarith+
  have run: "run E memcpy_S (loop64 @ code memcpy_S Copy64_from_end) s =
      run E memcpy_S (code memcpy_S (if 64 < c then Loop64 else Copy64_from_end))
        (wr 2 (num c - 64) (sub_flags (num c) 64 t))"
    using c k
    by (simp add: loop64_def run_simps chunk_simps numeral_last mem regs t_def)
  have "{0..<k} \<union> {i..<i + 64} = {0..<max k (i + 64)}" using k(1) by auto
  then have "mram t = copied m d bs {0..<max k (i + 64)}" "i + 64 \<le> max k (i + 64)"
    by (simp_all add: t_def)
  then have "in_loop (wr 2 (num c - 64) (sub_flags (num c) 64 t)) m d q bs (i + 64)"
    unfolding in_loop_def
    by (intro conjI exI [of _ "max k (i + 64)"])
      (simp_all add: t_def run_simps chunk_simps numeral_last regs)
  moreover have "same_caller s (wr 2 (num c - 64) (sub_flags (num c) 64 t))"
    by (simp add: same_caller_def t_def run_simps)
  ultimately show ?thesis
    using run unfolding memcpy_code_of(9)
    by (intro exI [of _ "wr 2 (num c - 64) (sub_flags (num c) 64 t)"])
       (simp add: t_def run_simps)
qed

definition loop64_inv :: "mem \<Rightarrow> ptr \<Rightarrow> ptr \<Rightarrow> u8 list \<Rightarrow> nat \<Rightarrow> 'k machine \<Rightarrow> bool" where
  "loop64_inv m d q bs c s \<longleftrightarrow> (\<exists>i. in_loop s m d q bs i \<and> length bs = i + 128 + c
     \<and> xreg s (Suc 0) = adr q (i + 48) \<and> xreg s 2 = num c)"

interpretation loop64: counted_loop E memcpy_S "code memcpy_S Loop64" "code memcpy_S Copy64_from_end"
  "loop64_inv m d q bs" "put m d bs" for E m d q bs
proof unfold_locales
  fix c and s :: "'a machine"
  assume "loop64_inv m d q bs c s" "64 < c"
  then obtain i where i: "in_loop s m d q bs i" "length bs = i + 128 + c"
      "xreg s (Suc 0) = adr q (i + 48)" "xreg s 2 = num c"
    by (auto simp: loop64_inv_def)
  obtain t where t: "run E memcpy_S (code memcpy_S Loop64) s = run E memcpy_S (code memcpy_S Loop64) t"
    "same_caller s t" "in_loop t m d q bs (i + 64)"
    "xreg t (Suc 0) = adr q (i + 112)" "xreg t 2 = num c - 64"
    using loop64_step [OF i(1,2) _ i(3,4), of E] \<open>64 < c\<close> by auto
  have "loop64_inv m d q bs (c - 64) t"
    unfolding loop64_inv_def using t i(2) \<open>64 < c\<close>
    by (intro exI [of _ "i + 64"]) (simp add: chunk_simps numeral_last)
  with t show "\<exists>t. run E memcpy_S (code memcpy_S Loop64) s = run E memcpy_S (code memcpy_S Loop64) t
      \<and> same_caller s t \<and> loop64_inv m d q bs (c - 64) t" by blast
next
  fix c and s :: "'a machine"
  assume "loop64_inv m d q bs c s" "0 < c" "c \<le> 64"
  then obtain i where i: "in_loop s m d q bs i" "length bs = i + 128 + c"
      "xreg s (Suc 0) = adr q (i + 48)" "xreg s 2 = num c"
    by (auto simp: loop64_inv_def)
  obtain t where t: "run E memcpy_S (code memcpy_S Loop64) s =
      run E memcpy_S (code memcpy_S Copy64_from_end) t" "same_caller s t" "in_loop t m d q bs (i + 64)"
    using loop64_step [OF i(1,2) \<open>0 < c\<close> i(3,4), of E] \<open>c \<le> 64\<close> by auto
  moreover have "returns E memcpy_S (code memcpy_S Copy64_from_end) t (put m d bs)"
    using i(2) \<open>c \<le> 64\<close> by (intro from_end [OF t(3)]) simp_all
  ultimately show "\<exists>t. run E memcpy_S (code memcpy_S Loop64) s =
      run E memcpy_S (code memcpy_S Copy64_from_end) t \<and> same_caller s t
      \<and> returns E memcpy_S (code memcpy_S Copy64_from_end) t (put m d bs)" by blast
qed


subsection \<open>More than 128 bytes\<close>

lemma memcpy_long_entry:
  assumes "at_entry s m d q bs" "128 < length bs"
  obtains u where "run E memcpy_S (code memcpy_S Memcpy) s = run E memcpy_S (code memcpy_S Copy_long) u"
    "same_caller s u" "xreg u 0 = adr d 0" "xreg u (Suc 0) = adr q 0" "xreg u 2 = num (length bs)"
    "xreg u 4 = adr q (length bs)" "xreg u 5 = adr d (length bs)" "mram u = copied m d bs {}"
proof -
  note args = entryD [OF assms(1)]
  define u where "u = sub_flags (num (length bs)) 128
      (s\<lparr>xreg := (xreg s)(4 := adr q (length bs), 5 := adr d (length bs))\<rparr>)"
  have "run E memcpy_S (memcpy_entry @ code memcpy_S Copy16) s = run E memcpy_S (code memcpy_S Copy_long) u"
    using assms(2) args(6)
    by (simp add: memcpy_entry_def run_simps chunk_simps args u_def)
  then show ?thesis
    by (intro that [of u]) (simp_all add: memcpy_code_of(10) same_caller_def u_def run_simps args)
qed

text \<open>The head of the long copy: 16 bytes, the first 64 to move, and the aligned pointers.\<close>

lemma copy_long_head:
  assumes args: "copy_args m d q bs" and n: "128 < length bs" and k: "k = unat d mod 16" "e = 16 - k"
    and u: "xreg u 0 = adr d 0" "xreg u (Suc 0) = adr q 0" "xreg u 2 = num (length bs)"
      "xreg u 4 = adr q (length bs)" "xreg u 5 = adr d (length bs)" "mram u = copied m d bs {}"
  obtains v where "run E memcpy_S (code memcpy_S Copy_long) u =
      run E memcpy_S (code memcpy_S (if 144 < length bs + k then Loop64 else Copy64_from_end)) v"
    "same_caller u v" "in_loop v m d q bs e" "xreg v 2 = num (length bs + k) - 144"
    "xreg v (Suc 0) = adr q (e + 48)"
proof -
  have ek: "k < 16" "e \<le> 16" "e + k = 16" by (simp_all add: k)
  have "length bs \<le> 2 ^ 63" using args disjoint_half unfolding copy_args_def by blast
  then have len: "length bs + k < 2 ^ 64" using ek(1) by simp
  note mem = ldn_chunk [OF args] stn_chunk [OF args]
  define t where "t = u\<lparr>mram := copied m d bs {0..<16},
      xreg := (xreg u)(14 := num k,
        3 := adr d e - 16, 6 := chunk bs e 8, 7 := chunk bs (e + 8) 8,
        8 := chunk bs (e + 16) 8, 9 := chunk bs (e + 24) 8, 10 := chunk bs (e + 32) 8,
        11 := chunk bs (e + 40) 8, 12 := chunk bs (e + 48) 8, 13 := chunk bs (e + 56) 8,
        Suc 0 := adr q (e + 48))\<rparr>"
  define v where "v = wr 2 (num (length bs + k) - 144) (sub_flags (num (length bs + k)) 144 t)"
  have "run E memcpy_S (copy_long @ code memcpy_S Loop64) u =
      run E memcpy_S (code memcpy_S (if 144 < length bs + k then Loop64 else Copy64_from_end)) v"
    using n ek(1,2) len
    by (simp add: copy_long_def run_simps chunk_simps numeral_last [of _ e] mem u
        aligned_parts [OF k(1), folded k(2)] t_def v_def)
  moreover have "in_loop v m d q bs e"
    unfolding in_loop_def using ek(2)
    by (intro conjI exI [of _ 16]) (simp_all add: v_def t_def run_simps u args)
  ultimately show ?thesis
    by (intro that [of v])
      (simp_all add: memcpy_code_of(8) same_caller_def v_def t_def run_simps)
qed

lemma memcpy_long:
  assumes "at_entry s m d q bs" "128 < length bs"
  shows "returns E memcpy_S (code memcpy_S Memcpy) s (put m d bs)"
proof -
  define k where "k = unat d mod 16"
  define e where "e = 16 - k"
  have ek: "e + k = 16" by (simp add: k_def e_def)
  obtain u where u: "run E memcpy_S (code memcpy_S Memcpy) s = run E memcpy_S (code memcpy_S Copy_long) u"
    "same_caller s u" "xreg u 0 = adr d 0" "xreg u (Suc 0) = adr q 0" "xreg u 2 = num (length bs)"
    "xreg u 4 = adr q (length bs)" "xreg u 5 = adr d (length bs)" "mram u = copied m d bs {}"
    using memcpy_long_entry [OF assms] .
  obtain v where v: "run E memcpy_S (code memcpy_S Copy_long) u =
      run E memcpy_S (code memcpy_S (if 144 < length bs + k then Loop64 else Copy64_from_end)) v"
    "same_caller u v" "in_loop v m d q bs e" "xreg v 2 = num (length bs + k) - 144"
    "xreg v (Suc 0) = adr q (e + 48)"
    using copy_long_head [OF entryD(1) [OF assms(1)] assms(2) k_def e_def u(3-8)] .
  have "returns E memcpy_S (code memcpy_S Copy_long) u (put m d bs)"
  proof (cases "144 < length bs + k")
    case True
    have "loop64_inv m d q bs (length bs + k - 144) v"
      unfolding loop64_inv_def using True v(3-5)
      by (intro exI [of _ e] conjI) (use True ek in \<open>simp_all add: chunk_simps\<close>)
    then have "returns E memcpy_S (code memcpy_S Loop64) v (put m d bs)"
      by (rule loop64.loop_returns) (use True in arith)
    then show ?thesis using v(1,2) True by (auto intro: returns_via)
  next
    case False
    then have "returns E memcpy_S (code memcpy_S Copy64_from_end) v (put m d bs)"
      using ek assms(2) by (intro from_end [OF v(3)]) simp_all
    then show ?thesis using v(1,2) False by (auto intro: returns_via)
  qed
  with u(1,2) show ?thesis by (auto intro: returns_via)
qed

text \<open>
  C2. A call of the assembly routine with any source and destination that do not overlap returns to
  the caller with the result and the memory of the byte loop of \<open>mem.rs\<close>: the bytes of the
  source are at the destination, nothing else is written, no access leaves the two regions, and
  the callee-saved registers are as before.
\<close>

theorem memcpy_asm_is_memcpy:
  assumes "bytes_at (mram s) (xreg s 1) bs" "length bs = unat (xreg s 2)"
    and "mapped (mram s) (xreg s 0) (length bs)"
    and "disjoint_spans (xreg s 0) (length bs) (xreg s 1) (length bs)"
  shows "\<exists>s'. memcpy_asm E s = Some (To (xreg s 30), s')
    \<and> memcpy (mram s) (xreg s 0) (xreg s 1) (xreg s 2) = Some (xreg s' 0, mram s')
    \<and> mram s' = put (mram s) (xreg s 0) bs \<and> spreg s' = spreg s
    \<and> (\<forall>r\<ge>18. xreg s' r = xreg s r) \<and> (\<forall>r\<in>{8..15}. vreg s' r = vreg s r)"
proof -
  have "at_entry s (mram s) (xreg s 0) (xreg s 1) bs"
    using assms unat_lt_64 [of "xreg s 2"]
    by (simp add: at_entry_def copy_args_def copied_none adr_def num_def)
  then have "returns E memcpy_S (code memcpy_S Memcpy) s (put (mram s) (xreg s 0) bs)"
    by (cases "length bs \<le> 128") (simp_all add: memcpy_short memcpy_long)
  moreover have "memcpy (mram s) (xreg s 0) (xreg s 1) (xreg s 2)
      = Some (xreg s 0, put (mram s) (xreg s 0) bs)"
    using assms by (intro memcpy_correct) simp_all
  ultimately show ?thesis by (auto simp: returns_def memcpy_asm_def)
qed

theorem memcpy_asm_is_memcpy_witness:
  "\<exists>s'. memcpy_asm zva_env
      (machine_with 4296 4096 200 (mem_of 4096 (replicate 200 7 @ replicate 200 0))) = Some (To 30, s')
    \<and> bytes_at (mram s') 4296 (replicate 200 7)"
proof -
  let ?m = "mem_of 4096 (replicate 200 (7 :: u8) @ replicate 200 0)"
  let ?s = "machine_with 4296 4096 200 ?m"
  have "bytes_at ?m 4096 (replicate 200 7 @ replicate 200 0)" by (rule bytes_at_mem_of) simp
  then have "bytes_at ?m 4096 (replicate 200 7)" "mapped ?m 4296 200"
    by (auto simp: bytes_at_append dest: bytes_at_mapped)
  moreover have "disjoint_spans 4296 200 4096 200"
    by (rule disjoint_spans_le) simp_all
  ultimately obtain s' where "memcpy_asm zva_env ?s = Some (To (xreg ?s 30), s')"
      "mram s' = put (mram ?s) (xreg ?s 0) (replicate 200 7)"
    using memcpy_asm_is_memcpy [of ?s "replicate 200 7" zva_env] by (auto simp: machine_with_def)
  then show ?thesis by (simp add: machine_with_def bytes_at_put)
qed

end
