(* ===== verification/Memset_Asm.thy ===== *)
theory Memset_Asm
  imports Chunks Mem_Ops
begin

unbundle bit_operations_syntax

section \<open>memset.S\<close>

text \<open>
  The \<open>memset\<close> of the target, \<open>mytilus-string/asm/memset.S\<close>, with its cache-block path, and
  that it is the byte loop of \<open>mem.rs\<close>. The local labels \<open>1\<close> to \<open>3\<close> of the source have the
  names \<open>Set1\<close> to \<open>Set3\<close>, the second \<open>1\<close> the name \<open>Medium1\<close>.
\<close>

datatype memset_label =
    Memset | Set1 | Set2 | Set3 | Set_medium | Medium1 | Set96 | Set_long | Zva_loop
  | No_zva | No_zva_loop

type_synonym memset_code = "memset_label line list"

definition memset_entry :: memset_code where
  "memset_entry =
    [Sys (Dup16B 0 1),
     Alu (AddR 4 0 2),
     Alu (CmpI 2 96),
     Bcc HI Set_long,
     Alu (CmpI 2 16),
     Bcc HS Set_medium,
     Sys (MovD0 1 0),
     Tbz 2 3 Set1,
     Mem (Str 8 1 0 0),
     Mem (Str 8 1 4 (- 8)),
     Ret,
     Sys Nop]"

definition set1 :: memset_code where
  "set1 =
    [Tbz 2 2 Set2,
     Mem (Str 4 1 0 0),
     Mem (Str 4 1 4 (- 4)),
     Ret]"

definition set2 :: memset_code where
  "set2 =
    [Cbz 2 Set3,
     Mem (Str 1 1 0 0),
     Tbz 2 1 Set3,
     Mem (Str 2 1 4 (- 2))]"

definition set3 :: memset_code where
  "set3 = [Ret]"

definition set_medium :: memset_code where
  "set_medium =
    [Mem (StrQ 0 0 0),
     Tbnz 2 6 Set96,
     Mem (StrQ 0 4 (- 16)),
     Tbz 2 5 Medium1,
     Mem (StrQ 0 0 16),
     Mem (StrQ 0 4 (- 32))]"

definition medium1 :: memset_code where
  "medium1 = [Ret]"

definition set96 :: memset_code where
  "set96 =
    [Mem (StrQ 0 0 16),
     Mem (StpQ 0 0 0 Off 32),
     Mem (StpQ 0 0 4 Off (- 32)),
     Ret]"

definition set_long :: memset_code where
  "set_long =
    [Alu (AndWI 1 1 255),
     Alu (BicI 3 0 15),
     Mem (StrQ 0 0 0),
     Alu (CmpI 2 160),
     Alu (CcmpWI 1 0 False False False False HS),
     Bcc NE No_zva,
     Sys (MrsDczid 5),
     Alu (AndI 5 5 31),
     Alu (CmpI 5 4),
     Bcc NE No_zva,
     Mem (StrQ 0 3 16),
     Mem (StpQ 0 0 3 Off 32),
     Alu (BicI 3 3 63),
     Alu (SubR 2 4 3),
     Alu (SubI 2 2 128)]"

definition zva_loop :: memset_code where
  "zva_loop =
    [Alu (AddI 3 3 64),
     Sys (DcZva 3),
     Alu (SubsI 2 2 64),
     Bcc HI Zva_loop,
     Mem (StpQ 0 0 4 Off (- 64)),
     Mem (StpQ 0 0 4 Off (- 32)),
     Ret]"

definition no_zva :: memset_code where
  "no_zva =
    [Alu (SubR 2 4 3),
     Alu (SubI 3 3 16),
     Alu (SubI 2 2 80)]"

definition no_zva_loop :: memset_code where
  "no_zva_loop =
    [Mem (StpQ 0 0 3 Off 32),
     Mem (StpQ 0 0 3 Pre 64),
     Alu (SubsI 2 2 64),
     Bcc HI No_zva_loop,
     Mem (StpQ 0 0 4 Off (- 64)),
     Mem (StpQ 0 0 4 Off (- 32)),
     Ret]"

definition memset_S :: "memset_label program" where
  "memset_S =
    [(Memset, memset_entry),
     (Set1, set1),
     (Set2, set2),
     (Set3, set3),
     (Set_medium, set_medium),
     (Medium1, medium1),
     (Set96, set96),
     (Set_long, set_long),
     (Zva_loop, zva_loop),
     (No_zva, no_zva),
     (No_zva_loop, no_zva_loop)]"

text \<open>A call of the routine with the arguments in \<open>x0\<close>, \<open>w1\<close> and \<open>x2\<close>.\<close>

definition memset_asm :: "'k env \<Rightarrow> 'k machine \<Rightarrow> (exit \<times> 'k machine) option" where
  "memset_asm E s = run E memset_S (code memset_S Memset) s"

lemma memset_code_of:
  "code memset_S Memset = memset_entry @ code memset_S Set1"
  "code memset_S Set1 = set1 @ code memset_S Set2"
  "code memset_S Set2 = set2 @ code memset_S Set3"
  "code memset_S Set3 = set3 @ code memset_S Set_medium"
  "code memset_S Set_medium = set_medium @ code memset_S Medium1"
  "code memset_S Medium1 = medium1 @ code memset_S Set96"
  "code memset_S Set96 = set96 @ code memset_S Set_long"
  "code memset_S Set_long = set_long @ code memset_S Zva_loop"
  "code memset_S Zva_loop = zva_loop @ code memset_S No_zva"
  "code memset_S No_zva = no_zva @ code memset_S No_zva_loop"
  by (simp_all add: code_def memset_S_def)

lemma memset_code_end: "code memset_S No_zva_loop = no_zva_loop"
  by (simp add: code_def memset_S_def)


subsection \<open>Stores of the fill byte\<close>

text \<open>\<open>q0\<close> and \<open>val\<close> once the byte is in all their places.\<close>

definition fill_q :: "u8 \<Rightarrow> 128 word" where
  "fill_q b = of_le (replicate 16 b)"

definition fill_x :: "u8 \<Rightarrow> u64" where
  "fill_x b = ucast (fill_q b)"

definition fill_args :: "mem \<Rightarrow> ptr \<Rightarrow> nat \<Rightarrow> bool" where
  "fill_args m d n \<longleftrightarrow> mapped m d n \<and> n < 2 ^ 64"

lemma to_le_fill_q: "to_le 16 (fill_q b) = replicate 16 b"
  using to_le_short [of "replicate 16 b", where 'a = 128] by (simp add: fill_q_def)

lemma take_to_le: "k \<le> n \<Longrightarrow> take k (to_le n a) = to_le k a"
  by (simp add: to_le_def take_map)

lemma to_le_fill_x: "k \<le> 8 \<Longrightarrow> to_le k (fill_x b) = replicate k b"
proof -
  assume k: "k \<le> 8"
  have "to_le k (fill_x b) = to_le k (fill_q b)"
    using k by (auto simp: to_le_def fill_x_def bit_simps intro!: bit_word_eqI)
  also have "\<dots> = take k (to_le 16 (fill_q b))" using k by (simp add: take_to_le)
  finally show ?thesis using k by (simp add: to_le_fill_q)
qed

lemma stn_fill:
  assumes "fill_args m d n" "i + k \<le> n" "to_le k a = replicate k b"
  shows "stn (copied m d (replicate n b) A) (adr d i) k a = Some (copied m d (replicate n b) (A \<union> {i..<i + k}))"
  using assms by (intro stn_part) (simp_all add: fill_args_def)

lemma stn_fill_q:
  "fill_args m d n \<Longrightarrow> i + 16 \<le> n \<Longrightarrow> stn (copied m d (replicate n b) A) (adr d i) 16 (fill_q b)
    = Some (copied m d (replicate n b) (A \<union> {i..<i + 16}))"
  by (rule stn_fill [OF _ _ to_le_fill_q])

lemma stn_fill_x:
  "fill_args m d n \<Longrightarrow> i + k \<le> n \<Longrightarrow> k \<le> 8 \<Longrightarrow> stn (copied m d (replicate n b) A) (adr d i) k (fill_x b)
    = Some (copied m d (replicate n b) (A \<union> {i..<i + k}))"
  by (rule stn_fill [OF _ _ to_le_fill_x])

lemma zero_block:
  "fill_args m d n \<Longrightarrow> i + 64 \<le> n \<Longrightarrow>
    store_bytes (copied m d (replicate n 0) A) (adr d i) (replicate 64 0)
    = Some (copied m d (replicate n 0) (A \<union> {i..<i + 64}))"
  using copied_put [of i "replicate 64 0" "replicate n 0" m d A]
    mapped_part [of m d n i 64 "replicate n 0" A]
  by (simp add: fill_args_def store_bytes_def)

lemma copied_fill: "{0..<n} \<subseteq> A \<Longrightarrow> copied m d (replicate n b) A = put m d (replicate n b)"
  by (rule copied_all) simp


subsection \<open>Up to 96 bytes\<close>

text \<open>At the label \<open>Memset\<close>, and with the fill value and the end in their registers.\<close>

definition at_memset :: "'k machine \<Rightarrow> mem \<Rightarrow> ptr \<Rightarrow> u8 \<Rightarrow> nat \<Rightarrow> bool" where
  "at_memset s m d b n \<longleftrightarrow> fill_args m d n \<and> xreg s 0 = adr d 0 \<and> ucast (xreg s 1) = b
     \<and> xreg s 2 = num n \<and> mram s = copied m d (replicate n b) {}"

lemma at_memsetD:
  assumes "at_memset s m d b n"
  shows "fill_args m d n" "xreg s 0 = adr d 0" "ucast (xreg s (Suc 0)) = b" "xreg s 2 = num n"
    "mram s = copied m d (replicate n b) {}" "n < 2 ^ 64"
  using assms by (simp_all add: at_memset_def fill_args_def)

lemma fill_values:
  "(of_le (replicate 16 b) :: 128 word) = fill_q b" "(ucast (fill_q b) :: u64) = fill_x b"
  by (simp_all add: fill_q_def fill_x_def)

lemmas memset_blocks = memset_code_of memset_entry_def set1_def set2_def set3_def set_medium_def
  medium1_def set96_def

lemma memset_short:
  assumes "at_memset s m d b n" "n \<le> 96"
  shows "returns E memset_S (code memset_S Memset) s (put m d (replicate n b))"
proof -
  note args = at_memsetD [OF assms(1)]
  note mem = stn_fill_q [OF args(1)] stn_fill_x [OF args(1)] fill_values
  consider "n = 0" | "1 \<le> n" "n < 2" | "2 \<le> n" "n < 4" | "4 \<le> n" "n < 8" | "8 \<le> n" "n < 16"
    | "16 \<le> n" "n < 32" | "32 \<le> n" "n < 64" | "64 \<le> n" "n \<le> 96"
    using assms(2) by linarith
  then show ?thesis
    unfolding returns_def
    by cases
      (simp add: memset_blocks run_simps chunk_simps args mem; (rule copied_fill; auto)?)+
qed


subsection \<open>More than 96 bytes, without cache blocks\<close>

text \<open>
  Between iterations all bytes before index \<open>i\<close> are written, and \<open>x3\<close> is \<open>bias\<close> bytes before
  the place where the next iteration writes.
\<close>

definition filling :: "u64 \<Rightarrow> 'k machine \<Rightarrow> mem \<Rightarrow> ptr \<Rightarrow> u8 \<Rightarrow> nat \<Rightarrow> nat \<Rightarrow> bool" where
  "filling bias s m d b n i \<longleftrightarrow> fill_args m d n
     \<and> xreg s 3 = adr d i - bias \<and> xreg s 4 = adr d n \<and> vreg s 0 = fill_q b
     \<and> (\<exists>k\<ge>i. mram s = copied m d (replicate n b) {0..<k})"

lemma fillingD:
  assumes "filling bias s m d b n i"
  shows "fill_args m d n" "xreg s 3 = adr d i - bias" "xreg s 4 = adr d n" "vreg s 0 = fill_q b"
    "n < 2 ^ 64" "\<exists>k\<ge>i. mram s = copied m d (replicate n b) {0..<k}"
  using assms by (simp_all add: filling_def fill_args_def)

text \<open>Both loops leave the last 64 bytes to the same two stores.\<close>

lemma fill_end:
  assumes "filling bias s m d b n i" "64 \<le> n" "n \<le> i + 64"
  shows "returns E memset_S
      (Mem (StpQ 0 0 4 Off (- 64)) # Mem (StpQ 0 0 4 Off (- 32)) # Ret # is) s (put m d (replicate n b))"
proof -
  note regs = fillingD(1-5) [OF assms(1)]
  obtain k where k: "i \<le> k" "mram s = copied m d (replicate n b) {0..<k}"
    using fillingD(6) [OF assms(1)] by blast
  show ?thesis
    unfolding returns_def using assms(2,3) k
    by (simp add: run_simps chunk_simps numeral_last stn_fill_q [OF regs(1)] regs)
       (rule copied_fill; force)
qed

text \<open>
  One iteration with \<open>c\<close> bytes left beyond the next and the last 64, in a loop of four lines at
  the label \<open>l\<close>.
\<close>

definition fill_step :: "u64 \<Rightarrow> 'k env \<Rightarrow> memset_label \<Rightarrow> memset_code \<Rightarrow> 'k machine \<Rightarrow> mem \<Rightarrow> ptr
    \<Rightarrow> u8 \<Rightarrow> nat \<Rightarrow> nat \<Rightarrow> nat \<Rightarrow> bool" where
  "fill_step bias E l is s m d b n i c \<longleftrightarrow> (\<exists>t. run E memset_S (code memset_S l) s =
       run E memset_S (if 64 < c then code memset_S l else drop 4 is) t
     \<and> same_caller s t \<and> filling bias t m d b n (i + 64) \<and> xreg t 2 = num c - 64)"

lemma fill_step_again:
  assumes "fill_step bias E l is s m d b n i c" "64 < c"
  obtains t where "run E memset_S (code memset_S l) s = run E memset_S (code memset_S l) t"
    "same_caller s t" "filling bias t m d b n (i + 64)" "xreg t 2 = num (c - 64)"
  using assms by (auto simp: fill_step_def chunk_simps)

lemma fill_step_leave:
  assumes "fill_step bias E l is s m d b n i c" "c \<le> 64" "n = i + 64 + c"
    and "drop 4 is = Mem (StpQ 0 0 4 Off (- 64)) # Mem (StpQ 0 0 4 Off (- 32)) # Ret # js"
  shows "\<exists>t. run E memset_S (code memset_S l) s = run E memset_S (drop 4 is) t \<and> same_caller s t
    \<and> returns E memset_S (drop 4 is) t (put m d (replicate n b))"
proof -
  obtain t where t: "run E memset_S (code memset_S l) s = run E memset_S (drop 4 is) t"
      "same_caller s t" "filling bias t m d b n (i + 64)"
    using assms(1,2) by (auto simp: fill_step_def)
  have "returns E memset_S (drop 4 is) t (put m d (replicate n b))"
    unfolding assms(4) by (rule fill_end [OF t(3)]) (use assms(2,3) in simp_all)
  with t show ?thesis by blast
qed

lemma no_zva_step:
  assumes "filling 32 s m d b n i" "n = i + 64 + c" "0 < c" "xreg s 2 = num c"
  shows "fill_step 32 E No_zva_loop no_zva_loop s m d b n i c"
proof -
  note regs = fillingD(1-5) [OF assms(1)] assms(4)
  obtain k where k: "i \<le> k" "mram s = copied m d (replicate n b) {0..<k}"
    using fillingD(6) [OF assms(1)] by blast
  define t where "t = s\<lparr>mram := copied m d (replicate n b) ({0..<k} \<union> {i..<i + 64}),
      xreg := (xreg s)(3 := adr d (i + 32))\<rparr>"
  define t' where "t' = wr 2 (num c - 64) (sub_flags (num c) 64 t)"
  have c: "c < 2 ^ 64" "i + 64 < n" using regs(5) assms(2,3) by linarith+
  have run: "run E memset_S no_zva_loop s =
      run E memset_S (if 64 < c then code memset_S No_zva_loop else drop 4 no_zva_loop) t'"
    using c k
    by (simp add: no_zva_loop_def run_simps chunk_simps numeral_last stn_fill_q [OF regs(1)]
        regs t_def t'_def)
  have "{0..<k} \<union> {i..<i + 64} = {0..<max k (i + 64)}" using k(1) by auto
  then have "filling 32 t' m d b n (i + 64)"
    unfolding filling_def
    by (intro conjI exI [of _ "max k (i + 64)"])
      (simp_all add: t_def t'_def run_simps chunk_simps numeral_last regs)
  moreover have "same_caller s t'" by (simp add: same_caller_def t_def t'_def run_simps)
  ultimately show ?thesis
    unfolding fill_step_def memset_code_end
    using run by (intro exI [of _ t']) (simp add: t'_def run_simps memset_code_end)
qed

definition no_zva_inv :: "mem \<Rightarrow> ptr \<Rightarrow> u8 \<Rightarrow> nat \<Rightarrow> nat \<Rightarrow> 'k machine \<Rightarrow> bool" where
  "no_zva_inv m d b n c s \<longleftrightarrow> (\<exists>i. filling 32 s m d b n i \<and> n = i + 64 + c \<and> xreg s 2 = num c)"

interpretation no_zva: counted_loop E memset_S "code memset_S No_zva_loop" "drop 4 no_zva_loop"
  "no_zva_inv m d b n" "put m d (replicate n b)" for E m d b n
proof unfold_locales
  fix c and s :: "'a machine"
  assume "no_zva_inv m d b n c s" "64 < c"
  then obtain i where i: "filling 32 s m d b n i" "n = i + 64 + c" "xreg s 2 = num c"
    by (auto simp: no_zva_inv_def)
  have "fill_step 32 E No_zva_loop no_zva_loop s m d b n i c"
    using i \<open>64 < c\<close> by (intro no_zva_step) simp_all
  then obtain t where t: "run E memset_S (code memset_S No_zva_loop) s =
      run E memset_S (code memset_S No_zva_loop) t" "same_caller s t"
      "filling 32 t m d b n (i + 64)" "xreg t 2 = num (c - 64)"
    using \<open>64 < c\<close> by (rule fill_step_again)
  then have "no_zva_inv m d b n (c - 64) t"
    unfolding no_zva_inv_def using i(2) \<open>64 < c\<close> by (intro exI [of _ "i + 64"]) simp
  with t show "\<exists>t. run E memset_S (code memset_S No_zva_loop) s =
      run E memset_S (code memset_S No_zva_loop) t \<and> same_caller s t \<and> no_zva_inv m d b n (c - 64) t"
    by blast
next
  fix c and s :: "'a machine"
  assume "no_zva_inv m d b n c s" "0 < c" "c \<le> 64"
  then show "\<exists>t. run E memset_S (code memset_S No_zva_loop) s = run E memset_S (drop 4 no_zva_loop) t
      \<and> same_caller s t \<and> returns E memset_S (drop 4 no_zva_loop) t (put m d (replicate n b))"
    unfolding no_zva_inv_def
    by (elim exE conjE) (rule fill_step_leave [OF no_zva_step]; simp add: no_zva_loop_def)
qed


subsection \<open>Clearing cache blocks\<close>

lemma align_block: "unat (adr d i) mod 64 = 0 \<Longrightarrow> adr d i AND - 64 = adr d i"
  using align_down [of "adr d i" 6] by (simp add: mask_eq_exp_minus_1)

lemma next_block: "unat (adr d i) mod 64 = 0 \<Longrightarrow> unat (adr d (i + 64)) mod 64 = 0"
proof -
  assume i: "unat (adr d i) mod 64 = 0"
  have "unat (adr d (i + 64)) = (unat (adr d i) + 64) mod 2 ^ 64"
    using unat_word_ariths(1) [of "adr d i" 64] by (simp add: chunk_simps)
  then have "unat (adr d (i + 64)) mod 64 = (unat (adr d i) + 64) mod 64"
    by (simp add: mod_mod_cancel)
  with i show ?thesis by simp
qed

lemma zva_step:
  assumes "filling 64 s m d 0 n i" "n = i + 64 + c" "0 < c" "xreg s 2 = num c"
    and "unat (adr d i) mod 64 = 0" "take_bit 5 (dczid E) = 4"
  shows "fill_step 64 E Zva_loop (zva_loop @ code memset_S No_zva) s m d 0 n i c"
proof -
  note regs = fillingD(1-5) [OF assms(1)] assms(4)
  obtain k where k: "i \<le> k" "mram s = copied m d (replicate n 0) {0..<k}"
    using fillingD(6) [OF assms(1)] by blast
  define t where "t = s\<lparr>xreg := (xreg s)(3 := adr d i),
      mram := copied m d (replicate n 0) ({0..<k} \<union> {i..<i + 64})\<rparr>"
  define t' where "t' = wr 2 (num c - 64) (sub_flags (num c) 64 t)"
  have c: "c < 2 ^ 64" "i + 64 < n" using regs(5) assms(2,3) by linarith+
  have run: "run E memset_S (zva_loop @ code memset_S No_zva) s =
      run E memset_S (if 64 < c then code memset_S Zva_loop
        else drop 4 (zva_loop @ code memset_S No_zva)) t'"
    using c k assms(6)
    by (simp add: zva_loop_def run_simps chunk_simps zero_block [OF regs(1)]
        align_block [OF assms(5)] regs t_def t'_def)
  have "{0..<k} \<union> {i..<i + 64} = {0..<max k (i + 64)}" using k(1) by auto
  then have "filling 64 t' m d 0 n (i + 64)"
    unfolding filling_def
    by (intro conjI exI [of _ "max k (i + 64)"])
      (simp_all add: t_def t'_def run_simps chunk_simps numeral_last regs)
  moreover have "same_caller s t'" by (simp add: same_caller_def t_def t'_def run_simps)
  ultimately show ?thesis
    unfolding fill_step_def
    using run by (intro exI [of _ t']) (simp add: t'_def run_simps memset_code_of(9))
qed

definition zva_inv :: "'k env \<Rightarrow> mem \<Rightarrow> ptr \<Rightarrow> nat \<Rightarrow> nat \<Rightarrow> 'k machine \<Rightarrow> bool" where
  "zva_inv E m d n c s \<longleftrightarrow> (\<exists>i. filling 64 s m d 0 n i \<and> n = i + 64 + c \<and> xreg s 2 = num c
     \<and> unat (adr d i) mod 64 = 0 \<and> take_bit 5 (dczid E) = 4)"

interpretation zva: counted_loop E memset_S "code memset_S Zva_loop"
  "drop 4 (zva_loop @ code memset_S No_zva)" "zva_inv E m d n" "put m d (replicate n 0)" for E m d n
proof unfold_locales
  let ?L = "zva_loop @ code memset_S No_zva"
  fix c and s :: "'a machine"
  assume "zva_inv E m d n c s" "64 < c"
  then obtain i where i: "filling 64 s m d 0 n i" "n = i + 64 + c" "xreg s 2 = num c"
      "unat (adr d i) mod 64 = 0" "take_bit 5 (dczid E) = 4"
    by (auto simp: zva_inv_def)
  have "fill_step 64 E Zva_loop ?L s m d 0 n i c"
    using i(1-2) _ i(3-) by (rule zva_step) (use \<open>64 < c\<close> in simp)
  then obtain t where t: "run E memset_S (code memset_S Zva_loop) s =
      run E memset_S (code memset_S Zva_loop) t" "same_caller s t"
      "filling 64 t m d 0 n (i + 64)" "xreg t 2 = num (c - 64)"
    using \<open>64 < c\<close> by (rule fill_step_again)
  then have "zva_inv E m d n (c - 64) t"
    unfolding zva_inv_def using i(2,4,5) \<open>64 < c\<close> by (intro exI [of _ "i + 64"]) (simp add: next_block)
  with t show "\<exists>t. run E memset_S (code memset_S Zva_loop) s = run E memset_S (code memset_S Zva_loop) t
      \<and> same_caller s t \<and> zva_inv E m d n (c - 64) t" by blast
next
  let ?L = "zva_loop @ code memset_S No_zva"
  fix c and s :: "'a machine"
  assume "zva_inv E m d n c s" "0 < c" "c \<le> 64"
  then show "\<exists>t. run E memset_S (code memset_S Zva_loop) s = run E memset_S (drop 4 ?L) t
      \<and> same_caller s t \<and> returns E memset_S (drop 4 ?L) t (put m d (replicate n 0))"
    unfolding zva_inv_def
    by (elim exE conjE) (rule fill_step_leave [OF zva_step]; simp add: zva_loop_def)
qed


subsection \<open>More than 96 bytes\<close>

lemma block_parts:
  assumes "e = 16 - unat d mod 16" "f = 64 - unat d mod 64"
  shows "adr d 0 AND - 16 = adr d e - 16" "(adr d e - 16) AND - 64 = adr d f - 64"
    "unat (adr d f) mod 64 = 0"
proof -
  have masks: "(- 16 :: u64) = NOT (mask 4)" "(- 64 :: u64) = NOT (mask 6)"
    by (simp_all add: mask_eq_exp_minus_1)
  show e: "adr d 0 AND - 16 = adr d e - 16"
    using aligned_parts(2) [of "unat d mod 16" d] assms(1) by simp
  have f: "d AND NOT (mask 6) = adr d f - 64"
    by (simp add: align_down adr_def assms(2) of_nat_diff)
  have "(d AND NOT (mask 4)) AND NOT (mask 6) = d AND NOT (mask 6)"
    by (auto intro!: bit_word_eqI simp: bit_simps)
  then show "(adr d e - 16) AND - 64 = adr d f - 64"
    unfolding e [symmetric] f [symmetric] masks by (simp add: adr_def)
  have "unat (adr d f - 64) mod 64 = 0"
    unfolding f [symmetric] by (simp add: unat_align_down mod_eq_0_iff_dvd)
  then show "unat (adr d f) mod 64 = 0"
    using next_block [of "adr d f - 64" 0] by (simp add: adr_def)
qed

text \<open>The first test for the cache-block path: the fill value is zero.\<close>

lemma fill_is_zero:
  "(ucast (ucast ((ucast (x :: u64) :: u32) AND 255) :: u64) :: u32) = 0 \<longleftrightarrow> (ucast x :: u8) = 0"
proof -
  have "(ucast x :: u32) AND 255 = take_bit 8 (ucast x)"
    by (simp add: take_bit_eq_mask mask_eq_exp_minus_1)
  moreover have "(ucast (ucast (take_bit 8 (ucast x :: u32)) :: u64) :: u32) = ucast (ucast x :: u8)"
    by (intro bit_word_eqI) (auto simp: bit_simps)
  moreover have "(ucast a :: u32) = 0 \<longleftrightarrow> a = 0" for a :: u8
    by transfer simp
  ultimately show ?thesis by simp
qed

subsection \<open>The two paths\<close>

lemma memset_long_entry:
  assumes "at_memset s m d b n" "96 < n"
  obtains u where "run E memset_S (code memset_S Memset) s = run E memset_S (code memset_S Set_long) u"
    "same_caller s u" "at_memset u m d b n" "xreg u 4 = adr d n" "vreg u 0 = fill_q b"
proof -
  note args = at_memsetD [OF assms(1)]
  define u where "u = sub_flags (num n) 96
      (s\<lparr>vreg := (vreg s)(0 := fill_q b), xreg := (xreg s)(4 := adr d n)\<rparr>)"
  have "run E memset_S (memset_entry @ code memset_S Set1) s = run E memset_S (code memset_S Set_long) u"
    using assms(2) args(6)
    by (simp add: memset_entry_def run_simps chunk_simps args fill_values u_def)
  then show ?thesis
    using assms(1)
    by (intro that [of u])
      (simp_all add: memset_code_of(1) same_caller_def at_memset_def u_def run_simps)
qed

lemma dczid_mask: "x AND 31 = take_bit 5 (x :: u64)"
  by (simp add: take_bit_eq_mask mask_eq_exp_minus_1)

lemma set_long_no_zva:
  assumes u: "at_memset u m d b n" "xreg u 4 = adr d n" "vreg u 0 = fill_q b" and n: "96 < n"
    and plain: "\<not> (160 \<le> n \<and> b = 0 \<and> take_bit 5 (dczid E) = 4)" and e: "e = 16 - unat d mod 16"
  obtains v where "run E memset_S (code memset_S Set_long) u = run E memset_S (code memset_S No_zva) v"
    "same_caller u v" "filling 16 v m d b n e"
proof -
  note args = at_memsetD [OF u(1)] u(2,3)
  have e16: "e \<le> 16" "1 \<le> e" using e by simp_all
  define w where "w = (ucast ((ucast (xreg u (Suc 0)) :: u32) AND 255) :: u64)"
  define v where "v =
     (if 160 \<le> n \<and> b = 0 then sub_flags (take_bit 5 (dczid E)) 4
        (u\<lparr>mram := copied m d (replicate n b) {0..<16}, xreg := (xreg u)(Suc 0 := w,
           3 := adr d e - 16, 5 := take_bit 5 (dczid E))\<rparr>)
      else if 160 \<le> n then sub_flags (ucast w :: u32) 0 (u\<lparr>xreg := (xreg u)(Suc 0 := w,
           3 := adr d e - 16), mram := copied m d (replicate n b) {0..<16}\<rparr>)
      else u\<lparr>xreg := (xreg u)(Suc 0 := w, 3 := adr d e - 16),
           mram := copied m d (replicate n b) {0..<16}, fN := False, fZ := False, fC := False,
           fV := False\<rparr>)"
  have "run E memset_S (set_long @ code memset_S Zva_loop) u = run E memset_S (code memset_S No_zva) v"
    using n e16 plain args(6)
    by (auto simp: set_long_def run_simps chunk_simps args stn_fill_q [OF args(1)] dczid_mask
        block_parts(1) [OF e refl] fill_is_zero v_def w_def)
  moreover have "filling 16 v m d b n e"
    unfolding filling_def using e16
    by (intro conjI exI [of _ 16]) (simp_all add: args v_def run_simps)
  moreover have "same_caller u v" by (simp add: same_caller_def v_def run_simps)
  ultimately show ?thesis using that by (simp add: memset_code_of(8))
qed

lemma set_long_zva:
  assumes u: "at_memset u m d 0 n" "xreg u 4 = adr d n" "vreg u 0 = fill_q 0"
    and zva: "160 \<le> n" "take_bit 5 (dczid E) = 4" and f: "f = 64 - unat d mod 64"
  obtains v where "run E memset_S (code memset_S Set_long) u = run E memset_S (code memset_S Zva_loop) v"
    "same_caller u v" "filling 64 v m d 0 n f" "xreg v 2 = num (n - f - 64)"
proof -
  define e where "e = 16 - unat d mod 16"
  note args = at_memsetD [OF u(1)] u(2,3)
  have e16: "e \<le> 16" "1 \<le> e" by (simp_all add: e_def)
  have "unat d mod 64 mod 16 = unat d mod 16" by (simp add: mod_mod_cancel)
  then have "unat d mod 16 \<le> unat d mod 64" by (metis mod_less_eq_dividend)
  then have f64: "f \<le> e + 48" "f \<le> 64" using f by (simp_all add: e_def)
  define v where "v = u\<lparr>fN := False, fZ := True, fC := True, fV := False,
      mram := copied m d (replicate n 0) ({0..<16} \<union> {e..<e + 48}),
      xreg := (xreg u)(Suc 0 := ucast ((ucast (xreg u (Suc 0)) :: u32) AND 255), 5 := 4,
        3 := adr d f - 64, 2 := adr d n - adr d f - 64)\<rparr>"
  have "run E memset_S (set_long @ code memset_S Zva_loop) u = run E memset_S (code memset_S Zva_loop) v"
    using zva e16 args(6)
    by (simp add: set_long_def run_simps chunk_simps args stn_fill_q [OF args(1)] dczid_mask
        block_parts [OF e_def f] fill_is_zero numeral_last [of _ e] v_def)
  moreover have "filling 64 v m d 0 n f"
    unfolding filling_def using e16 f64
    by (intro conjI exI [of _ "e + 48"])
      (auto simp add: args v_def run_simps intro!: arg_cong [where f = "copied m d _"])
  moreover have "xreg v 2 = num (n - f - 64)"
    using zva(1) f64(2) by (simp add: v_def adr_def num_def of_nat_diff)
  moreover have "same_caller u v" by (simp add: same_caller_def v_def run_simps)
  ultimately show ?thesis using that by (simp add: memset_code_of(8))
qed

lemma set_long_zva_returns:
  assumes u: "at_memset u m d b n" "xreg u 4 = adr d n" "vreg u 0 = fill_q b"
    and zva: "160 \<le> n" "b = 0" "take_bit 5 (dczid E) = 4"
  shows "returns E memset_S (code memset_S Set_long) u (put m d (replicate n b))"
proof -
  define f where "f = 64 - unat d mod 64"
  have f: "f \<le> 64" by (simp add: f_def)
  obtain v where v: "run E memset_S (code memset_S Set_long) u = run E memset_S (code memset_S Zva_loop) v"
    "same_caller u v" "filling 64 v m d 0 n f" "xreg v 2 = num (n - f - 64)"
    using set_long_zva [OF _ u(2) _ _ _ f_def] u(1,3) zva by blast
  have "zva_inv E m d n (n - f - 64) v"
    unfolding zva_inv_def using v(3,4) zva f block_parts(3) [OF refl f_def]
    by (intro exI [of _ f]) simp
  then have "returns E memset_S (code memset_S Zva_loop) v (put m d (replicate n 0))"
    by (rule zva.loop_returns) (use zva f in arith)
  with v(1,2) zva show ?thesis by (auto intro: returns_via)
qed

lemma set_long_plain_returns:
  assumes u: "at_memset u m d b n" "xreg u 4 = adr d n" "vreg u 0 = fill_q b" and n: "96 < n"
    and plain: "\<not> (160 \<le> n \<and> b = 0 \<and> take_bit 5 (dczid E) = 4)"
  shows "returns E memset_S (code memset_S Set_long) u (put m d (replicate n b))"
proof -
  define e where "e = 16 - unat d mod 16"
  have e: "e \<le> 16" by (simp add: e_def)
  obtain v where v: "run E memset_S (code memset_S Set_long) u = run E memset_S (code memset_S No_zva) v"
    "same_caller u v" "filling 16 v m d b n e"
    using set_long_no_zva [OF u n plain e_def] .
  note regs = fillingD [OF v(3)]
  define t where "t = v\<lparr>xreg := (xreg v)(3 := adr d e - 32, 2 := num (n - e - 64))\<rparr>"
  have "adr d n - (adr d e - 16) - 80 = num (n - e - 64)"
    using e n by (simp add: adr_def num_def of_nat_diff)
  then have "run E memset_S (no_zva @ code memset_S No_zva_loop) v = run E memset_S (code memset_S No_zva_loop) t"
    using regs(2,3) by (simp add: no_zva_def run_simps t_def fun_upd_twist)
  moreover have "no_zva_inv m d b n (n - e - 64) t"
    unfolding no_zva_inv_def using e n v(3)
    by (intro exI [of _ e]) (simp add: filling_def t_def)
  then have "returns E memset_S (code memset_S No_zva_loop) t (put m d (replicate n b))"
    by (rule no_zva.loop_returns) (use e n in arith)
  moreover have "same_caller v t" by (simp add: same_caller_def t_def)
  ultimately have "returns E memset_S (code memset_S No_zva) v (put m d (replicate n b))"
    unfolding memset_code_of(10) by (auto intro: returns_via)
  with v(1,2) show ?thesis by (auto intro: returns_via)
qed

lemma memset_long:
  assumes "at_memset s m d b n" "96 < n"
  shows "returns E memset_S (code memset_S Memset) s (put m d (replicate n b))"
proof -
  obtain u where u: "run E memset_S (code memset_S Memset) s = run E memset_S (code memset_S Set_long) u"
    "same_caller s u" "at_memset u m d b n" "xreg u 4 = adr d n" "vreg u 0 = fill_q b"
    using memset_long_entry [OF assms] .
  have "returns E memset_S (code memset_S Set_long) u (put m d (replicate n b))"
    using set_long_zva_returns [OF u(3-5)] set_long_plain_returns [OF u(3-5) assms(2)] by blast
  with u(1,2) show ?thesis by (auto intro: returns_via)
qed

text \<open>
  C4. A call of the assembly routine with any fill value, any number of mapped bytes and any value of
  \<open>dczid_el0\<close> returns to the caller with the result and the memory of the byte loop of
  \<open>mem.rs\<close>: the low byte of the second argument is in every byte of the region, nothing else is
  written, and the callee-saved registers are as before.
\<close>

theorem memset_asm_is_memset:
  assumes "mapped (mram s) (xreg s 0) (unat (xreg s 2))"
  shows "\<exists>s'. memset_asm E s = Some (To (xreg s 30), s')
    \<and> memset (mram s) (xreg s 0) (ucast (xreg s 1)) (xreg s 2) = Some (xreg s' 0, mram s')
    \<and> mram s' = put (mram s) (xreg s 0) (replicate (unat (xreg s 2)) (ucast (xreg s 1)))
    \<and> spreg s' = spreg s
    \<and> (\<forall>r\<ge>18. xreg s' r = xreg s r) \<and> (\<forall>r\<in>{8..15}. vreg s' r = vreg s r)"
proof -
  let ?n = "unat (xreg s 2)" and ?b = "ucast (xreg s 1) :: u8"
  have "at_memset s (mram s) (xreg s 0) ?b ?n"
    using assms unat_lt_64 [of "xreg s 2"]
    by (simp add: at_memset_def fill_args_def copied_none adr_def num_def)
  then have "returns E memset_S (code memset_S Memset) s (put (mram s) (xreg s 0) (replicate ?n ?b))"
    by (cases "?n \<le> 96") (simp_all add: memset_short memset_long)
  moreover have "(ucast (ucast (xreg s 1) :: c_int) :: u8) = ?b"
    by (intro bit_word_eqI) (auto simp: bit_simps)
  then have "memset (mram s) (xreg s 0) (ucast (xreg s 1)) (xreg s 2)
      = Some (xreg s 0, put (mram s) (xreg s 0) (replicate ?n ?b))"
    using memset_correct [OF assms, of "ucast (xreg s 1)"] by simp
  ultimately show ?thesis by (auto simp: returns_def memset_asm_def)
qed

theorem memset_asm_is_memset_witness:
  "\<exists>s'. memset_asm zva_env (machine_with 4100 0x1200 300 (mem_of 4096 (replicate 400 7))) = Some (To 30, s')
    \<and> bytes_at (mram s') 4100 (replicate 300 0)"
proof -
  let ?m = "mem_of 4096 (replicate 400 (7 :: u8))"
  let ?s = "machine_with 4100 0x1200 300 ?m"
  have "bytes_at ?m 4096 (replicate 400 7)" by (rule bytes_at_mem_of) simp
  then have "mapped ?m 4096 400" using bytes_at_mapped by fastforce
  then have "mapped ?m (4096 + of_nat 4) 300" by (rule mapped_shift) simp
  then have m: "mapped (mram ?s) (xreg ?s 0) (unat (xreg ?s 2))" by (simp add: machine_with_def)
  obtain s' where "memset_asm zva_env ?s = Some (To (xreg ?s 30), s')"
      "mram s' = put (mram ?s) (xreg ?s 0) (replicate (unat (xreg ?s 2)) (ucast (xreg ?s 1)))"
    using memset_asm_is_memset [OF m, of zva_env] by blast
  moreover have "(0x1200 :: u8) = 0" by simp
  ultimately show ?thesis by (simp add: machine_with_def bytes_at_put)
qed

end
