(* ===== verification/Test_Kit.thy ===== *)
theory Test_Kit
  imports Str_Search Words
begin

section \<open>Running the unit tests of the source\<close>

text \<open>
  The unit tests of the repository as programs of the model. A test is \<open>Some ()\<close> when all its
  assertions hold, and \<open>None\<close> when one fails or a call does not return. Its arrays and literals
  are objects at addresses of their own: no test depends on where the compiler puts them. A test
  is evaluated by the simplifier, one loop iteration after the other, on a memory that is kept as
  the list of its objects.
\<close>

named_theorems test_simps

definition assert_that :: "bool \<Rightarrow> unit option" where
  "assert_that b = (if b then Some () else None)"

fun get_at :: "u8 list \<Rightarrow> nat \<Rightarrow> u8 option" where
  "get_at [] k = None"
| "get_at (x # xs) 0 = Some x"
| "get_at (x # xs) (Suc k) = get_at xs k"

fun set_at :: "u8 list \<Rightarrow> nat \<Rightarrow> u8 \<Rightarrow> u8 list option" where
  "set_at [] k b = None"
| "set_at (x # xs) 0 b = Some (b # xs)"
| "set_at (x # xs) (Suc k) b = map_option ((#) x) (set_at xs k b)"

fun arena :: "(ptr \<times> u8 list) list \<Rightarrow> mem" where
  "arena [] = Map.empty"
| "arena ((p, bs) # os) =
     (\<lambda>a. case get_at bs (unat (a - p)) of Some b \<Rightarrow> Some b | None \<Rightarrow> arena os a)"

fun set_in :: "(ptr \<times> u8 list) list \<Rightarrow> ptr \<Rightarrow> u8 \<Rightarrow> (ptr \<times> u8 list) list option" where
  "set_in [] a b = None"
| "set_in ((p, bs) # os) a b =
     (case set_at bs (unat (a - p)) b of
        Some bs' \<Rightarrow> Some ((p, bs') # os)
      | None \<Rightarrow> map_option ((#) (p, bs)) (set_in os a b))"

definition objects :: "(ptr \<times> u8 list) list \<Rightarrow> mem" where
  "objects os = arena os"

text \<open>\<open>cs\<close> of the tests: a literal with its NUL. \<open>c_bytes\<close> is \<open>CStr::from_ptr(p).to_bytes()\<close>.\<close>

definition cs :: "string \<Rightarrow> u8 list" where
  "cs s = bytes_of s @ [0]"

definition c_bytes :: "mem \<Rightarrow> ptr \<Rightarrow> u8 list option" where
  "c_bytes m p = do { n \<leftarrow> strlen m p; load_bytes m p (unat n) }"


subsection \<open>Evaluation\<close>

lemma at_numeral [test_simps]:
  "get_at (x # xs) (numeral k) = get_at xs (pred_numeral k)"
  "set_at (x # xs) (numeral k) b = map_option ((#) x) (set_at xs (pred_numeral k) b)"
  by (simp_all add: numeral_eq_Suc)

lemma load_arena [test_simps]:
  "load (arena []) a = None"
  "load (arena ((p, bs) # os)) a =
     (case get_at bs (unat (a - p)) of Some b \<Rightarrow> Some b | None \<Rightarrow> load (arena os) a)"
  by (simp_all add: load_def split: option.split)

lemma set_at_None: "set_at bs k b = None \<longleftrightarrow> get_at bs k = None"
  by (induction bs k b rule: set_at.induct) simp_all

lemma get_set_at: "set_at bs k b = Some bs' \<Longrightarrow> get_at bs' j = (if j = k then Some b else get_at bs j)"
proof (induction bs k b arbitrary: j bs' rule: set_at.induct)
  case (2 x xs b)
  then show ?case by (cases j) auto
next
  case (3 x xs k b)
  then show ?case by (cases j) auto
qed simp

lemma arena_set_in:
  "map_option arena (set_in os a b) =
    (case arena os a of None \<Rightarrow> None | Some _ \<Rightarrow> Some ((arena os)(a \<mapsto> b)))"
proof (induction os a b rule: set_in.induct)
  case (2 p bs os a b)
  show ?case
  proof (cases "set_at bs (unat (a - p)) b")
    case None
    then have miss: "get_at bs (unat (a - p)) = None" by (simp add: set_at_None)
    show ?thesis
    proof (cases "set_in os a b")
      case (Some os')
      with 2 None have "arena os' = (arena os)(a \<mapsto> b)" "arena os a \<noteq> None"
        by (auto split: option.splits)
      with None miss Some show ?thesis by (auto simp: fun_eq_iff split: option.splits)
    qed (use 2 None miss in \<open>auto split: option.splits\<close>)
  next
    case (Some bs')
    then have hit: "get_at bs (unat (a - p)) \<noteq> None" using set_at_None by (metis option.distinct(1))
    have "unat (x - p) = unat (a - p) \<longleftrightarrow> x = a" for x by (simp flip: word_unat_eq_iff)
    then have "arena ((p, bs') # os) = (arena ((p, bs) # os))(a \<mapsto> b)"
      by (auto simp: fun_eq_iff get_set_at [OF Some])
    with Some hit show ?thesis by (auto split: option.splits)
  qed
qed simp

lemma store_arena [test_simps]: "store (arena os) a b = map_option arena (set_in os a b)"
  using arena_set_in [of os a b] by (simp add: store_def)

declare arena.simps [simp del]

lemma load_bytes_step [test_simps]:
  "load_bytes m p 0 = Some []"
  "load_bytes m p (Suc n) = do { b \<leftarrow> load m p; bs \<leftarrow> load_bytes m (p + 1) n; Some (b # bs) }"
proof -
  show "load_bytes m p 0 = Some []" by (simp add: load_bytes_def mapped_def)
  show "load_bytes m p (Suc n) = do { b \<leftarrow> load m p; bs \<leftarrow> load_bytes m (p + 1) n; Some (b # bs) }"
  proof (cases "mapped m p (Suc n)")
    case True
    then have "mapped m (p + 1) n" "load m p \<noteq> None" by (auto simp: mapped_Suc load_def)
    with True show ?thesis
      by (auto simp: load_bytes_def load_def add.assoc simp del: upt_Suc simp: upt_conv_Cons map_Suc_upt [symmetric])
  next
    case False
    then show ?thesis by (auto simp: load_bytes_def mapped_Suc load_def split: bind_splits)
  qed
qed

lemmas load_bytes_numeral [test_simps] =
  load_bytes_step(2) [of _ _ "pred_numeral k" for k, folded numeral_eq_Suc]

lemma store_bytes_step [test_simps]:
  "store_bytes m p [] = Some m"
  "length bs < 2 ^ 64 \<Longrightarrow>
    store_bytes m p (b # bs) = do { m' \<leftarrow> store m p b; store_bytes m' (p + 1) bs }"
proof -
  show "store_bytes m p [] = Some m" by (simp add: store_bytes_def)
  assume len: "length bs < 2 ^ 64"
  have "mapped (m(p \<mapsto> b)) q n \<longleftrightarrow> mapped m q n" if "m p \<noteq> None" for q n
    using that unfolding mapped_def fun_upd_apply by (metis option.distinct(1))
  then show "store_bytes m p (b # bs) = do { m' \<leftarrow> store m p b; store_bytes m' (p + 1) bs }"
    using put_Cons [OF len, of m p b]
    by (auto simp: store_bytes_def mapped_Suc store_def split: option.split)
qed

lemma to_le_eval [test_simps]:
  "to_le 4 x = [ucast x, ucast (drop_bit 8 x), ucast (drop_bit 16 x), ucast (drop_bit 24 x)]"
  "to_le 8 x = [ucast x, ucast (drop_bit 8 x), ucast (drop_bit 16 x), ucast (drop_bit 24 x),
     ucast (drop_bit 32 x), ucast (drop_bit 40 x), ucast (drop_bit 48 x), ucast (drop_bit 56 x)]"
  by (simp_all add: to_le_def upt_rec)

declare replicate_numeral_Cons [test_simps] word_sless_alt [test_simps] word_sle_eq [test_simps]
  Let_def [test_simps]

lemmas test_defs = assert_that_def objects_def cs_def bytes_of_def c_bytes_def

text \<open>Memories and continuations are left alone until they are at the head.\<close>

lemma arena_weak_cong: "arena os = arena os"
  by (rule refl)

lemma bind_weak_cong: "x = y \<Longrightarrow> x \<bind> f = y \<bind> (f :: 'a \<Rightarrow> 'b option)"
  by (rule arg_cong)

lemmas eval_cong = arena_weak_cong bind_weak_cong

end
