(* ===== verification/Mem_Tests.thy ===== *)
theory Mem_Tests
  imports Test_Kit
begin

section \<open>The tests of mem.rs\<close>

text \<open>
  Each test with the name and the assertions it has in the source. The first array of a test is
  at \<open>0x1000\<close>, the second at \<open>0x2000\<close>, and so on.
\<close>

definition memcpy_basic :: "unit option" where
  "memcpy_basic = do {
     let m = objects [(0x1000, [1, 2, 3, 4, 5, 6, 7, 8]), (0x2000, replicate 8 0)];
     (r, m) \<leftarrow> memcpy m 0x2000 0x1000 8;
     assert_that (r = 0x2000);
     assert_that (load_bytes m 0x2000 8 = load_bytes m 0x1000 8)
   }"

definition memcpy_zero_length_is_noop :: "unit option" where
  "memcpy_zero_length_is_noop = do {
     let m = objects [(0x1000, replicate 4 42), (0x2000, replicate 4 0)];
     (_, m) \<leftarrow> memcpy m 0x2000 0x1000 0;
     assert_that (load_bytes m 0x2000 4 = Some (replicate 4 0))
   }"

definition memcpy_partial :: "unit option" where
  "memcpy_partial = do {
     let m = objects [(0x1000, replicate 16 9), (0x2000, replicate 16 0)];
     (_, m) \<leftarrow> memcpy m 0x2000 0x1000 5;
     assert_that (load_bytes m 0x2000 5 = Some [9, 9, 9, 9, 9]);
     assert_that (load_bytes m 0x2005 11 = Some [0, 0, 0, 0, 0, 0, 0, 0, 0, 0, 0])
   }"

definition memmove_no_overlap :: "unit option" where
  "memmove_no_overlap = do {
     let m = objects [(0x1000, [1, 2, 3, 4, 5]), (0x2000, replicate 5 0)];
     (_, m) \<leftarrow> memmove m 0x2000 0x1000 5;
     assert_that (load_bytes m 0x2000 5 = load_bytes m 0x1000 5)
   }"

definition memmove_overlap_dst_after_src :: "unit option" where
  "memmove_overlap_dst_after_src = do {
     let m = objects [(0x1000, [1, 2, 3, 4, 5, 0, 0])];
     (_, m) \<leftarrow> memmove m 0x1002 0x1000 5;
     assert_that (load_bytes m 0x1000 7 = Some [1, 2, 1, 2, 3, 4, 5])
   }"

definition memmove_overlap_dst_before_src :: "unit option" where
  "memmove_overlap_dst_before_src = do {
     let m = objects [(0x1000, [0, 0, 1, 2, 3, 4, 5])];
     (_, m) \<leftarrow> memmove m 0x1000 0x1002 5;
     assert_that (load_bytes m 0x1000 7 = Some [1, 2, 3, 4, 5, 4, 5])
   }"

definition memmove_same_pointer :: "unit option" where
  "memmove_same_pointer = do {
     let m = objects [(0x1000, [1, 2, 3, 4])];
     (_, m) \<leftarrow> memmove m 0x1000 0x1000 4;
     assert_that (load_bytes m 0x1000 4 = Some [1, 2, 3, 4])
   }"

definition memset_basic :: "unit option" where
  "memset_basic = do {
     let m = objects [(0x1000, replicate 8 0)];
     (r, m) \<leftarrow> memset m 0x1000 0xab 8;
     assert_that (r = 0x1000);
     assert_that (load_bytes m 0x1000 8 = Some (replicate 8 0xab))
   }"

definition memset_uses_low_byte_only :: "unit option" where
  "memset_uses_low_byte_only = do {
     let m = objects [(0x1000, replicate 4 0)];
     (_, m) \<leftarrow> memset m 0x1000 0x1234 4;
     assert_that (load_bytes m 0x1000 4 = Some [0x34, 0x34, 0x34, 0x34])
   }"

definition memset_zero_length_is_noop :: "unit option" where
  "memset_zero_length_is_noop = do {
     let m = objects [(0x1000, replicate 4 9)];
     (_, m) \<leftarrow> memset m 0x1000 0 0;
     assert_that (load_bytes m 0x1000 4 = Some [9, 9, 9, 9])
   }"

definition memcmp_equal :: "unit option" where
  "memcmp_equal = do {
     r \<leftarrow> memcmp (objects [(0x1000, [1, 2, 3, 4]), (0x2000, [1, 2, 3, 4])]) 0x1000 0x2000 4;
     assert_that (r = 0)
   }"

definition memcmp_first_byte_differs :: "unit option" where
  "memcmp_first_byte_differs = do {
     r \<leftarrow> memcmp (objects [(0x1000, [5, 2, 3]), (0x2000, [3, 2, 3])]) 0x1000 0x2000 3;
     assert_that (r = 2)
   }"

definition memcmp_treats_bytes_as_unsigned :: "unit option" where
  "memcmp_treats_bytes_as_unsigned = do {
     r \<leftarrow> memcmp (objects [(0x1000, [0xff]), (0x2000, [0x01])]) 0x1000 0x2000 1;
     assert_that (r = 254)
   }"

definition memcmp_stops_at_first_mismatch :: "unit option" where
  "memcmp_stops_at_first_mismatch = do {
     r \<leftarrow> memcmp (objects [(0x1000, [1, 2, 99]), (0x2000, [1, 2, 0])]) 0x1000 0x2000 2;
     assert_that (r = 0)
   }"

definition memcmp_zero_length_is_zero :: "unit option" where
  "memcmp_zero_length_is_zero = do {
     r \<leftarrow> memcmp (objects [(0x1000, [1]), (0x2000, [2])]) 0x1000 0x2000 0;
     assert_that (r = 0)
   }"

lemmas mem_loops = copy_forward.simps copy_backward.simps memset_loop.simps memcmp_loop.simps

lemmas mem_fns = memcpy_def memmove_def memset_def memcmp_def mem_loops

lemmas mem_tests =
  memcpy_basic_def memcpy_zero_length_is_noop_def memcpy_partial_def memmove_no_overlap_def
  memmove_overlap_dst_after_src_def memmove_overlap_dst_before_src_def memmove_same_pointer_def
  memset_basic_def memset_uses_low_byte_only_def memset_zero_length_is_noop_def memcmp_equal_def
  memcmp_first_byte_differs_def memcmp_treats_bytes_as_unsigned_def
  memcmp_stops_at_first_mismatch_def memcmp_zero_length_is_zero_def

lemma mem_tests_pass:
  "memcpy_basic = Some ()" "memcpy_zero_length_is_noop = Some ()" "memcpy_partial = Some ()"
  "memmove_no_overlap = Some ()" "memmove_overlap_dst_after_src = Some ()"
  "memmove_overlap_dst_before_src = Some ()" "memmove_same_pointer = Some ()"
  "memset_basic = Some ()" "memset_uses_low_byte_only = Some ()"
  "memset_zero_length_is_noop = Some ()" "memcmp_equal = Some ()"
  "memcmp_first_byte_differs = Some ()" "memcmp_treats_bytes_as_unsigned = Some ()"
  "memcmp_stops_at_first_mismatch = Some ()" "memcmp_zero_length_is_zero = Some ()"
  by (simp_all add: mem_tests mem_fns test_defs test_simps cong: eval_cong)

end
