(* ===== verification/Str_Fns_Tests.thy ===== *)
theory Str_Fns_Tests
  imports Test_Kit
begin

section \<open>The tests of str\_fns.rs\<close>

text \<open>
  Each test with the name and the assertions it has in the source; \<open>s.add(i)\<close> is \<open>s + i\<close> and
  a character is its code.
\<close>

definition strlen_basic :: "unit option" where
  "strlen_basic = do {
     let m = objects [(0x1000, cs ''hello''), (0x2000, cs '''')];
     n \<leftarrow> strlen m 0x1000;
     assert_that (n = 5);
     n \<leftarrow> strlen m 0x2000;
     assert_that (n = 0)
   }"

definition strnlen_bounded :: "unit option" where
  "strnlen_bounded = do {
     let m = objects [(0x1000, cs ''hello'')];
     n \<leftarrow> strnlen m 0x1000 3;
     assert_that (n = 3);
     n \<leftarrow> strnlen m 0x1000 5;
     assert_that (n = 5);
     n \<leftarrow> strnlen m 0x1000 100;
     assert_that (n = 5);
     n \<leftarrow> strnlen m 0x1000 0;
     assert_that (n = 0)
   }"

definition memchr_finds_or_null :: "unit option" where
  "memchr_finds_or_null = do {
     let m = objects [(0x1000, bytes_of ''abcabc'')];
     p \<leftarrow> memchr m 0x1000 99 6;
     assert_that (p = 0x1000 + 2);
     p \<leftarrow> memchr m 0x1000 122 6;
     assert_that (p = null_ptr)
   }"

definition memrchr_finds_last :: "unit option" where
  "memrchr_finds_last = do {
     let m = objects [(0x1000, bytes_of ''abcabc'')];
     p \<leftarrow> memrchr m 0x1000 99 6;
     assert_that (p = 0x1000 + 5);
     p \<leftarrow> memrchr_internal m 0x1000 97 6;
     assert_that (p = 0x1000 + 3)
   }"

definition strchr_finds_first :: "unit option" where
  "strchr_finds_first = do {
     let m = objects [(0x1000, cs ''hello'')];
     p \<leftarrow> strchr m 0x1000 108;
     assert_that (p = 0x1000 + 2);
     p \<leftarrow> strchr m 0x1000 122;
     assert_that (p = null_ptr);
     p \<leftarrow> strchr m 0x1000 0;
     assert_that (p = 0x1000 + 5)
   }"

definition strchrnul_returns_terminator_on_miss :: "unit option" where
  "strchrnul_returns_terminator_on_miss = do {
     let m = objects [(0x1000, cs ''abc'')];
     p \<leftarrow> strchrnul_internal m 0x1000 98;
     assert_that (p = 0x1000 + 1);
     p \<leftarrow> strchrnul m 0x1000 122;
     assert_that (p = 0x1000 + 3);
     p \<leftarrow> strchrnul_internal m 0x1000 0;
     assert_that (p = 0x1000 + 3)
   }"

definition strrchr_finds_last :: "unit option" where
  "strrchr_finds_last = do {
     let m = objects [(0x1000, cs ''abcabc'')];
     p \<leftarrow> strrchr m 0x1000 97;
     assert_that (p = 0x1000 + 3);
     p \<leftarrow> strrchr m 0x1000 99;
     assert_that (p = 0x1000 + 5);
     p \<leftarrow> strrchr m 0x1000 0;
     assert_that (p = 0x1000 + 6);
     p \<leftarrow> strrchr m 0x1000 122;
     assert_that (p = null_ptr)
   }"

definition strcmp_orders :: "unit option" where
  "strcmp_orders = do {
     let m = objects [(0x1000, cs ''abc''), (0x2000, cs ''abc''), (0x3000, cs ''abd''),
       (0x4000, cs ''ab'')];
     r \<leftarrow> strcmp m 0x1000 0x2000;
     assert_that (r = 0);
     r \<leftarrow> strcmp m 0x1000 0x3000;
     assert_that (r <s 0);
     r \<leftarrow> strcmp m 0x3000 0x1000;
     assert_that (0 <s r);
     r \<leftarrow> strcmp m 0x4000 0x1000;
     assert_that (r <s 0);
     r \<leftarrow> strcmp m 0x1000 0x4000;
     assert_that (0 <s r)
   }"

definition strncmp_respects_n :: "unit option" where
  "strncmp_respects_n = do {
     let m = objects [(0x1000, cs ''abcdef''), (0x2000, cs ''abcxyz''), (0x3000, cs ''a''),
       (0x4000, cs ''b''), (0x5000, cs ''abc''), (0x6000, cs ''abc'')];
     r \<leftarrow> strncmp m 0x1000 0x2000 3;
     assert_that (r = 0);
     r \<leftarrow> strncmp m 0x1000 0x2000 4;
     assert_that (r <s 0);
     r \<leftarrow> strncmp m 0x3000 0x4000 0;
     assert_that (r = 0);
     r \<leftarrow> strncmp m 0x5000 0x6000 100;
     assert_that (r = 0)
   }"

definition strcpy_copies_with_terminator :: "unit option" where
  "strcpy_copies_with_terminator = do {
     let m = objects [(0x1000, replicate 8 88), (0x2000, cs ''hello'')];
     (r, m) \<leftarrow> strcpy m 0x1000 0x2000;
     assert_that (r = 0x1000);
     assert_that (load_bytes m 0x1000 6 = Some (cs ''hello''));
     assert_that (load_bytes m (0x1000 + 6) 2 = Some (bytes_of ''XX''))
   }"

definition stpcpy_returns_pointer_to_terminator :: "unit option" where
  "stpcpy_returns_pointer_to_terminator = do {
     let m = objects [(0x1000, replicate 8 0), (0x2000, cs ''hi'')];
     (r, m) \<leftarrow> stpcpy m 0x1000 0x2000;
     assert_that (r = 0x1000 + 2);
     b \<leftarrow> load m r;
     assert_that (b = 0)
   }"

definition strncpy_pads_with_zeros_when_short :: "unit option" where
  "strncpy_pads_with_zeros_when_short = do {
     let m = objects [(0x1000, replicate 8 88), (0x2000, cs ''hi'')];
     (_, m) \<leftarrow> strncpy m 0x1000 0x2000 6;
     assert_that (load_bytes m 0x1000 6 = Some (bytes_of ''hi'' @ [0, 0, 0, 0]));
     assert_that (load_bytes m (0x1000 + 6) 2 = Some (bytes_of ''XX''))
   }"

definition strncpy_truncates_when_long :: "unit option" where
  "strncpy_truncates_when_long = do {
     let m = objects [(0x1000, replicate 8 88), (0x2000, cs ''hello'')];
     (_, m) \<leftarrow> strncpy m 0x1000 0x2000 3;
     assert_that (load_bytes m 0x1000 3 = Some (bytes_of ''hel''));
     assert_that (load_bytes m (0x1000 + 3) 5 = Some (bytes_of ''XXXXX''))
   }"

definition stpncpy_returns_first_nul_or_d_plus_n :: "unit option" where
  "stpncpy_returns_first_nul_or_d_plus_n = do {
     let m = objects [(0x1000, replicate 8 0), (0x2000, cs ''hi''), (0x3000, replicate 4 88),
       (0x4000, cs ''abcde'')];
     (r, m) \<leftarrow> stpncpy m 0x1000 0x2000 5;
     assert_that (r = 0x1000 + 2);
     (r, m) \<leftarrow> stpncpy m 0x3000 0x4000 3;
     assert_that (r = 0x3000 + 3)
   }"

definition strcat_appends :: "unit option" where
  "strcat_appends = do {
     let m = objects [(0x1000, cs ''abc'' @ replicate 12 0), (0x2000, cs ''def'')];
     (_, m) \<leftarrow> strcat m 0x1000 0x2000;
     assert_that (load_bytes m 0x1000 7 = Some (cs ''abcdef''))
   }"

definition strerror_r_writes_full_message :: "unit option" where
  "strerror_r_writes_full_message = do {
     let m = objects [(0x1000, replicate 64 0)];
     (r, m) \<leftarrow> strerror_r m EAGAIN 0x1000 64;
     assert_that (r = 0);
     msg \<leftarrow> c_bytes m 0x1000;
     assert_that (msg = bytes_of ''Resource temporarily unavailable'')
   }"

definition strerror_r_truncates_on_overflow :: "unit option" where
  "strerror_r_truncates_on_overflow = do {
     let m = objects [(0x1000, replicate 8 88)];
     (r, m) \<leftarrow> strerror_r m EAGAIN 0x1000 8;
     assert_that (r = ERANGE);
     assert_that (load_bytes m 0x1000 7 = Some (bytes_of ''Resourc''));
     b \<leftarrow> load m (0x1000 + 7);
     assert_that (b = 0)
   }"

definition strerror_r_zero_length_returns_erange_only :: "unit option" where
  "strerror_r_zero_length_returns_erange_only = do {
     (r, m) \<leftarrow> strerror_r (objects []) EAGAIN null_ptr 0;
     assert_that (r = ERANGE)
   }"

lemmas str_loops = strlen_loop.simps strnlen_loop.simps memchr_loop.simps memrchr_loop.simps
  strchrnul_loop.simps strcmp_loop.simps strncmp_loop.simps stpcpy_internal.simps
  stpncpy_loop.simps copy_slice.simps memset_loop.simps

lemmas str_fns = strlen_def strnlen_def memchr_def memrchr_internal_def memrchr_def
  strchrnul_internal_def strchrnul_def strchr_def strrchr_def strcmp_def strncmp_def stpcpy_def
  strcpy_def stpncpy_internal_def stpncpy_def strncpy_def strcat_def strerror_r_def memset_def

lemmas str_tests = strlen_basic_def strnlen_bounded_def memchr_finds_or_null_def
  memrchr_finds_last_def strchr_finds_first_def strchrnul_returns_terminator_on_miss_def
  strrchr_finds_last_def strcmp_orders_def strncmp_respects_n_def
  strcpy_copies_with_terminator_def stpcpy_returns_pointer_to_terminator_def
  strncpy_pads_with_zeros_when_short_def strncpy_truncates_when_long_def
  stpncpy_returns_first_nul_or_d_plus_n_def strcat_appends_def

lemma str_tests_pass:
  "strlen_basic = Some ()" "strnlen_bounded = Some ()" "memchr_finds_or_null = Some ()"
  "memrchr_finds_last = Some ()" "strchr_finds_first = Some ()"
  "strchrnul_returns_terminator_on_miss = Some ()" "strrchr_finds_last = Some ()"
  "strcmp_orders = Some ()" "strncmp_respects_n = Some ()"
  "strcpy_copies_with_terminator = Some ()" "stpcpy_returns_pointer_to_terminator = Some ()"
  "strncpy_pads_with_zeros_when_short = Some ()" "strncpy_truncates_when_long = Some ()"
  "stpncpy_returns_first_nul_or_d_plus_n = Some ()" "strcat_appends = Some ()"
  by (simp_all add: str_tests str_fns str_loops test_defs test_simps cong: eval_cong)

lemma strerror_EAGAIN: "strerror_str EAGAIN = bytes_of ''Resource temporarily unavailable''"
  by (simp add: strerror_str_lookup_raw message_assignments_def errno_defs)

lemma strerror_r_tests_pass:
  "strerror_r_writes_full_message = Some ()" "strerror_r_truncates_on_overflow = Some ()"
  "strerror_r_zero_length_returns_erange_only = Some ()"
  by (simp_all add: strerror_r_writes_full_message_def strerror_r_truncates_on_overflow_def
      strerror_r_zero_length_returns_erange_only_def str_fns str_loops test_defs test_simps
      strerror_EAGAIN cong: eval_cong)

end
