(* ===== verification/Str_Search_Tests.thy ===== *)
theory Str_Search_Tests
  imports Test_Kit
begin

section \<open>The tests of str\_search.rs\<close>

text \<open>
  Each test with the name and the assertions it has in the source. A pointer that a tokenizer
  keeps between calls, behind \<open>p\<close> or in the static of \<open>strtok\<close>, is a variable of the test.
\<close>

definition strstr_basic :: "unit option" where
  "strstr_basic = do {
     let m = objects [(0x1000, cs ''hello world''), (0x2000, cs ''world'')];
     p \<leftarrow> strstr m 0x1000 0x2000;
     assert_that (p = 0x1000 + 6)
   }"

definition strstr_empty_needle :: "unit option" where
  "strstr_empty_needle = do {
     let m = objects [(0x1000, cs ''abc''), (0x2000, cs '''')];
     p \<leftarrow> strstr m 0x1000 0x2000;
     assert_that (p = 0x1000)
   }"

definition strstr_no_match :: "unit option" where
  "strstr_no_match = do {
     let m = objects [(0x1000, cs ''hello''), (0x2000, cs ''xyz'')];
     p \<leftarrow> strstr m 0x1000 0x2000;
     assert_that (p = null_ptr)
   }"

definition strstr_overlap_then_match :: "unit option" where
  "strstr_overlap_then_match = do {
     let m = objects [(0x1000, cs ''aaab''), (0x2000, cs ''aab'')];
     p \<leftarrow> strstr m 0x1000 0x2000;
     assert_that (p = 0x1000 + 1)
   }"

definition strspn_counts_prefix :: "unit option" where
  "strspn_counts_prefix = do {
     let m = objects [(0x1000, cs ''abcdef''), (0x1100, cs ''abc''), (0x2000, cs ''aaab''),
       (0x2100, cs ''a''), (0x3000, cs ''xyz''), (0x4000, cs '''')];
     n \<leftarrow> strspn m 0x1000 0x1100;
     assert_that (n = 3);
     n \<leftarrow> strspn m 0x2000 0x2100;
     assert_that (n = 3);
     n \<leftarrow> strspn m 0x3000 0x1100;
     assert_that (n = 0);
     n \<leftarrow> strspn m 0x1100 0x4000;
     assert_that (n = 0)
   }"

definition strcspn_counts_prefix_until_match :: "unit option" where
  "strcspn_counts_prefix_until_match = do {
     let m = objects [(0x1000, cs ''hello,world''), (0x1100, cs '',''), (0x2000, cs ''hello''),
       (0x2100, cs ''xyz''), (0x3000, cs ''abc''), (0x3100, cs ''''), (0x4000, cs ''abc;def''),
       (0x4100, cs ''x;'')];
     n \<leftarrow> strcspn m 0x1000 0x1100;
     assert_that (n = 5);
     n \<leftarrow> strcspn m 0x2000 0x2100;
     assert_that (n = 5);
     n \<leftarrow> strcspn m 0x3000 0x3100;
     assert_that (n = 3);
     n \<leftarrow> strcspn m 0x4000 0x4100;
     assert_that (n = 3)
   }"

definition strpbrk_finds_first_or_null :: "unit option" where
  "strpbrk_finds_first_or_null = do {
     let m = objects [(0x1000, cs ''hello,world!''), (0x2000, cs '',!''), (0x3000, cs ''xyz'')];
     p \<leftarrow> strpbrk m 0x1000 0x2000;
     assert_that (p = 0x1000 + 5);
     p \<leftarrow> strpbrk m 0x1000 0x3000;
     assert_that (p = null_ptr)
   }"

definition strsep_walks_tokens_with_empty_runs :: "unit option" where
  "strsep_walks_tokens_with_empty_runs = do {
     let m = objects [(0x1000, bytes_of ''a,,b,c'' @ replicate 10 0), (0x2000, cs '','')];
     let state = 0x1000;
     (t0, state, m) \<leftarrow> strsep m state 0x2000;
     bs \<leftarrow> c_bytes m t0;
     assert_that (bs = bytes_of ''a'');
     (t1, state, m) \<leftarrow> strsep m state 0x2000;
     bs \<leftarrow> c_bytes m t1;
     assert_that (bs = bytes_of '''');
     (t2, state, m) \<leftarrow> strsep m state 0x2000;
     bs \<leftarrow> c_bytes m t2;
     assert_that (bs = bytes_of ''b'');
     (t3, state, m) \<leftarrow> strsep m state 0x2000;
     bs \<leftarrow> c_bytes m t3;
     assert_that (bs = bytes_of ''c'');
     (t4, state, m) \<leftarrow> strsep m state 0x2000;
     assert_that (t4 = null_ptr)
   }"

definition strtok_r_skips_runs_of_separators :: "unit option" where
  "strtok_r_skips_runs_of_separators = do {
     let m = objects [(0x1000, bytes_of '',,a,,b,,c,,'' @ replicate 5 0), (0x2000, cs '','')];
     let state = null_ptr;
     (t0, state, m) \<leftarrow> strtok_r m 0x1000 0x2000 state;
     bs \<leftarrow> c_bytes m t0;
     assert_that (bs = bytes_of ''a'');
     (t1, state, m) \<leftarrow> strtok_r m null_ptr 0x2000 state;
     bs \<leftarrow> c_bytes m t1;
     assert_that (bs = bytes_of ''b'');
     (t2, state, m) \<leftarrow> strtok_r m null_ptr 0x2000 state;
     bs \<leftarrow> c_bytes m t2;
     assert_that (bs = bytes_of ''c'');
     (t3, state, m) \<leftarrow> strtok_r m null_ptr 0x2000 state;
     assert_that (t3 = null_ptr)
   }"

definition strtok_uses_module_state :: "unit option" where
  "strtok_uses_module_state = do {
     let m = objects [(0x1000, bytes_of ''x:y:z'' @ replicate 11 0), (0x2000, cs '':'')];
     (t0, st, m) \<leftarrow> strtok m STRTOK_STATE 0x1000 0x2000;
     bs \<leftarrow> c_bytes m t0;
     assert_that (bs = bytes_of ''x'');
     (t1, st, m) \<leftarrow> strtok m st null_ptr 0x2000;
     bs \<leftarrow> c_bytes m t1;
     assert_that (bs = bytes_of ''y'');
     (t2, st, m) \<leftarrow> strtok m st null_ptr 0x2000;
     bs \<leftarrow> c_bytes m t2;
     assert_that (bs = bytes_of ''z'');
     (t3, st, m) \<leftarrow> strtok m st null_ptr 0x2000;
     assert_that (t3 = null_ptr)
   }"

definition strcasecmp_orders_case_insensitive :: "unit option" where
  "strcasecmp_orders_case_insensitive = do {
     let m = objects [(0x1000, cs ''Hello''), (0x1100, cs ''hello''), (0x2000, cs ''abc''),
       (0x2100, cs ''ABC''), (0x3000, cs ''abd''), (0x4000, cs ''ab'')];
     r \<leftarrow> strcasecmp m 0x1000 0x1100;
     assert_that (r = 0);
     r \<leftarrow> strcasecmp m 0x2000 0x2100;
     assert_that (r = 0);
     r \<leftarrow> strcasecmp m 0x2000 0x3000;
     assert_that (r <s 0);
     r \<leftarrow> strcasecmp m 0x3000 0x2000;
     assert_that (0 <s r);
     r \<leftarrow> strcasecmp m 0x4000 0x2000;
     assert_that (r <s 0)
   }"

definition strncasecmp_respects_n_and_case :: "unit option" where
  "strncasecmp_respects_n_and_case = do {
     let m = objects [(0x1000, cs ''Hello''), (0x1100, cs ''hELLo''), (0x2000, cs ''Abcdef''),
       (0x2100, cs ''aBcXyz''), (0x3000, cs ''a''), (0x3100, cs ''b'')];
     r \<leftarrow> strncasecmp m 0x1000 0x1100 5;
     assert_that (r = 0);
     r \<leftarrow> strncasecmp m 0x2000 0x2100 4;
     assert_that (r <s 0);
     r \<leftarrow> strncasecmp m 0x3000 0x3100 0;
     assert_that (r = 0)
   }"

definition case_locale_wrappers_forward :: "unit option" where
  "case_locale_wrappers_forward = do {
     let m = objects [(0x1000, cs ''FOO''), (0x1100, cs ''foo''), (0x2000, cs ''BARx''),
       (0x2100, cs ''barY'')];
     r \<leftarrow> strcasecmp_l_internal m 0x1000 0x1100 null_ptr;
     assert_that (r = 0);
     r \<leftarrow> strncasecmp_l m 0x2000 0x2100 3 null_ptr;
     assert_that (r = 0)
   }"

lemmas search_loops = strlen_loop.simps strchrnul_loop.simps strstr_match.simps strstr_loop.simps
  span_byte_loop.simps byteset_fill.simps span_set_loop.simps strcasecmp_loop.simps
  strncasecmp_loop.simps

lemmas search_fns = strlen_def strchrnul_internal_def strstr_def strspn_def strcspn_def strpbrk_def
  strsep_def strtok_r_def strtok_def STRTOK_STATE_def strcasecmp_def strncasecmp_def strcasecmp_l_internal_def
  strncasecmp_l_internal_def strncasecmp_l_def fold_byte_def byteset_set_def byteset_test_def
  tolower_def isupper_def u_def

lemmas search_tests = strstr_basic_def strstr_empty_needle_def strstr_no_match_def
  strstr_overlap_then_match_def strspn_counts_prefix_def strcspn_counts_prefix_until_match_def
  strpbrk_finds_first_or_null_def strsep_walks_tokens_with_empty_runs_def
  strtok_r_skips_runs_of_separators_def strtok_uses_module_state_def
  strcasecmp_orders_case_insensitive_def strncasecmp_respects_n_and_case_def
  case_locale_wrappers_forward_def

lemma search_tests_pass:
  "strstr_basic = Some ()" "strstr_empty_needle = Some ()" "strstr_no_match = Some ()"
  "strstr_overlap_then_match = Some ()" "strspn_counts_prefix = Some ()"
  "strcspn_counts_prefix_until_match = Some ()" "strpbrk_finds_first_or_null = Some ()"
  "strsep_walks_tokens_with_empty_runs = Some ()" "strtok_r_skips_runs_of_separators = Some ()"
  "strtok_uses_module_state = Some ()" "strcasecmp_orders_case_insensitive = Some ()"
  "strncasecmp_respects_n_and_case = Some ()" "case_locale_wrappers_forward = Some ()"
  by (simp_all add: search_tests search_fns search_loops test_defs test_simps cong: eval_cong)

end
