(* ===== verification/Sort_Tests.thy ===== *)
theory Sort_Tests
  imports Test_Kit Sort
begin

section \<open>The tests of sort.rs\<close>

text \<open>
  The two comparators of the tests, which panic when the difference overflows, and the tests. An
  array of \<open>i32\<close> is the list of its bytes.
\<close>

definition ints :: "i32 list \<Rightarrow> u8 list" where
  "ints xs = concat (map (to_le 4) xs)"

definition sub_i32 :: "i32 \<Rightarrow> i32 \<Rightarrow> i32 option" where
  "sub_i32 a b = (if sint (a - b) = sint a - sint b then Some (a - b) else None)"

definition cmp_i32_asc :: CmpFn where
  "cmp_i32_asc m a b = do {
     av \<leftarrow> rd32 m a;
     bv \<leftarrow> rd32 m b;
     sub_i32 av bv
   }"

definition cmp_i32_dir :: CmpFnR where
  "cmp_i32_dir m a b ctx = do {
     asc \<leftarrow> load m ctx;
     av \<leftarrow> rd32 m a;
     bv \<leftarrow> rd32 m b;
     if asc \<noteq> 0 then sub_i32 av bv else sub_i32 bv av
   }"

definition qsort_sorts_ascending :: "unit option" where
  "qsort_sorts_ascending = do {
     let m = objects [(0x1000, ints [5, 2, 8, 1, 9, 3, 7, 4])];
     m \<leftarrow> qsort (\<lambda>_. cmp_i32_asc) m 0x1000 8 4 0;
     assert_that (load_bytes m 0x1000 32 = Some (ints [1, 2, 3, 4, 5, 7, 8, 9]))
   }"

definition qsort_handles_already_sorted :: "unit option" where
  "qsort_handles_already_sorted = do {
     let m = objects [(0x1000, ints [1, 2, 3, 4, 5])];
     m \<leftarrow> qsort (\<lambda>_. cmp_i32_asc) m 0x1000 5 4 0;
     assert_that (load_bytes m 0x1000 20 = Some (ints [1, 2, 3, 4, 5]))
   }"

definition qsort_handles_reverse :: "unit option" where
  "qsort_handles_reverse = do {
     let m = objects [(0x1000, ints [6, 5, 4, 3, 2, 1])];
     m \<leftarrow> qsort (\<lambda>_. cmp_i32_asc) m 0x1000 6 4 0;
     assert_that (load_bytes m 0x1000 24 = Some (ints [1, 2, 3, 4, 5, 6]))
   }"

definition qsort_handles_duplicates :: "unit option" where
  "qsort_handles_duplicates = do {
     let m = objects [(0x1000, ints [3, 1, 4, 1, 5, 9, 2])];
     m \<leftarrow> qsort (\<lambda>_. cmp_i32_asc) m 0x1000 7 4 0;
     assert_that (load_bytes m 0x1000 28 = Some (ints [1, 1, 2, 3, 4, 5, 9]))
   }"

definition qsort_zero_and_one_element_no_op :: "unit option" where
  "qsort_zero_and_one_element_no_op = do {
     let m = objects [(0x1000, ints []), (0x2000, ints [42])];
     m \<leftarrow> qsort (\<lambda>_. cmp_i32_asc) m 0x1000 0 4 0;
     m \<leftarrow> qsort (\<lambda>_. cmp_i32_asc) m 0x2000 1 4 0;
     assert_that (load_bytes m 0x2000 4 = Some (ints [42]))
   }"

definition qsort_r_threads_context_to_comparator :: "unit option" where
  "qsort_r_threads_context_to_comparator = do {
     let m = objects [(0x1000, ints [5, 2, 8, 1, 9]), (0x2000, [0])];
     m \<leftarrow> qsort_r m 0x1000 5 4 cmp_i32_dir 0x2000;
     assert_that (load_bytes m 0x1000 20 = Some (ints [9, 8, 5, 2, 1]));
     m \<leftarrow> store m 0x2000 1;
     m \<leftarrow> qsort_r m 0x1000 5 4 cmp_i32_dir 0x2000;
     assert_that (load_bytes m 0x1000 20 = Some (ints [1, 2, 5, 8, 9]))
   }"

text \<open>The loop bodies of the search tests, for one needle.\<close>

definition finds :: "i32 \<Rightarrow> unit option" where
  "finds needle = do {
     let m = objects [(0x1000, ints [1, 3, 5, 7, 9, 11, 13]), (0x2000, ints [needle])];
     p \<leftarrow> bsearch m 0x2000 0x1000 7 4 cmp_i32_asc;
     assert_that (p \<noteq> null_ptr);
     v \<leftarrow> rd32 m p;
     assert_that (v = needle)
   }"

definition misses :: "i32 \<Rightarrow> unit option" where
  "misses needle = do {
     let m = objects [(0x1000, ints [2, 4, 6, 8, 10]), (0x2000, ints [needle])];
     p \<leftarrow> bsearch m 0x2000 0x1000 5 4 cmp_i32_asc;
     assert_that (p = null_ptr)
   }"

definition bsearch_finds_existing_element :: "unit option" where
  "bsearch_finds_existing_element = do { finds 1; finds 7; finds 13; finds 5 }"

definition bsearch_returns_null_for_missing_element :: "unit option" where
  "bsearch_returns_null_for_missing_element = do { misses 1; misses 5; misses 9; misses 11 }"

definition bsearch_empty_returns_null :: "unit option" where
  "bsearch_empty_returns_null = do {
     let m = objects [(0x1000, ints []), (0x2000, ints [42])];
     p \<leftarrow> bsearch m 0x2000 0x1000 0 4 cmp_i32_asc;
     assert_that (p = null_ptr)
   }"

lemma numeral_le_1: "(numeral k :: u64) \<le> 1 \<longleftrightarrow> unat (numeral k :: u64) \<le> 1"
  by (simp add: word_le_nat_alt)

lemmas sort_loops = swap_loop.simps sift_down.simps build_heap.simps extract_max.simps
  bsearch_loop.simps

lemmas sort_fns = elt_def swap_bytes_def heapsort_def qsort_2to3_adapter_def qsort_r_def qsort_def
  bsearch_def rd32_def ints_def sub_i32_def cmp_i32_asc_def cmp_i32_dir_def numeral_le_1

lemmas sort_eval = sort_loops sort_fns test_defs test_simps

lemma sort_tests_pass:
  "qsort_sorts_ascending = Some ()" "qsort_handles_already_sorted = Some ()"
  "qsort_handles_reverse = Some ()" "qsort_handles_duplicates = Some ()"
  "qsort_zero_and_one_element_no_op = Some ()" "qsort_r_threads_context_to_comparator = Some ()"
  subgoal by (simp add: qsort_sorts_ascending_def sort_eval cong: eval_cong)
  subgoal by (simp add: qsort_handles_already_sorted_def sort_eval cong: eval_cong)
  subgoal by (simp add: qsort_handles_reverse_def sort_eval cong: eval_cong)
  subgoal by (simp add: qsort_handles_duplicates_def sort_eval cong: eval_cong)
  subgoal by (simp add: qsort_zero_and_one_element_no_op_def sort_eval cong: eval_cong)
  subgoal by (simp add: qsort_r_threads_context_to_comparator_def sort_eval cong: eval_cong)
  done

lemma bsearch_tests_pass:
  "bsearch_finds_existing_element = Some ()" "bsearch_returns_null_for_missing_element = Some ()"
  "bsearch_empty_returns_null = Some ()"
  by (simp_all add: bsearch_finds_existing_element_def bsearch_returns_null_for_missing_element_def
      bsearch_empty_returns_null_def finds_def misses_def sort_eval cong: eval_cong)

end
