(* ===== verification/Sigset_Tests.thy ===== *)
theory Sigset_Tests
  imports Test_Kit Sigset
begin

section \<open>The tests of sigset.rs\<close>

text \<open>
  \<open>expects v f\<close> is \<open>assert_eq!(f(...), v)\<close> and \<open>calls f\<close> a call whose result is not looked at,
  both in the world of the test. The sets of a test are at \<open>0x1000\<close>, \<open>0x2000\<close> and \<open>0x3000\<close>.
\<close>

definition expects :: "'a \<Rightarrow> (unit, 'a) action \<Rightarrow> unit world \<Rightarrow> unit world option" where
  "expects v f w = do { (r, w') \<leftarrow> f w; assert_that (r = v); Some w' }"

definition calls :: "(unit, 'a) action \<Rightarrow> unit world \<Rightarrow> unit world option" where
  "calls f w = do { (_, w') \<leftarrow> f w; Some w' }"

definition words :: "c_ulong list \<Rightarrow> u8 list" where
  "words xs = concat (map (to_le 8) xs)"

definition empty_set :: "u8 list" where
  "empty_set = words (replicate 16 0)"

definition world_of :: "(ptr \<times> u8 list) list \<Rightarrow> unit world" where
  "world_of os = initial_world (objects os) ()"

definition clear_errno :: "unit world \<Rightarrow> unit world" where
  "clear_errno w = w\<lparr>errno := 0\<rparr>"

definition sigemptyset_zeroes_real_word :: "unit option" where
  "sigemptyset_zeroes_real_word = do {
     let w = world_of [(0x1000, words (replicate 16 0xdeadbeefdeadbeef))];
     w \<leftarrow> expects 0 (sigemptyset 0x1000) w;
     assert_that (get_bits (ram w) 0x1000 0 = Some 0);
     assert_that (get_bits (ram w) 0x1000 1 = Some 0xdeadbeefdeadbeef)
   }"

definition sigfillset_excludes_reserved :: "unit option" where
  "sigfillset_excludes_reserved = do {
     let w = world_of [(0x1000, empty_set)];
     w \<leftarrow> expects 0 (sigfillset 0x1000) w;
     assert_that (get_bits (ram w) 0x1000 0 = Some 0xfffffffc7fffffff);
     w \<leftarrow> expects 1 (sigismember 0x1000 1) w;
     w \<leftarrow> expects 1 (sigismember 0x1000 31) w;
     w \<leftarrow> expects 0 (sigismember 0x1000 32) w;
     w \<leftarrow> expects 0 (sigismember 0x1000 33) w;
     w \<leftarrow> expects 0 (sigismember 0x1000 34) w;
     w \<leftarrow> expects 1 (sigismember 0x1000 35) w;
     w \<leftarrow> expects 1 (sigismember 0x1000 64) w;
     Some ()
   }"

definition sigaddset_then_ismember_round_trip :: "unit option" where
  "sigaddset_then_ismember_round_trip = do {
     let w = world_of [(0x1000, empty_set)];
     w \<leftarrow> expects 0 (sigaddset 0x1000 1) w;
     w \<leftarrow> expects 0 (sigaddset 0x1000 7) w;
     w \<leftarrow> expects 0 (sigaddset 0x1000 64) w;
     w \<leftarrow> expects 1 (sigismember 0x1000 1) w;
     w \<leftarrow> expects 0 (sigismember 0x1000 2) w;
     w \<leftarrow> expects 1 (sigismember 0x1000 7) w;
     w \<leftarrow> expects 1 (sigismember 0x1000 64) w;
     Some ()
   }"

definition sigdelset_clears_specific_bit :: "unit option" where
  "sigdelset_clears_specific_bit = do {
     let w = world_of [(0x1000, empty_set)];
     w \<leftarrow> calls (sigaddset 0x1000 5) w;
     w \<leftarrow> calls (sigaddset 0x1000 6) w;
     w \<leftarrow> expects 0 (sigdelset 0x1000 5) w;
     w \<leftarrow> expects 0 (sigismember 0x1000 5) w;
     w \<leftarrow> expects 1 (sigismember 0x1000 6) w;
     Some ()
   }"

text \<open>The body of the loops over rejected signals.\<close>

definition rejects :: "(c_int \<Rightarrow> (unit, c_int) action) \<Rightarrow> c_int \<Rightarrow> unit world \<Rightarrow> unit world option" where
  "rejects f sig w = do {
     let w = clear_errno w;
     w \<leftarrow> expects (- 1) (f sig) w;
     assert_that (errno w = EINVAL);
     Some w
   }"

definition sigaddset_rejects_reserved_signals :: "unit option" where
  "sigaddset_rejects_reserved_signals = do {
     w \<leftarrow> run_all (rejects (sigaddset 0x1000)) [32, 33, 34] (world_of [(0x1000, empty_set)]);
     Some ()
   }"

definition sigdelset_rejects_reserved_signals :: "unit option" where
  "sigdelset_rejects_reserved_signals = do {
     w \<leftarrow> run_all (rejects (sigdelset 0x1000)) [32, 33, 34] (world_of [(0x1000, empty_set)]);
     Some ()
   }"

definition sigaddset_rejects_out_of_range :: "unit option" where
  "sigaddset_rejects_out_of_range = do {
     w \<leftarrow> run_all (rejects (sigaddset 0x1000)) [- 1, 0, 65, 100, 1000]
       (world_of [(0x1000, empty_set)]);
     Some ()
   }"

definition sigismember_allows_query_of_reserved_signals :: "unit option" where
  "sigismember_allows_query_of_reserved_signals = do {
     m \<leftarrow> put_bits (objects [(0x1000, empty_set)]) 0x1000 0 (push_bit 31 1);
     w \<leftarrow> expects 1 (sigismember 0x1000 32) (initial_world m ());
     Some ()
   }"

definition sigismember_returns_zero_for_out_of_range :: "unit option" where
  "sigismember_returns_zero_for_out_of_range = do {
     let w = world_of [(0x1000, empty_set)];
     w \<leftarrow> expects 0 (sigismember 0x1000 0) w;
     w \<leftarrow> expects 0 (sigismember 0x1000 65) w;
     w \<leftarrow> expects 0 (sigismember 0x1000 1000) w;
     w \<leftarrow> expects 0 (sigismember 0x1000 (- 1)) w;
     Some ()
   }"

definition two_sets :: "unit world option" where
  "two_sets = do {
     let w = world_of [(0x1000, empty_set), (0x2000, empty_set), (0x3000, empty_set)];
     w \<leftarrow> calls (sigaddset 0x1000 1) w;
     w \<leftarrow> calls (sigaddset 0x1000 5) w;
     w \<leftarrow> calls (sigaddset 0x2000 5) w;
     calls (sigaddset 0x2000 10) w
   }"

definition sigorset_unions :: "unit option" where
  "sigorset_unions = do {
     w \<leftarrow> two_sets;
     w \<leftarrow> expects 0 (sigorset 0x3000 0x1000 0x2000) w;
     w \<leftarrow> expects 1 (sigismember 0x3000 1) w;
     w \<leftarrow> expects 1 (sigismember 0x3000 5) w;
     w \<leftarrow> expects 1 (sigismember 0x3000 10) w;
     w \<leftarrow> expects 0 (sigismember 0x3000 2) w;
     Some ()
   }"

definition sigandset_intersects :: "unit option" where
  "sigandset_intersects = do {
     w \<leftarrow> two_sets;
     w \<leftarrow> expects 0 (sigandset 0x3000 0x1000 0x2000) w;
     w \<leftarrow> expects 0 (sigismember 0x3000 1) w;
     w \<leftarrow> expects 1 (sigismember 0x3000 5) w;
     w \<leftarrow> expects 0 (sigismember 0x3000 10) w;
     Some ()
   }"

definition sigisemptyset_reports_correctly :: "unit option" where
  "sigisemptyset_reports_correctly = do {
     let w = world_of [(0x1000, empty_set)];
     w \<leftarrow> expects 1 (sigisemptyset 0x1000) w;
     w \<leftarrow> calls (sigaddset 0x1000 7) w;
     w \<leftarrow> expects 0 (sigisemptyset 0x1000) w;
     w \<leftarrow> calls (sigdelset 0x1000 7) w;
     w \<leftarrow> expects 1 (sigisemptyset 0x1000) w;
     Some ()
   }"

lemmas sig_fns = expects_def calls_def words_def empty_set_def world_of_def clear_errno_def
  rejects_def two_sets_def initial_world_def set_errno_def bits_eq rd64_def
  wr64_def bit_index_def validate_sig_def set_einval_return_minus1_def sigemptyset_def
  sigfillset_def sigaddset_def sigdelset_def sigismember_def sst_indices_def sigorset_def
  sigandset_def sigisemptyset_def sig_defs

lemma mask_64: "8 * 8 - 1 = (63 :: u64)"
  by simp

lemmas sig_eval = sig_fns test_defs test_simps

lemma sigset_tests_pass:
  "sigemptyset_zeroes_real_word = Some ()" "sigfillset_excludes_reserved = Some ()"
  "sigaddset_then_ismember_round_trip = Some ()" "sigdelset_clears_specific_bit = Some ()"
  by (simp_all add: sigemptyset_zeroes_real_word_def sigfillset_excludes_reserved_def
     sigaddset_then_ismember_round_trip_def sigdelset_clears_specific_bit_def sig_eval cong: eval_cong)

lemma sigset_reject_tests_pass:
  "sigaddset_rejects_reserved_signals = Some ()" "sigdelset_rejects_reserved_signals = Some ()"
  "sigaddset_rejects_out_of_range = Some ()" "sigismember_allows_query_of_reserved_signals = Some ()"
  "sigismember_returns_zero_for_out_of_range = Some ()"
  by (simp_all add: sigaddset_rejects_reserved_signals_def sigdelset_rejects_reserved_signals_def
     sigaddset_rejects_out_of_range_def sigismember_allows_query_of_reserved_signals_def
     sigismember_returns_zero_for_out_of_range_def sig_eval cong: eval_cong)

lemma sigset_pair_tests_pass:
  "sigorset_unions = Some ()" "sigandset_intersects = Some ()"
  "sigisemptyset_reports_correctly = Some ()"
  by (simp_all add: sigorset_unions_def sigandset_intersects_def
     sigisemptyset_reports_correctly_def sig_eval cong: eval_cong)

end
