(* ===== verification/Value_Tests.thy ===== *)
theory Value_Tests
  imports Test_Kit Int_Ops Syscall
begin

section \<open>The tests of ctype.rs, int\_ops.rs and the messages\<close>

subsection \<open>ctype.rs\<close>

text \<open>
  The ASCII predicates of Rust's \<open>u8\<close> that the tests compare with, and the loop over all ASCII
  bytes. What follows that loop in the source calls the function and looks at nothing.
\<close>

definition is_ascii_uppercase :: "u8 \<Rightarrow> bool" where
  "is_ascii_uppercase b \<longleftrightarrow> 65 \<le> b \<and> b \<le> 90"

definition is_ascii_lowercase :: "u8 \<Rightarrow> bool" where
  "is_ascii_lowercase b \<longleftrightarrow> 97 \<le> b \<and> b \<le> 122"

definition is_ascii_digit :: "u8 \<Rightarrow> bool" where
  "is_ascii_digit b \<longleftrightarrow> 48 \<le> b \<and> b \<le> 57"

definition is_ascii_alphabetic :: "u8 \<Rightarrow> bool" where
  "is_ascii_alphabetic b \<longleftrightarrow> is_ascii_uppercase b \<or> is_ascii_lowercase b"

definition is_ascii_alphanumeric :: "u8 \<Rightarrow> bool" where
  "is_ascii_alphanumeric b \<longleftrightarrow> is_ascii_alphabetic b \<or> is_ascii_digit b"

definition is_ascii_hexdigit :: "u8 \<Rightarrow> bool" where
  "is_ascii_hexdigit b \<longleftrightarrow> is_ascii_digit b \<or> 65 \<le> b \<and> b \<le> 70 \<or> 97 \<le> b \<and> b \<le> 102"

definition is_ascii_graphic :: "u8 \<Rightarrow> bool" where
  "is_ascii_graphic b \<longleftrightarrow> 33 \<le> b \<and> b \<le> 126"

definition is_ascii_punctuation :: "u8 \<Rightarrow> bool" where
  "is_ascii_punctuation b \<longleftrightarrow> is_ascii_graphic b \<and> \<not> is_ascii_alphanumeric b"

definition is_ascii_control :: "u8 \<Rightarrow> bool" where
  "is_ascii_control b \<longleftrightarrow> b \<le> 31 \<or> b = 127"

definition to_ascii_lowercase :: "u8 \<Rightarrow> u8" where
  "to_ascii_lowercase b = (if is_ascii_uppercase b then b + 32 else b)"

definition to_ascii_uppercase :: "u8 \<Rightarrow> u8" where
  "to_ascii_uppercase b = (if is_ascii_lowercase b then b - 32 else b)"

definition ascii_bytes :: "u8 list" where
  "ascii_bytes = map of_nat [0..<128]"

definition predicate_matches :: "(c_int \<Rightarrow> c_int) \<Rightarrow> (u8 \<Rightarrow> bool) \<Rightarrow> unit option" where
  "predicate_matches f p =
     assert_that (list_all (\<lambda>b. (f (ucast b) \<noteq> 0) = p b) ascii_bytes)"

definition isalpha_matches_ascii_table :: "unit option" where
  "isalpha_matches_ascii_table = predicate_matches isalpha is_ascii_alphabetic"

definition isdigit_matches_ascii_table :: "unit option" where
  "isdigit_matches_ascii_table = predicate_matches isdigit is_ascii_digit"

definition isspace_matches_ascii_table :: "unit option" where
  "isspace_matches_ascii_table =
     predicate_matches isspace (\<lambda>b. b \<in> set [32, 9, 10, 0x0B, 0x0C, 13])"

definition isupper_matches_ascii_table :: "unit option" where
  "isupper_matches_ascii_table = predicate_matches isupper is_ascii_uppercase"

definition islower_matches_ascii_table :: "unit option" where
  "islower_matches_ascii_table = predicate_matches islower is_ascii_lowercase"

definition isalnum_matches_ascii_table :: "unit option" where
  "isalnum_matches_ascii_table = predicate_matches isalnum is_ascii_alphanumeric"

definition isxdigit_matches_ascii_table :: "unit option" where
  "isxdigit_matches_ascii_table = predicate_matches isxdigit is_ascii_hexdigit"

definition isgraph_matches_ascii_table :: "unit option" where
  "isgraph_matches_ascii_table = predicate_matches isgraph is_ascii_graphic"

definition isprint_matches_ascii_table :: "unit option" where
  "isprint_matches_ascii_table = predicate_matches isprint (\<lambda>b. 0x20 \<le> b \<and> b \<le> 0x7e)"

definition ispunct_matches_ascii_table :: "unit option" where
  "ispunct_matches_ascii_table = predicate_matches ispunct is_ascii_punctuation"

definition iscntrl_matches_ascii_table :: "unit option" where
  "iscntrl_matches_ascii_table = predicate_matches iscntrl is_ascii_control"

definition isblank_matches_ascii_table :: "unit option" where
  "isblank_matches_ascii_table = predicate_matches isblank (\<lambda>b. b = 32 \<or> b = 9)"

definition isascii_classifies_correctly :: "unit option" where
  "isascii_classifies_correctly = do {
     assert_that (list_all (\<lambda>b. isascii b \<noteq> 0) (map of_nat [0..<128]));
     assert_that (list_all (\<lambda>c. isascii c = 0) [128, 200, 255, 256, - 1, 0xfff])
   }"

definition tolower_folds_ascii_uppercase :: "unit option" where
  "tolower_folds_ascii_uppercase = do {
     assert_that (list_all (\<lambda>b. tolower (ucast b) = ucast (to_ascii_lowercase b)) ascii_bytes);
     assert_that (tolower (- 1) = - 1);
     assert_that (tolower 0xff = 0xff);
     assert_that (tolower 0x100 = 0x100)
   }"

definition toupper_folds_ascii_lowercase :: "unit option" where
  "toupper_folds_ascii_lowercase = do {
     assert_that (list_all (\<lambda>b. toupper (ucast b) = ucast (to_ascii_uppercase b)) ascii_bytes);
     assert_that (toupper (- 1) = - 1);
     assert_that (toupper 0xff = 0xff);
     assert_that (toupper 0x100 = 0x100)
   }"

definition toascii_strips_high_bit :: "unit option" where
  "toascii_strips_high_bit = do {
     assert_that (toascii 0x41 = 0x41);
     assert_that (toascii 0xC1 = 0x41);
     assert_that (toascii 0xFF = 0x7F)
   }"

definition locale_wrappers_forward :: "unit option" where
  "locale_wrappers_forward = do {
     assert_that (ctype_l_impl isalpha 65 null_ptr = 1);
     assert_that (ctype_l_impl isalpha 49 null_ptr = 0);
     assert_that (ctype_l_alias tolower 88 null_ptr = 120);
     assert_that (ctype_l_alias toupper 120 null_ptr = 88)
   }"

lemma class_tests_pass:
  "isalpha_matches_ascii_table = Some ()" "isdigit_matches_ascii_table = Some ()"
  "isspace_matches_ascii_table = Some ()" "isupper_matches_ascii_table = Some ()"
  "islower_matches_ascii_table = Some ()" "isalnum_matches_ascii_table = Some ()"
  "isxdigit_matches_ascii_table = Some ()" "isgraph_matches_ascii_table = Some ()"
  "isprint_matches_ascii_table = Some ()" "ispunct_matches_ascii_table = Some ()"
  "iscntrl_matches_ascii_table = Some ()" "isblank_matches_ascii_table = Some ()"
  by code_simp+

lemma fold_tests_pass:
  "isascii_classifies_correctly = Some ()" "tolower_folds_ascii_uppercase = Some ()"
  "toupper_folds_ascii_lowercase = Some ()" "toascii_strips_high_bit = Some ()"
  "locale_wrappers_forward = Some ()"
  by code_simp+


subsection \<open>int\_ops.rs\<close>

text \<open>\<open>MIN\<close> and \<open>MAX\<close> of the types of 32 and 64 bits.\<close>

definition INT_MIN :: c_int where
  "INT_MIN = 0x80000000"

definition INT_MAX :: c_int where
  "INT_MAX = 0x7fffffff"

definition LONG_MIN :: c_long where
  "LONG_MIN = 0x8000000000000000"

definition LONG_MAX :: c_long where
  "LONG_MAX = 0x7fffffffffffffff"

definition abs_basic :: "unit option" where
  "abs_basic = do {
     assert_that (abs_fn 0 = 0);
     assert_that (abs_fn 1 = 1);
     assert_that (abs_fn (- 1) = 1);
     assert_that (abs_fn INT_MAX = INT_MAX);
     assert_that (abs_fn INT_MIN = INT_MIN)
   }"

definition labs_basic :: "unit option" where
  "labs_basic = do {
     assert_that (labs 0 = 0);
     assert_that (labs (- 42) = 42);
     assert_that (labs LONG_MIN = LONG_MIN)
   }"

definition llabs_basic :: "unit option" where
  "llabs_basic = do {
     assert_that (llabs 0 = 0);
     assert_that (llabs (- LONG_MAX) = LONG_MAX);
     assert_that (llabs LONG_MIN = LONG_MIN)
   }"

definition imaxabs_basic :: "unit option" where
  "imaxabs_basic = do {
     assert_that (imaxabs 0 = 0);
     assert_that (imaxabs (- 7) = 7);
     assert_that (imaxabs LONG_MIN = LONG_MIN)
   }"

definition div_basic :: "unit option" where
  "div_basic = do {
     r \<leftarrow> div_fn 7 2;
     assert_that (r = \<lparr>div_quot = 3, div_rem = 1\<rparr>);
     r \<leftarrow> div_fn (- 7) 2;
     assert_that (r = \<lparr>div_quot = - 3, div_rem = - 1\<rparr>);
     r \<leftarrow> div_fn 7 (- 2);
     assert_that (r = \<lparr>div_quot = - 3, div_rem = 1\<rparr>);
     r \<leftarrow> div_fn 0 5;
     assert_that (r = \<lparr>div_quot = 0, div_rem = 0\<rparr>)
   }"

definition ldiv_basic :: "unit option" where
  "ldiv_basic = do {
     r \<leftarrow> ldiv 1000000000000 7;
     assert_that (r = \<lparr>ldiv_quot = 142857142857, ldiv_rem = 1\<rparr>)
   }"

definition lldiv_basic :: "unit option" where
  "lldiv_basic = do {
     r \<leftarrow> lldiv 100 9;
     assert_that (r = \<lparr>lldiv_quot = 11, lldiv_rem = 1\<rparr>)
   }"

definition imaxdiv_basic :: "unit option" where
  "imaxdiv_basic = do {
     r \<leftarrow> imaxdiv 7 (- 3);
     assert_that (r = \<lparr>imaxdiv_quot = - 2, imaxdiv_rem = 1\<rparr>)
   }"

lemma int_tests_pass:
  "abs_basic = Some ()" "labs_basic = Some ()" "llabs_basic = Some ()" "imaxabs_basic = Some ()"
  "div_basic = Some ()" "ldiv_basic = Some ()" "lldiv_basic = Some ()" "imaxdiv_basic = Some ()"
  by code_simp+


subsection \<open>mytilus-errno\<close>

definition known_message :: "unit option" where
  "known_message = assert_that (strerror_str EAGAIN = bytes_of ''Resource temporarily unavailable'')"

definition unmapped_falls_back :: "unit option" where
  "unmapped_falls_back = assert_that (strerror_str ECHRNG = bytes_of ''No error information'')"

definition out_of_range_falls_back :: "unit option" where
  "out_of_range_falls_back = do {
     assert_that (strerror_str 9999 = bytes_of ''No error information'');
     assert_that (strerror_str (- 1) = bytes_of ''No error information'')
   }"

definition aliases_resolve :: "unit option" where
  "aliases_resolve = do {
     assert_that (EWOULDBLOCK = EAGAIN);
     assert_that (ENOTSUP = EOPNOTSUPP);
     assert_that (EDEADLOCK = EDEADLK)
   }"

definition errno_location_round_trip :: "unit option" where
  "errno_location_round_trip = do {
     let w = set_errno EINVAL (initial_world (objects []) ());
     assert_that (errno w = EINVAL)
   }"

lemma errno_tests_pass:
  "known_message = Some ()" "unmapped_falls_back = Some ()" "out_of_range_falls_back = Some ()"
  "aliases_resolve = Some ()" "errno_location_round_trip = Some ()"
  by (simp_all add: known_message_def unmapped_falls_back_def out_of_range_falls_back_def
      aliases_resolve_def errno_location_round_trip_def assert_that_def strerror_str_lookup_raw
      message_assignments_def errno_defs UNK_def set_errno_def)

end
