(* ===== verification/Prng_Tests.thy ===== *)
theory Prng_Tests
  imports Test_Kit Rand48 Random_Gen
begin

unbundle bit_operations_syntax

section \<open>The tests of mytilus-prng\<close>

text \<open>
  A test starts from any values of the statics: the state is its argument. The three numbers of
  a tuple are drawn from left to right.
\<close>

definition three_rands :: "u64 \<Rightarrow> c_int list \<times> u64" where
  "three_rands st =
     (let (a, st) = rand st; (b, st) = rand st; (c, st) = rand st in ([a, b, c], st))"

definition rand_after_srand_one :: "unit option" where
  "rand_after_srand_one = assert_that (fst (rand (srand 1)) = 0)"

definition rand_is_deterministic :: "unit option" where
  "rand_is_deterministic = do {
     let (a, st) = three_rands (srand 42);
     let (b, st) = three_rands (srand 42);
     assert_that (a = b);
     assert_that (a = [311430560, 131117839, 1110653038])
   }"

definition rand_r_is_pure_function_of_seed :: "unit option" where
  "rand_r_is_pure_function_of_seed = do {
     let s1 = 0xdeadbeef;
     let s2 = 0xdeadbeef;
     let (r1, s1) = rand_r s1;
     let (r2, s2) = rand_r s2;
     assert_that (r1 = r2);
     let (r1, s1) = rand_r s1;
     let (r2, s2) = rand_r s2;
     assert_that (r1 = r2);
     assert_that (s1 = s2)
   }"

text \<open>\<open>n\<close> draws, each of which has to satisfy \<open>p\<close>.\<close>

fun all_draws :: "nat \<Rightarrow> ('s \<Rightarrow> 'a \<times> 's) \<Rightarrow> ('a \<Rightarrow> bool) \<Rightarrow> 's \<Rightarrow> unit option" where
  "all_draws 0 f p st = Some ()"
| "all_draws (Suc n) f p st = (let (v, st) = f st in do { assert_that (p v); all_draws n f p st })"

definition drand48_in_unit_interval :: "rand48_state \<Rightarrow> unit option" where
  "drand48_in_unit_interval st = all_draws 100 drand48 (\<lambda>v. 0 \<le> v \<and> v < 1) (srand48 st 123)"

definition lrand48_nonneg_and_31bit :: "rand48_state \<Rightarrow> unit option" where
  "lrand48_nonneg_and_31bit st =
     all_draws 100 lrand48 (\<lambda>v. 0 \<le> sint v \<and> sint v < 2 ^ 31) (srand48 st 7)"

definition mrand48_within_i32_range :: "rand48_state \<Rightarrow> unit option" where
  "mrand48_within_i32_range st =
     all_draws 100 mrand48 (\<lambda>v. - (2 ^ 31) \<le> sint v \<and> sint v \<le> 2 ^ 31 - 1) (srand48 st 7)"

text \<open>The bits of an \<open>f64\<close> are its value here.\<close>

definition rand48_spec_first_outputs :: "rand48_state \<Rightarrow> unit option" where
  "rand48_spec_first_outputs st = do {
     assert_that (fst (lrand48 (srand48 st 0)) = 366850414);
     assert_that (fst (mrand48 (srand48 st 0)) = 733700828);
     assert_that (fst (drand48 (srand48 st 123)) = 0x1e3864ed44040 / 2 ^ 54 + 1 / 4)
   }"

definition srand48_then_seed48_round_trip :: "rand48_state \<Rightarrow> unit option" where
  "srand48_then_seed48_round_trip st = do {
     let st = srand48 st 99;
     let (old, st) = seed48 st (Caller [1, 2, 3]);
     assert_that (old ! 0 = 0x330e);
     assert_that (old ! 1 = 99);
     assert_that (old ! 2 = 0)
   }"

definition rand48_step_matches_known_first_call :: "rand48_state \<Rightarrow> unit option" where
  "rand48_step_matches_known_first_call st = do {
     let a = 0x5deece66d;
     let x0 = 0x330e;
     let expected = (a * x0 + 0xb) AND 0xffffffffffff;
     let st = srand48 st 0;
     assert_that (fst (rand48_step (seed48_xi st) (seed48_lc st)) = expected)
   }"

definition five_randoms :: "random_state \<Rightarrow> (i64 list \<times> random_state) option" where
  "five_randoms st = do {
     (a, st) \<leftarrow> random st;
     (b, st) \<leftarrow> random st;
     (c, st) \<leftarrow> random st;
     (d, st) \<leftarrow> random st;
     (e, st) \<leftarrow> random st;
     Some ([a, b, c, d, e], st)
   }"

definition random_is_deterministic :: "random_state \<Rightarrow> unit option" where
  "random_is_deterministic st = do {
     st \<leftarrow> srandom 2024 st;
     (a, st) \<leftarrow> five_randoms st;
     st \<leftarrow> srandom 2024 st;
     (b, st) \<leftarrow> five_randoms st;
     assert_that (a = b)
   }"

definition a_random :: "unit \<Rightarrow> random_state \<Rightarrow> random_state option" where
  "a_random _ st = do {
     (v, st) \<leftarrow> random st;
     assert_that (0 \<le> sint v);
     assert_that (sint v < 2 ^ 31);
     Some st
   }"

definition random_default_state_31bit :: "random_state \<Rightarrow> unit option" where
  "random_default_state_31bit st = do {
     st \<leftarrow> srandom 1 st;
     st \<leftarrow> run_all a_random (replicate 200 ()) st;
     Some ()
   }"

lemma rand_tests_pass:
  "rand_after_srand_one = Some ()" "rand_is_deterministic = Some ()"
  "rand_r_is_pure_function_of_seed = Some ()"
  by code_simp+

text \<open>The tests of the 48-bit family hold in every well-formed state, by the laws of its operations.\<close>

lemma all_draws_invariant:
  assumes "\<And>st. P st \<Longrightarrow> p (fst (f st)) \<and> P (snd (f st))" "P st"
  shows "all_draws n f p st = Some ()"
  using assms(2)
proof (induction n arbitrary: st)
  case (Suc n)
  then show ?case using assms(1) [of st] by (simp add: assert_that_def case_prod_beta)
qed simp

lemma srand48_wf: "rand48_wf st \<Longrightarrow> rand48_wf (srand48 st seed)"
  by (simp add: srand48_def seed48_state rand48_wf_def)

lemma draw_bounds:
  assumes "rand48_wf st"
  shows "0 \<le> fst (drand48 st) \<and> fst (drand48 st) < 1 \<and> rand48_wf (snd (drand48 st))"
    "0 \<le> sint (fst (lrand48 st)) \<and> sint (fst (lrand48 st)) < 2 ^ 31 \<and> rand48_wf (snd (lrand48 st))"
    "- (2 ^ 31) \<le> sint (fst (mrand48 st)) \<and> sint (fst (mrand48 st)) \<le> 2 ^ 31 - 1
      \<and> rand48_wf (snd (mrand48 st))"
proof -
  define x' where "x' = lcg48 (a48 st) (c48 st) (x48 st)"
  have b: "0 \<le> x'" "x' < 2 ^ 48" unfolding x'_def by (rule lcg48_bound)+
  obtain st' l m where d: "drand48 st = (of_int x' / 2 ^ 48, st')" "lrand48 st = (l, st')"
      "sint l = x' div 2 ^ 17" "mrand48 st = (m, st')"
      "sint m = signed_take_bit 31 (x' div 2 ^ 16)" "rand48_wf st'"
    using rand48_family_laws [OF assms x'_def] by blast
  have "(of_int x' :: rat) < of_int (2 ^ 48)" using b(2) by (simp only: of_int_less_iff)
  with d b(1) show "0 \<le> fst (drand48 st) \<and> fst (drand48 st) < 1 \<and> rand48_wf (snd (drand48 st))"
    by simp
  have "0 \<le> x' div 2 ^ 17" "x' div 2 ^ 17 < 2 ^ 31" using b by simp_all
  then have "0 \<le> sint l" "sint l < 2 ^ 31" unfolding d(3) .
  with d(2,6) show "0 \<le> sint (fst (lrand48 st)) \<and> sint (fst (lrand48 st)) < 2 ^ 31 \<and> rand48_wf (snd (lrand48 st))"
    by simp
  show "- (2 ^ 31) \<le> sint (fst (mrand48 st)) \<and> sint (fst (mrand48 st)) \<le> 2 ^ 31 - 1
      \<and> rand48_wf (snd (mrand48 st))"
    using d signed_take_bit_int_greater_eq_minus_exp [of 31 "x' div 2 ^ 16"]
      signed_take_bit_int_less_exp [of 31 "x' div 2 ^ 16"] by simp
qed

lemma range_tests_pass:
  assumes "rand48_wf st"
  shows "drand48_in_unit_interval st = Some ()" "lrand48_nonneg_and_31bit st = Some ()"
    "mrand48_within_i32_range st = Some ()"
  unfolding drand48_in_unit_interval_def lrand48_nonneg_and_31bit_def mrand48_within_i32_range_def
  by (rule all_draws_invariant [where P = rand48_wf], use draw_bounds in blast,
      rule srand48_wf [OF assms])+

text \<open>The known outputs need the multiplier and the addend of program start.\<close>

lemma srand48_fields:
  "rand48_wf st \<Longrightarrow> seed48_xi (srand48 st seed) = [0x330e, ucast seed, ucast (signed_drop_bit 16 seed)]"
  "rand48_wf st \<Longrightarrow> seed48_lc (srand48 st seed) = seed48_lc st"
  by (simp_all add: srand48_def seed48_state seed48_xi_def seed48_lc_def rand48_wf_def)

lemma known_output_tests_pass:
  assumes "rand48_wf st" "seed48_lc st = seed48_lc rand48_init"
  shows "rand48_spec_first_outputs st = Some ()" "rand48_step_matches_known_first_call st = Some ()"
proof -
  have lc: "seed48_lc st = [0xe66d, 0xdeec, 0x5, 0xb]"
    using assms(2) by (simp add: seed48_lc_def rand48_init_def)
  note fields = srand48_fields [OF assms(1)] lc
  have step: "rand48_step [0x330e, 0, 0] [0xe66d, 0xdeec, 0x5, 0xb] =
        (0x2bbb62dc5101, [0x5101, 0x62dc, 0x2bbb])"
      "rand48_step [0x330e, 123, 0] [0xe66d, 0xdeec, 0x5, 0xb] =
        (0x478e193b5101, [0x5101, 0x193b, 0x478e])"
    by code_simp+
  have half: "signed_drop_bit 16 (0 :: i64) = 0" "signed_drop_bit 16 (123 :: i64) = 0"
    by code_simp+
  have "uint (0x478e193b5101 :: u64) < 2 ^ 48" by simp
  note bits = erand48_bits [OF this, simplified]
  have m: "scast (ucast (drop_bit 16 (0x2bbb62dc5101 :: u64)) :: i32) = (733700828 :: i64)"
    by code_simp
  show "rand48_spec_first_outputs st = Some ()"
    by (simp add: rand48_spec_first_outputs_def assert_that_def fields step half lrand48_def
        nrand48_def mrand48_def jrand48_def drand48_def erand48_def bits m)
  show "rand48_step_matches_known_first_call st = Some ()"
    by (simp add: rand48_step_matches_known_first_call_def fields, code_simp)
qed

lemma seed48_round_trip_test_passes:
  assumes "rand48_wf st"
  shows "srand48_then_seed48_round_trip st = Some ()"
proof -
  have "signed_drop_bit 16 (99 :: i64) = 0" by code_simp
  moreover have "seed48 (srand48 st 99) (Caller [1, 2, 3]) = (old, st') \<Longrightarrow> old = seed48_xi (srand48 st 99)"
    for old st'
    using seed48_state [OF srand48_wf [OF assms]] by (auto simp: seed48_xi_def)
  ultimately show ?thesis
    using srand48_fields(1) [OF assms, of 99]
    by (auto simp: srand48_then_seed48_round_trip_def assert_that_def split: prod.split)
qed

text \<open>The tests of the locked family hold whatever generator is active between two operations.\<close>

fun gen_draws :: "nat \<Rightarrow> generator \<Rightarrow> i64 list \<times> generator" where
  "gen_draws 0 g = ([], g)"
| "gen_draws (Suc n) g =
     (let (v, g1) = gen_next g; (vs, g2) = gen_draws n g1 in (ucast v # vs, g2))"

lemma gen_draws_eq: "gen_eq g g' \<Longrightarrow> fst (gen_draws n g) = fst (gen_draws n g')"
proof (induction n arbitrary: g g')
  case (Suc n)
  show ?case
    using gen_eq_next [OF Suc.prems] Suc.IH [of "snd (gen_next g)" "snd (gen_next g')"]
    by (simp add: case_prod_beta)
qed simp

lemma gen_draws_degree: "degree (snd (gen_draws n g)) = degree g"
proof (induction n arbitrary: g)
  case (Suc n)
  have "degree (snd (gen_next g)) = degree g" by (simp add: gen_next_def Let_def)
  then show ?case using Suc.IH [of "snd (gen_next g)"] by (simp add: case_prod_beta)
qed simp

lemma five_randoms_ready:
  assumes "ready a st g"
  shows "\<exists>st'. five_randoms st = Some (fst (gen_draws 5 g), st') \<and> ready a st' (snd (gen_draws 5 g))"
proof -
  let ?next = "\<lambda>g. snd (gen_next g)"
  obtain st1 where 1: "random st = Some (ucast (fst (gen_next g)), st1)" "ready a st1 (?next g)"
    using random_ready [OF assms] by blast
  obtain st2 where 2: "random st1 = Some (ucast (fst (gen_next (?next g))), st2)"
      "ready a st2 (?next (?next g))"
    using random_ready [OF 1(2)] by blast
  obtain st3 where 3: "random st2 = Some (ucast (fst (gen_next (?next (?next g)))), st3)"
      "ready a st3 (?next (?next (?next g)))"
    using random_ready [OF 2(2)] by blast
  obtain st4 where 4: "random st3 = Some (ucast (fst (gen_next (?next (?next (?next g))))), st4)"
      "ready a st4 (?next (?next (?next (?next g))))"
    using random_ready [OF 3(2)] by blast
  obtain st5 where 5: "random st4 = Some (ucast (fst (gen_next (?next (?next (?next (?next g)))))), st5)"
      "ready a st5 (?next (?next (?next (?next (?next g)))))"
    using random_ready [OF 4(2)] by blast
  show ?thesis
    using 1(1) 2(1) 3(1) 4(1) 5
    by (simp add: five_randoms_def eval_nat_numeral Let_def case_prod_beta)
qed

lemma random_is_deterministic_passes:
  assumes "ready a st g"
  shows "random_is_deterministic st = Some ()"
proof -
  let ?g = "gen_seed 2024 g"
  obtain st1 where 1: "srandom 2024 st = Some st1" "ready a st1 ?g"
    using srandom_ready [OF assms] by blast
  obtain st2 where 2: "five_randoms st1 = Some (fst (gen_draws 5 ?g), st2)"
      "ready a st2 (snd (gen_draws 5 ?g))"
    using five_randoms_ready [OF 1(2)] by blast
  let ?g' = "gen_seed 2024 (snd (gen_draws 5 ?g))"
  obtain st3 where 3: "srandom 2024 st2 = Some st3" "ready a st3 ?g'"
    using srandom_ready [OF 2(2)] by blast
  obtain st4 where 4: "five_randoms st3 = Some (fst (gen_draws 5 ?g'), st4)"
    using five_randoms_ready [OF 3(2)] by blast
  have "degree ?g = degree g" by (simp add: gen_seed_def Let_def)
  then have "gen_eq ?g ?g'" by (intro gen_eq_seed) (simp add: gen_draws_degree)
  then show ?thesis
    using 1(1) 2(1) 3(1) 4
    by (simp add: random_is_deterministic_def assert_that_def gen_draws_eq [of ?g ?g'])
qed

interpretation draws: simulation "ready a" a_random "\<lambda>_ g. snd (gen_next g)" for a
proof unfold_locales
  fix st g x
  assume "ready a st g"
  then obtain st' where "random st = Some (ucast (fst (gen_next g)), st')"
      "ready a st' (snd (gen_next g))"
    using random_ready by blast
  then show "\<exists>st'. a_random x st = Some st' \<and> ready a st' (snd (gen_next g))"
    using gen_next_bound [of g] by (simp add: a_random_def assert_that_def)
qed

lemma random_default_state_31bit_passes:
  assumes "ready a st g"
  shows "random_default_state_31bit st = Some ()"
proof -
  obtain st1 where 1: "srandom 1 st = Some st1" "ready a st1 (gen_seed 1 g)"
    using srandom_ready [OF assms] by blast
  obtain st2 where "run_all a_random (replicate 200 ()) st1 = Some st2"
    using draws.run_all_simulates [OF 1(2)] by blast
  with 1(1) show ?thesis by (simp add: random_default_state_31bit_def)
qed

end
