(* ===== verification/Abi_Tests.thy ===== *)
theory Abi_Tests
  imports Test_Kit Mman Fcntl Unistd Process
begin

unbundle bit_operations_syntax

section \<open>The tests of the system-call crates\<close>

text \<open>
  These tests compare the constants of a crate with the kernel interface. The numbers are those
  of the tests, not those of the definitions.
\<close>

lemmas abi_defs = mman_defs fcntl_defs time_defs nr_defs getpagesize_def

subsection \<open>mytilus-mman\<close>

definition map_flags_match_linux_abi :: "unit option" where
  "map_flags_match_linux_abi = do {
     assert_that (MAP_SHARED = 0x01);
     assert_that (MAP_PRIVATE = 0x02);
     assert_that (MAP_FIXED = 0x10);
     assert_that (MAP_ANON = 0x20);
     assert_that (MAP_ANONYMOUS = MAP_ANON);
     assert_that (MAP_FAILED = - 1)
   }"

definition prot_flags_match_linux_abi :: "unit option" where
  "prot_flags_match_linux_abi = do {
     assert_that (PROT_NONE = 0);
     assert_that (PROT_READ = 1);
     assert_that (PROT_WRITE = 2);
     assert_that (PROT_EXEC = 4)
   }"

definition msync_flags_match_linux_abi :: "unit option" where
  "msync_flags_match_linux_abi = do {
     assert_that (MS_ASYNC = 1);
     assert_that (MS_INVALIDATE = 2);
     assert_that (MS_SYNC = 4)
   }"

definition madv_constants_match_linux_abi :: "unit option" where
  "madv_constants_match_linux_abi = do {
     assert_that (MADV_NORMAL = 0);
     assert_that (MADV_DONTNEED = 4);
     assert_that (MADV_FREE = 8);
     assert_that (POSIX_MADV_NORMAL = 0);
     assert_that (POSIX_MADV_DONTNEED = 4)
   }"

definition mremap_constants_match_linux_abi :: "unit option" where
  "mremap_constants_match_linux_abi = do {
     assert_that (MREMAP_MAYMOVE = 1);
     assert_that (MREMAP_FIXED = 2)
   }"

definition mman_syscall_numbers_match_aarch64_abi :: "unit option" where
  "mman_syscall_numbers_match_aarch64_abi = do {
     assert_that (SYS_mmap = 222);
     assert_that (SYS_munmap = 215);
     assert_that (SYS_mprotect = 226);
     assert_that (SYS_mremap = 216);
     assert_that (SYS_msync = 227);
     assert_that (SYS_madvise = 233);
     assert_that (SYS_mincore = 232);
     assert_that (SYS_mlock = 228);
     assert_that (SYS_munlock = 229);
     assert_that (SYS_mlockall = 230);
     assert_that (SYS_munlockall = 231)
   }"

lemma mman_tests_pass:
  "map_flags_match_linux_abi = Some ()"
  "prot_flags_match_linux_abi = Some ()"
  "msync_flags_match_linux_abi = Some ()"
  "madv_constants_match_linux_abi = Some ()"
  "mremap_constants_match_linux_abi = Some ()"
  "mman_syscall_numbers_match_aarch64_abi = Some ()"
  by (simp_all add: map_flags_match_linux_abi_def prot_flags_match_linux_abi_def
    msync_flags_match_linux_abi_def madv_constants_match_linux_abi_def
    mremap_constants_match_linux_abi_def mman_syscall_numbers_match_aarch64_abi_def
      assert_that_def abi_defs)

subsection \<open>mytilus-fcntl\<close>

definition open_flag_constants_match_linux_abi :: "unit option" where
  "open_flag_constants_match_linux_abi = do {
     assert_that (O_RDONLY = 0);
     assert_that (O_WRONLY = 1);
     assert_that (O_RDWR = 2);
     assert_that (O_CREAT = 0x40);
     assert_that (O_EXCL = 0x80);
     assert_that (O_TRUNC = 0x200);
     assert_that (O_APPEND = 0x400);
     assert_that (O_NONBLOCK = 0x800);
     assert_that (O_CLOEXEC = 0x80000);
     assert_that (O_DIRECTORY = 0x4000);
     assert_that (O_NOFOLLOW = 0x8000);
     assert_that (O_LARGEFILE = 0x20000);
     assert_that (O_TMPFILE = 0x404000);
     assert_that (O_TMPFILE AND O_DIRECTORY = O_DIRECTORY)
   }"

definition fcntl_cmds_match_linux_abi :: "unit option" where
  "fcntl_cmds_match_linux_abi = do {
     assert_that (F_DUPFD = 0);
     assert_that (F_GETFD = 1);
     assert_that (F_SETFD = 2);
     assert_that (F_GETFL = 3);
     assert_that (F_SETFL = 4);
     assert_that (F_GETLK = 5);
     assert_that (F_SETLK = 6);
     assert_that (F_SETLKW = 7);
     assert_that (F_DUPFD_CLOEXEC = 1030);
     assert_that (FD_CLOEXEC = 1)
   }"

definition at_constants_match_linux_abi :: "unit option" where
  "at_constants_match_linux_abi = do {
     assert_that (AT_FDCWD = - 100);
     assert_that (AT_SYMLINK_NOFOLLOW = 0x100);
     assert_that (AT_REMOVEDIR = 0x200);
     assert_that (AT_EMPTY_PATH = 0x1000)
   }"

definition posix_fadv_constants_match_linux_abi :: "unit option" where
  "posix_fadv_constants_match_linux_abi = do {
     assert_that (POSIX_FADV_NORMAL = 0);
     assert_that (POSIX_FADV_RANDOM = 1);
     assert_that (POSIX_FADV_SEQUENTIAL = 2);
     assert_that (POSIX_FADV_WILLNEED = 3);
     assert_that (POSIX_FADV_DONTNEED = 4);
     assert_that (POSIX_FADV_NOREUSE = 5)
   }"

definition fcntl_syscall_numbers_match_aarch64_abi :: "unit option" where
  "fcntl_syscall_numbers_match_aarch64_abi = do {
     assert_that (SYS_fcntl = 25);
     assert_that (SYS_fallocate = 47);
     assert_that (SYS_openat = 56);
     assert_that (SYS_close = 57);
     assert_that (SYS_fadvise64 = 223)
   }"

lemma fcntl_tests_pass:
  "open_flag_constants_match_linux_abi = Some ()"
  "fcntl_cmds_match_linux_abi = Some ()"
  "at_constants_match_linux_abi = Some ()"
  "posix_fadv_constants_match_linux_abi = Some ()"
  "fcntl_syscall_numbers_match_aarch64_abi = Some ()"
  by (simp_all add: open_flag_constants_match_linux_abi_def fcntl_cmds_match_linux_abi_def
    at_constants_match_linux_abi_def posix_fadv_constants_match_linux_abi_def
    fcntl_syscall_numbers_match_aarch64_abi_def
      assert_that_def abi_defs)

subsection \<open>mytilus-time\<close>

definition clock_constants_match_linux_abi :: "unit option" where
  "clock_constants_match_linux_abi = do {
     assert_that (CLOCK_REALTIME = 0);
     assert_that (CLOCK_MONOTONIC = 1);
     assert_that (CLOCK_PROCESS_CPUTIME_ID = 2);
     assert_that (CLOCK_THREAD_CPUTIME_ID = 3);
     assert_that (CLOCK_MONOTONIC_RAW = 4);
     assert_that (CLOCK_REALTIME_COARSE = 5);
     assert_that (CLOCK_MONOTONIC_COARSE = 6);
     assert_that (CLOCK_BOOTTIME = 7);
     assert_that (CLOCK_REALTIME_ALARM = 8);
     assert_that (CLOCK_BOOTTIME_ALARM = 9);
     assert_that (CLOCK_TAI = 11)
   }"

definition timer_abstime_matches_linux_abi :: "unit option" where
  "timer_abstime_matches_linux_abi = do {
     assert_that (TIMER_ABSTIME = 1)
   }"

definition time_syscall_numbers_match_aarch64_abi :: "unit option" where
  "time_syscall_numbers_match_aarch64_abi = do {
     assert_that (SYS_nanosleep = 101);
     assert_that (SYS_clock_settime = 112);
     assert_that (SYS_clock_gettime = 113);
     assert_that (SYS_clock_getres = 114);
     assert_that (SYS_clock_nanosleep = 115);
     assert_that (SYS_gettimeofday = 169)
   }"

lemma time_tests_pass:
  "clock_constants_match_linux_abi = Some ()"
  "timer_abstime_matches_linux_abi = Some ()"
  "time_syscall_numbers_match_aarch64_abi = Some ()"
  by (simp_all add: clock_constants_match_linux_abi_def timer_abstime_matches_linux_abi_def
    time_syscall_numbers_match_aarch64_abi_def
      assert_that_def abi_defs)

subsection \<open>mytilus-unistd\<close>

definition unistd_syscall_numbers_match_aarch64_abi :: "unit option" where
  "unistd_syscall_numbers_match_aarch64_abi = do {
     assert_that (SYS_dup = 23);
     assert_that (SYS_dup3 = 24);
     assert_that (SYS_lseek = 62);
     assert_that (SYS_read = 63);
     assert_that (SYS_write = 64);
     assert_that (SYS_ppoll = 73);
     assert_that (SYS_sync = 81);
     assert_that (SYS_fsync = 82);
     assert_that (SYS_fdatasync = 83)
   }"

definition getpagesize_returns_4k :: "unit option" where
  "getpagesize_returns_4k = do {
     assert_that (getpagesize = 4096)
   }"

lemma unistd_tests_pass:
  "unistd_syscall_numbers_match_aarch64_abi = Some ()" "getpagesize_returns_4k = Some ()"
  by (simp_all add: unistd_syscall_numbers_match_aarch64_abi_def getpagesize_returns_4k_def
      assert_that_def abi_defs)

subsection \<open>mytilus-process\<close>

definition process_syscall_numbers_match_aarch64_abi :: "unit option" where
  "process_syscall_numbers_match_aarch64_abi = do {
     assert_that (SYS_exit = 93);
     assert_that (SYS_exit_group = 94);
     assert_that (SYS_sched_yield = 124);
     assert_that (SYS_kill = 129);
     assert_that (SYS_setpgid = 154);
     assert_that (SYS_getpgid = 155);
     assert_that (SYS_getsid = 156);
     assert_that (SYS_setsid = 157);
     assert_that (SYS_getpid = 172);
     assert_that (SYS_getppid = 173);
     assert_that (SYS_getuid = 174);
     assert_that (SYS_geteuid = 175);
     assert_that (SYS_getgid = 176);
     assert_that (SYS_getegid = 177)
   }"

lemma process_tests_pass:
  "process_syscall_numbers_match_aarch64_abi = Some ()"
  by (simp_all add: process_syscall_numbers_match_aarch64_abi_def
      assert_that_def abi_defs)

end
