(* ===== verification/Structures.thy ===== *)
theory Structures
  imports Sigset Startup
begin

section \<open>The structures of the C interface\<close>

text \<open>
  The \<open>repr(C)\<close> types of the crates beside those of \<open>Time\<close> and \<open>Sigset\<close>: the results of the
  \<open>div\<close> family (\<open>mytilus-stdlib\<close>), \<open>long double\<close> (\<open>mytilus-sys\<close>), and the \<open>jmp_buf\<close>
  (\<open>mytilus-startup/src/lib.rs\<close>), which the assembly of \<open>setjmp\<close> fills by offsets of its own.
\<close>

subsection \<open>The types\<close>

definition div_t_type :: c_type where [layout_types]:
  "div_t_type = repr_C (Field ''quot'' (scalar TYPE(c_int)) (Field ''rem'' (scalar TYPE(c_int)) No_Field))"

definition ldiv_t_type :: c_type where [layout_types]:
  "ldiv_t_type = repr_C (Field ''quot'' (scalar TYPE(c_long)) (Field ''rem'' (scalar TYPE(c_long)) No_Field))"

definition lldiv_t_type :: c_type where [layout_types]:
  "lldiv_t_type = repr_C (Field ''quot'' (scalar TYPE(c_longlong))
     (Field ''rem'' (scalar TYPE(c_longlong)) No_Field))"

definition imaxdiv_t_type :: c_type where [layout_types]:
  "imaxdiv_t_type = repr_C (Field ''quot'' (scalar TYPE(intmax_t))
     (Field ''rem'' (scalar TYPE(intmax_t)) No_Field))"

definition jmp_buf_regs_type :: c_type where [layout_types]:
  "jmp_buf_regs_type = Array (scalar TYPE(c_ulong)) jmp_buf_words"

definition jmp_buf_tag_type :: c_type where [layout_types]:
  "jmp_buf_tag_type = repr_C (Field ''__jb'' jmp_buf_regs_type (Field ''__fl'' (scalar TYPE(c_ulong))
     (Field ''__ss'' (Array (scalar TYPE(c_ulong)) 16) No_Field)))"

definition jmp_buf_type :: c_type where [layout_types]:
  "jmp_buf_type = Array jmp_buf_tag_type 1"

definition sigjmp_buf_type :: c_type where [layout_types]:
  "sigjmp_buf_type = jmp_buf_type"

definition c_longdouble_type :: c_type where [layout_types]:
  "c_longdouble_type = Struct 16 (Field ''0'' (Array (scalar TYPE(u64)) 2) No_Field)"

lemma structures_wf:
  "wf_type timespec_type" "wf_type timeval_type" "wf_type sigset_t_type" "wf_type jmp_buf_tag_type"
proof -
  have "\<exists>i. (8 :: nat) = 2 ^ i" by (rule exI [of _ 3]) simp
  moreover have "\<exists>i. (1 :: nat) = 2 ^ i" by (rule exI [of _ 0]) simp
  ultimately show "wf_type timespec_type" "wf_type timeval_type" "wf_type sigset_t_type"
    "wf_type jmp_buf_tag_type"
    by (simp_all add: layout_types layout_eval)
qed


subsection \<open>What setjmp stores in a \<open>__jmp_buf_tag\<close>\<close>

lemma tag_access:
  "rd_elem m p jmp_buf_tag_type ''__jb'' i = (if unat i < 22 then rd64 m (p + 8 * i) else None)"
  "rd_field m p jmp_buf_tag_type ''__fl'' = rd64 m (p + 176)"
  "rd_elem m p jmp_buf_tag_type ''__ss'' i = (if unat i < 16 then rd64 m (p + (184 + 8 * i)) else None)"
  "size_of jmp_buf_tag_type = 312"
  by (simp_all add: field_access layout_types layout_eval jmp_buf_words_def)

lemma rd64_ldn: "rd64 m p = ldn m p 8"
  by (simp add: rd64_def ldn_def)

lemma rd64_behind:
  assumes "\<forall>a. a \<notin> span p 176 \<longrightarrow> m' a = m a" "176 \<le> unat i" "unat i + 8 \<le> 312"
  shows "rd64 m' (p + i) = rd64 m (p + i)"
  unfolding rd64_ldn
proof (rule ldn_cong)
  fix j :: nat assume "j < 8"
  then have "unat (i + of_nat j) = unat i + j"
    using assms(3) by (subst unat_add_of_nat) simp_all
  then have "p + (i + of_nat j) \<notin> span p 176" using assms(2) by (simp add: span_def)
  then show "m' (p + i + of_nat j) = m (p + i + of_nat j)"
    using assms(1) by (simp add: add.assoc)
qed

lemma rd_mask_behind:
  assumes "\<forall>a. a \<notin> span p 176 \<longrightarrow> m' a = m a"
  shows "rd_elem m' p jmp_buf_tag_type ''__ss'' i = rd_elem m p jmp_buf_tag_type ''__ss'' i"
proof (cases "unat i < 16")
  case True
  then have "unat (184 + 8 * i) = 184 + 8 * unat i"
    by (simp add: unat_word_ariths)
  then show ?thesis using True rd64_behind [OF assms, of "184 + 8 * i"] by (simp add: tag_access)
qed (simp add: tag_access)

lemma tag_indices:
  "[0..<23] = [0, 1, 2, 3, 4, 5, 6, 7, 8, 9, 10, 11, 12, 13, 14, 15, 16, 17, 18, 19, 20, 21, 22]"
  by (simp add: upt_conv_Cons)

text \<open>
  C32. The assembly of \<open>setjmp\<close> and the structure that the Rust source declares for it agree: when
  it returns, the elements of \<open>__jb\<close> are \<open>x19\<close> to \<open>x30\<close>, an element that is not written, the
  stack pointer, and \<open>d8\<close> to \<open>d15\<close>, in this order, and there are no more; the mask flag \<open>__fl\<close>
  and the mask \<open>__ss\<close> behind them keep their values, as does all memory outside the structure.
\<close>

theorem setjmp_fills_the_tag:
  assumes "mapped (mram s) (xreg s 0) (size_of jmp_buf_tag_type)"
  shows "\<exists>s1. run E P setjmp s = Some (To (xreg s 30), s1)
    \<and> map (\<lambda>i. rd_elem (mram s1) (xreg s 0) jmp_buf_tag_type ''__jb'' (of_nat i)) [0..<23] =
      map (\<lambda>r. Some (xreg s r)) [19..<31]
      @ [rd_elem (mram s) (xreg s 0) jmp_buf_tag_type ''__jb'' 12, Some (spreg s)]
      @ map (\<lambda>r. Some (ucast (vreg s r))) [8..<16] @ [None]
    \<and> rd_field (mram s1) (xreg s 0) jmp_buf_tag_type ''__fl'' =
      rd_field (mram s) (xreg s 0) jmp_buf_tag_type ''__fl''
    \<and> rd_elem (mram s1) (xreg s 0) jmp_buf_tag_type ''__ss'' =
      rd_elem (mram s) (xreg s 0) jmp_buf_tag_type ''__ss''
    \<and> (\<forall>a. a \<notin> span (xreg s 0) (size_of jmp_buf_tag_type) \<longrightarrow> mram s1 a = mram s a)"
proof -
  let ?p = "xreg s 0"
  have "mapped (mram s) ?p 176" using assms by (rule mapped_mono) (simp add: tag_access)
  from setjmp_run [OF this refl, of E P] obtain s1 where s1:
      "run E P setjmp s = Some (To (xreg s 30), s1)" "saves (mram s1) ?p s"
      "ldn (mram s1) (?p + 96) 8 = ldn (mram s) (?p + 96) 8"
      "\<forall>a. a \<notin> span ?p 176 \<longrightarrow> mram s1 a = mram s a"
    by blast
  have "span ?p 176 \<subseteq> span ?p 312" by (rule span_mono) simp
  then have frame: "\<forall>a. a \<notin> span ?p (size_of jmp_buf_tag_type) \<longrightarrow> mram s1 a = mram s a"
    using s1(4) by (auto simp: tag_access)
  have "map (\<lambda>i. rd_elem (mram s1) ?p jmp_buf_tag_type ''__jb'' (of_nat i)) [0..<23] =
      map (\<lambda>r. Some (xreg s r)) [19..<31]
      @ [rd_elem (mram s) ?p jmp_buf_tag_type ''__jb'' 12, Some (spreg s)]
      @ map (\<lambda>r. Some (ucast (vreg s r))) [8..<16] @ [None]"
    using s1(2,3) by (simp add: saves_def saved_words_def tag_indices tag_access rd64_ldn)
  moreover have "rd_field (mram s1) ?p jmp_buf_tag_type ''__fl'' =
      rd_field (mram s) ?p jmp_buf_tag_type ''__fl''"
    using rd64_behind [OF s1(4), of 176] by (simp add: tag_access)
  ultimately show ?thesis using s1(1) frame rd_mask_behind [OF s1(4)] by blast
qed

theorem setjmp_fills_the_tag_witness:
  "\<exists>s1. run jump_env [] setjmp (jump_demo\<lparr>mram := mem_of 4096 (replicate 312 7)\<rparr>) = Some (To 30, s1)
    \<and> rd_elem (mram s1) 4096 jmp_buf_tag_type ''__jb'' 13 = Some 8200
    \<and> rd_elem (mram s1) 4096 jmp_buf_tag_type ''__jb'' 21 = Some 15
    \<and> rd_field (mram s1) 4096 jmp_buf_tag_type ''__fl'' = Some 0x0707070707070707"
proof -
  let ?s = "jump_demo\<lparr>mram := mem_of 4096 (replicate 312 7)\<rparr>"
  have flag: "rd_field (mem_of 4096 (replicate 312 7)) 4096 jmp_buf_tag_type ''__fl'' =
      Some 0x0707070707070707"
    by (simp add: tag_access rd64_def load_bytes_def mem_eval upt_conv_Cons)
  have "mapped (mram ?s) (xreg ?s 0) (size_of jmp_buf_tag_type)"
    using bytes_at_mapped [OF bytes_at_mem_of [of "replicate 312 (7 :: u8)" 4096]]
    by (simp add: jump_demo_def tag_access)
  from setjmp_fills_the_tag [OF this, of jump_env "[]"] show ?thesis
    using flag by (auto simp: jump_demo_def tag_indices)
qed

end
