(* ===== verification/Layout_Tests.thy ===== *)
theory Layout_Tests
  imports Test_Kit Structures
begin

section \<open>The tests of the layout of structures\<close>

text \<open>
  The tests of \<open>mytilus-time\<close>, \<open>mytilus-startup\<close>, \<open>mytilus-signal\<close> and \<open>mytilus-stdlib\<close> about
  sizes, alignments and offsets. \<open>offset_of!\<close> of a field that is there is \<open>Some\<close>.
\<close>

definition timespec_layout_matches_lp64_abi :: "unit option" where
  "timespec_layout_matches_lp64_abi = do {
     assert_that (size_of timespec_type = 16);
     assert_that (align_of timespec_type = 8);
     assert_that (offset_of timespec_type ''tv_sec'' = Some 0);
     assert_that (offset_of timespec_type ''tv_nsec'' = Some 8)
   }"

definition timeval_layout_matches_lp64_abi :: "unit option" where
  "timeval_layout_matches_lp64_abi = do {
     assert_that (size_of timeval_type = 16);
     assert_that (align_of timeval_type = 8);
     assert_that (offset_of timeval_type ''tv_sec'' = Some 0);
     assert_that (offset_of timeval_type ''tv_usec'' = Some 8)
   }"

definition jmp_buf_layout_matches_aarch64_lp64 :: "unit option" where
  "jmp_buf_layout_matches_aarch64_lp64 = do {
     assert_that (size_of jmp_buf_regs_type = 176);
     assert_that (align_of jmp_buf_regs_type = 8)
   }"

definition jmp_buf_tag_layout_matches_lp64_abi :: "unit option" where
  "jmp_buf_tag_layout_matches_lp64_abi = do {
     assert_that (size_of jmp_buf_tag_type = 312);
     assert_that (align_of jmp_buf_tag_type = 8);
     assert_that (offset_of jmp_buf_tag_type ''__jb'' = Some 0);
     assert_that (offset_of jmp_buf_tag_type ''__fl'' = Some 176);
     assert_that (offset_of jmp_buf_tag_type ''__ss'' = Some 184)
   }"

definition jmp_buf_is_array_of_one_tag :: "unit option" where
  "jmp_buf_is_array_of_one_tag = do {
     assert_that (size_of jmp_buf_type = size_of jmp_buf_tag_type);
     assert_that (size_of sigjmp_buf_type = size_of jmp_buf_tag_type)
   }"

definition save_offsets_match_setjmp_s :: "unit option" where
  "save_offsets_match_setjmp_s = do {
     let SLOT = size_of (scalar TYPE(c_ulong));
     assert_that (SLOT = 8);
     assert_that (2 * SLOT = 16);
     assert_that (13 * SLOT = 104);
     assert_that (14 * SLOT = 112);
     assert_that (20 * SLOT = 160);
     assert_that (21 * SLOT = 168)
   }"

definition sigset_layout_matches_kernel_abi :: "unit option" where
  "sigset_layout_matches_kernel_abi = do {
     assert_that (size_of sigset_t_type = 128);
     assert_that (align_of sigset_t_type = 8);
     assert_that (SIGSET_NWORDS = 16);
     assert_that (SST_SIZE = 1)
   }"

definition div_struct_layouts :: "unit option" where
  "div_struct_layouts = do {
     assert_that (size_of div_t_type = 8);
     assert_that (align_of div_t_type = 4);
     assert_that (offset_of div_t_type ''quot'' = Some 0);
     assert_that (offset_of div_t_type ''rem'' = Some 4);
     assert_that (size_of ldiv_t_type = 16);
     assert_that (align_of ldiv_t_type = 8);
     assert_that (offset_of ldiv_t_type ''quot'' = Some 0);
     assert_that (offset_of ldiv_t_type ''rem'' = Some 8);
     assert_that (size_of lldiv_t_type = 16);
     assert_that (size_of imaxdiv_t_type = 16)
   }"

lemma layout_tests_pass:
  "timespec_layout_matches_lp64_abi = Some ()" "timeval_layout_matches_lp64_abi = Some ()"
  "jmp_buf_layout_matches_aarch64_lp64 = Some ()" "jmp_buf_tag_layout_matches_lp64_abi = Some ()"
  "jmp_buf_is_array_of_one_tag = Some ()" "save_offsets_match_setjmp_s = Some ()"
  "sigset_layout_matches_kernel_abi = Some ()" "div_struct_layouts = Some ()"
  by (simp_all add: timespec_layout_matches_lp64_abi_def timeval_layout_matches_lp64_abi_def
      jmp_buf_layout_matches_aarch64_lp64_def jmp_buf_tag_layout_matches_lp64_abi_def
      jmp_buf_is_array_of_one_tag_def save_offsets_match_setjmp_s_def
      sigset_layout_matches_kernel_abi_def div_struct_layouts_def assert_that_def layout_types
      layout_eval jmp_buf_words_def sig_defs scast_eq)

lemma longdouble_layout: "size_of c_longdouble_type = 16" "align_of c_longdouble_type = 16"
  by (simp_all add: layout_types layout_eval)

end
