(* ===== verification/Spec2Isabelle.thy ===== *)
theory Spec2Isabelle
  imports Str_Search Sort Rand48 Api Sigset Spinlock Startup Cancel_Point Memcpy_Asm Memset_Asm
    Mem_Tests Str_Fns_Tests Str_Search_Tests Sort_Tests Sigset_Tests Value_Tests Prng_Tests Abi_Tests
    Layout_Tests
begin

text \<open>
  Mytilus is a C library for aarch64 Linux in Rust, a port of musl. Its crates export C functions
  over raw pointers and system calls, with a little hand-written assembly below them. This
  library models all of its code that computes anything and proves what the functions promise.

  \<^bold>\<open>The parts and their theories.\<close> Paths are below \<open>src/crates/\<close>; a definition has the name of
  its function, with a suffix where HOL has the name already (\<open>abs_fn\<close>, \<open>read_fn\<close>, and
  \<open>_internal\<close> for a name with leading underscores).

  \<^item> \<open>Prelude\<close>: the C types as words, casts and flags, and the locale \<open>simulation\<close> with
    \<open>run_all\<close>, a sequence of operations. \<open>Memory\<close>: the bytes behind raw pointers as a partial
    function of addresses; reading or writing an unmapped byte is \<open>None\<close>. \<open>Words\<close>: little-endian
    objects of several bytes.
  \<^item> \<open>Mem_Ops\<close> (\<open>mytilus-string/src/mem.rs\<close>), \<open>Str_Fns\<close> (\<open>str_fns.rs\<close>), \<open>Str_Search\<close>
    (\<open>str_search.rs\<close>): the memory and string functions as the loops of the source.
  \<^item> \<open>Ctype\<close> (\<open>mytilus-locale/src/ctype.rs\<close>), \<open>Int_Ops\<close> (\<open>mytilus-stdlib/src/int_ops.rs\<close>),
    \<open>Errno\<close> (\<open>mytilus-sys/src/errno_raw.rs\<close>, \<open>mytilus-errno\<close>): pure functions and tables.
  \<^item> \<open>Sort\<close> (\<open>mytilus-stdlib/src/sort.rs\<close>): heapsort on bytes behind \<open>qsort\<close> and \<open>qsort_r\<close>, and
    \<open>bsearch\<close>, with the comparator as a parameter that may fail.
  \<^item> \<open>Rand48\<close>, \<open>Random_Gen\<close>, \<open>Spinlock\<close> (\<open>mytilus-prng/src/lib.rs\<close>): the generators with their
    statics as state. The functions of the random family that take the lock, and \<open>lock\<close> and
    \<open>unlock\<close>, are lists of statements (\<open>random_code\<close>, \<open>lock\<close>, ...); \<open>exec\<close> runs one alone, and
    the step relation of \<open>Spinlock\<close> interleaves those of any number of threads.
  \<^item> \<open>Syscall\<close> (\<open>mytilus-sys/src/syscall.rs\<close>, \<open>nr.rs\<close>): the system-call stubs over a kernel that
    is a parameter, the result convention, and the state \<open>world\<close>: \<open>errno\<close>, the cancel flag, the
    memory and the kernel. On it \<open>Mman\<close>, \<open>Fcntl\<close>, \<open>Process\<close>, \<open>Time\<close>, \<open>Unistd\<close>, \<open>Sigset\<close>, one for
    each crate of that name (\<open>Sigset\<close> for \<open>mytilus-signal\<close>), and \<open>Api\<close>, which has all their
    calls as one interface.
  \<^item> \<open>Aarch64\<close>: a machine with the instructions that the assembly of the repository uses;
    \<open>Startup\<close> (\<open>mytilus-startup\<close>: \<open>setjmp.s\<close>, \<open>longjmp.s\<close>, the \<open>crt\<close> objects; and the panic
    handler of the umbrella crate \<open>mytilus\<close>), \<open>Cancel_Point\<close>
    (\<open>mytilus-sys/asm/syscall_cp.s\<close>), and, on the stores by chunks of \<open>Chunks\<close>, \<open>Memcpy_Asm\<close>
    and \<open>Memset_Asm\<close> (\<open>mytilus-string/asm/memcpy.S\<close>, \<open>memset.S\<close>). A block of the assembly is a
    definition with the name of its label.
  \<^item> \<open>Layout\<close>: the layout that Rust gives \<open>repr(C)\<close> types, the laws of it, and the access to a
    field by its name, which \<open>Time\<close>, \<open>Unistd\<close> and \<open>Sigset\<close> use for \<open>timespec\<close>, \<open>timeval\<close> and
    \<open>sigset_t\<close>. \<open>Structures\<close>: the other \<open>repr(C)\<close> types (the \<open>div\<close> results, \<open>jmp_buf\<close>), and
    what the assembly of \<open>setjmp\<close> stores in the fields of a \<open>__jmp_buf_tag\<close>.
  \<^item> \<open>Mem_Tests\<close>, \<open>Str_Fns_Tests\<close>, \<open>Str_Search_Tests\<close>, \<open>Sort_Tests\<close>, \<open>Sigset_Tests\<close>, \<open>Value_Tests\<close>
    (ctype, integers, errno), \<open>Prng_Tests\<close>, \<open>Abi_Tests\<close> (the constants of the system-call
    crates), \<open>Layout_Tests\<close>: the unit tests of the source as programs of the model, on the
    evaluation kit \<open>Test_Kit\<close>. Each is proved to pass, which ties the definitions to the behaviour
    the authors of the code expect.

  \<^bold>\<open>How errors and effects appear.\<close> A function that may read or write out of bounds, panic, spin
  forever or leave the program returns an option; \<open>None\<close> is that outcome, so a theorem that a
  call equals \<open>Some\<close> says that it returns and touched mapped bytes only. Loops that need not end
  on every input are \<open>partial_function (option)\<close>, and the theorems about them state the result
  with \<open>Some\<close>, hence termination. No fuel is used anywhere. Integers are words of their C width.
  An error of a system call is a result of -4096 to -1; \<open>ret\<close> turns it into -1 and \<open>errno\<close>.

  \<^bold>\<open>Interfaces.\<close> The locale \<open>comparator\<close> is the contract of a sort: the client part is the
  correctness of heapsort, interpreted for \<open>memcmp\<close>. The locale \<open>counted_loop\<close> is the contract of
  a loop of the assembly and gives its return; it is interpreted for the loops of both routines.
  The locales \<open>raw_call\<close>, \<open>posix_call\<close> and \<open>direct_call\<close> are the contract of a wrapper with its
  kernel, interpreted for every system-call stub. The locale \<open>simulation\<close> relates a step of the
  code to a step of its specification and is interpreted for signal sets, for the random family
  and for the tests that draw many numbers.

  \<^bold>\<open>What the lemmas show.\<close> For each string and memory function: the result and the new memory for
  every string, on every branch. Sorting: the code runs the list algorithm, which sorts for every
  total preorder. Generators: the code computes the mathematical recurrences, \<open>initstate\<close> and
  \<open>setstate\<close> are inverse, and with threads the calls linearize, exclude each other and cannot deadlock. System
  calls: each wrapper is its documented request, \<open>errno\<close> is set exactly on failure, and in no
  reachable state is the cancel branch taken. Signal sets refine sets of numbers. Assembly: the
  machine code of \<open>setjmp\<close> and \<open>longjmp\<close>, of the program start and of the cancellation points
  does what its callers rely on, and that of \<open>memcpy\<close> and \<open>memset\<close> equals the byte loops.
  Layout: fields are aligned, inside their structure and apart, and \<open>setjmp\<close> keeps to them. At
  the end of this theory: properties of functions of several crates together.

  \<^bold>\<open>Assumptions.\<close> The kernel is arbitrary except where a theorem names what it relies on: that a
  call reads only its documented number of arguments (\<open>reads_args\<close>), and for sleeping and the
  clock the documented results. Threads interleave between any two statements of the random
  functions, and inside a block of plain accesses between its reads and its writes.

  \<^bold>\<open>Not modelled.\<close> The crates that hold no code yet (\<open>aio\<close>, \<open>crypt\<close>, \<open>fs\<close>, \<open>internal\<close>,
  \<open>ipc\<close>, \<open>ldso\<close>, \<open>malloc\<close>, \<open>math\<close>, \<open>net\<close>, \<open>passwd\<close>, \<open>regex\<close>, \<open>search\<close>, \<open>stdio\<close>,
  \<open>thread\<close>); the unit test \<open>cross_crate_dep_links\<close>, which runs no code; branches for other
  targets than aarch64 Linux. Floating point occurs only as the result of \<open>drand48\<close> and
  \<open>erand48\<close>, which is modelled as the exact rational it represents.
\<close>


section \<open>Properties that span components\<close>

text \<open>
  C39. A copy is equal to its original for every function that can look at it: after \<open>strcpy\<close> into
  a separate buffer the source is untouched, \<open>strlen\<close> gives both the same length, and
  \<open>strcmp\<close>, and \<open>memcmp\<close> up to the terminator, find no difference.
\<close>

theorem strcpy_then_compare:
  assumes "cstr m s bs" "mapped m d (Suc (length bs))"
    and "disjoint_spans d (Suc (length bs)) s (Suc (length bs))"
  shows "\<exists>m'. strcpy m d s = Some (d, m') \<and> cstr m' s bs
    \<and> strlen m' d = Some (of_nat (length bs)) \<and> strlen m' s = Some (of_nat (length bs))
    \<and> strcmp m' d s = Some 0 \<and> memcmp m' d s (of_nat (length bs)) = Some 0"
proof -
  let ?m = "put m d (bs @ [0])"
  have len: "length bs < 2 ^ 64" using assms(1) by (rule cstr_length)
  have src: "bytes_at ?m s (bs @ [0])"
    using assms len by (simp add: bytes_at_put_disjoint cstr_def)
  have dst: "bytes_at ?m d (bs @ [0])"
    using len by (intro bytes_at_put) simp
  have str: "cstr ?m s bs" "cstr ?m d bs" using src dst assms(1) by (simp_all add: cstr_def)
  have "memcmp ?m d s (of_nat (length bs)) = Some (byte_diff bs bs)"
    using src dst len by (intro memcmp_byte_diff) (simp_all add: bytes_at_append unat_of_nat_64)
  then show ?thesis
    using stpcpy_internal_cstr [OF assms] str strlen_cstr strcmp_cstr
    by (simp add: strcpy_def byte_diff_same)
qed

theorem strcpy_then_compare_witness:
  "\<exists>m'. strcpy (mem_of 4096 [97, 98, 0, 9, 9, 9]) 4099 4096 = Some (4099, m')
    \<and> cstr m' 4096 [97, 98]
    \<and> strlen m' 4099 = Some (of_nat (length [97 :: u8, 98]))
    \<and> strlen m' 4096 = Some (of_nat (length [97 :: u8, 98]))
    \<and> strcmp m' 4099 4096 = Some 0 \<and> memcmp m' 4099 4096 (of_nat (length [97 :: u8, 98])) = Some 0"
proof (rule strcpy_then_compare)
  show "disjoint_spans 4099 (Suc (length [97 :: u8, 98])) 4096 (Suc (length [97 :: u8, 98]))"
    by (rule disjoint_spans_le) simp_all
qed (simp_all add: mem_eval)

text \<open>
  C13. What \<open>qsort\<close> produces \<open>bsearch\<close> can search: with \<open>memcmp\<close> as comparator of both, a search
  in the sorted array for a key outside it finds an element with the bytes of the key when the
  array had one before it was sorted, and NULL otherwise.
\<close>

theorem qsort_then_bsearch:
  assumes "valid_array m base nel width es" "fns f = memcmp_cmp width"
    and "bytes_at m key k" "length k = unat width"
    and "disjoint_spans base (unat nel * unat width) key (unat width)"
  shows "\<exists>m' r. qsort fns m base nel width f = Some m'
    \<and> bsearch m' key base nel width (fns f) = Some r
    \<and> (if k \<in> set es then bytes_at m' r k \<and> (\<exists>i<unat nel. r = base + of_nat (i * unat width))
       else r = 0)"
proof -
  let ?es = "heap_sort byte_diff es" and ?w = "unat width"
  let ?m = "array_at m base ?es" and ?s = "\<lambda>i. byte_diff k (?es ! i)"
  have run: "qsort fns m base nel width f = Some ?m" and srt: "sorted ?es"
    using qsort_memcmp_runs [of m base nel width es fns f] assms(1,2) by simp_all
  have arr: "length es = unat nel" "set es \<subseteq> of_width ?w" "unat nel * ?w \<le> 2 ^ 63"
    using assms(1) by (auto simp: valid_array_def)
  have es: "length ?es = unat nel" using arr(1) by (simp add: length_heap_sort)
  have same: "set ?es = set es" by (metis heap_sort_mset set_mset_mset)
  have elem: "bytes_at ?m (base + of_nat (i * ?w)) (?es ! i)" "length (?es ! i) = ?w"
    if "i < unat nel" for i
  proof -
    have "set ?es \<subseteq> of_width ?w" "i < length ?es" "length ?es * ?w \<le> 2 ^ 64"
      using that arr es same by simp_all
    then show "bytes_at ?m (base + of_nat (i * ?w)) (?es ! i)" by (rule array_at_element)
    show "length (?es ! i) = ?w" using that arr(2) es same nth_mem [of i ?es] by auto
  qed
  have "length (concat ?es) = unat nel * ?w" using arr es same by (simp add: length_concat_width)
  then have key: "bytes_at ?m key k"
    using assms(3-5) arr(3) unat_lt_64 [of width] by (simp add: array_at_def bytes_at_put_disjoint)
  have cmp: "fns f ?m key (base + of_nat (i * ?w)) = Some (?s i)" if "i < unat nel" for i
    using elem [OF that] key assms(2,4) by (simp add: memcmp_cmp_def memcmp_byte_diff)
  have "ascending_signs ?s (unat nel)"
    using sorted_signs [OF srt, of k] elem(2) assms(4) es by (metis in_set_conv_nth)
  then obtain r where r: "bsearch_loop ?m key base nel width (fns f) = Some r"
      "bsearch_result ?s base ?w {0..<unat nel} r"
    using bsearch_loop_finds [of "unat nel" "fns f" ?m key base ?w ?s 0 "unat nel", OF cmp]
      unat_lt_64 [of nel] by auto
  have eq: "sint (?s i) = 0 \<longleftrightarrow> ?es ! i = k" if "i < unat nel" for i
    using byte_diff_sign [of k "?es ! i"] elem(2) [OF that] assms(4) by auto
  have mem: "k \<in> set es \<longleftrightarrow> (\<exists>i<unat nel. ?es ! i = k)"
    using es by (metis same in_set_conv_nth)
  have "if k \<in> set es then bytes_at ?m r k \<and> (\<exists>i<unat nel. r = base + of_nat (i * ?w)) else r = 0"
    using r(2) eq elem(1) unfolding mem bsearch_result_def
    by (auto simp del: of_nat_mult)
  then show ?thesis using r(1) run by (auto simp: bsearch_def simp del: of_nat_mult)
qed

theorem qsort_then_bsearch_witness:
  "\<exists>m' r. qsort (\<lambda>_. memcmp_cmp 1) (mem_of 4096 [3, 1, 2, 1]) 4096 3 1 77 = Some m'
    \<and> bsearch m' 4099 4096 3 1 (memcmp_cmp 1) = Some r
    \<and> (if [1] \<in> set [[3 :: u8], [1], [2]]
       then bytes_at m' r [1 :: u8] \<and> (\<exists>i<unat (3 :: size_t). r = 4096 + of_nat (i * unat (1 :: size_t)))
       else r = 0)"
proof (rule qsort_then_bsearch [where fns = "\<lambda>_. memcmp_cmp 1" and f = 77])
  show "valid_array (mem_of 4096 [3, 1, 2, 1]) 4096 3 1 [[3], [1], [2]]"
    by (simp add: valid_array_def mem_eval)
  show "disjoint_spans 4096 (unat (3 :: size_t) * unat (1 :: size_t)) 4099 (unat (1 :: size_t))"
    by (rule disjoint_spans_le) simp_all
qed (simp_all add: mem_eval)

end
